(* ===== verification/Prelude.thy ===== *)
theory Prelude
  imports Main "HOL-Library.Word" "HOL-Library.Multiset"
begin

text \<open>
  The shared base of the development: the machine integers of the Rust sources, byte
  strings, the little-endian and big-endian codecs of the wire formats, slices that
  panic, and association lists with the update that \<open>HashMap::insert\<close> performs.

  \<^item> \<open>u8\<close>, \<open>u16\<close>, \<open>u32\<close>, \<open>u64\<close> are words of that width; \<open>usize\<close> is \<open>nat\<close> (every
    \<open>usize\<close> computed by the modelled code is the length of an allocated buffer, an
    offset into one, or a \<open>u32\<close>/\<open>u64\<close> read from the wire, on a 64-bit target).
  \<^item> \<open>bytes\<close> is \<open>Vec<u8>\<close>, \<open>&[u8]\<close> and \<open>bytes::Bytes\<close>.
  \<^item> \<open>le_enc n k\<close> is \<open>to_le_bytes\<close> of an \<open>n\<close>-byte integer, \<open>le_nat\<close> its inverse.
  \<^item> \<open>sub_bytes bs a b\<close> is the slice \<open>bs[a..b]\<close>; the callers test the bounds first and
    model the out-of-range slice as a panic.
\<close>

named_theorems wire_simps \<open>lengths, concatenations and round trips of wire encodings\<close>

type_synonym u8 = "8 word"
type_synonym u16 = "16 word"
type_synonym u32 = "32 word"
type_synonym u64 = "64 word"
type_synonym bytes = "8 word list"

subsection \<open>Integer codecs\<close>

primrec le_enc :: "nat \<Rightarrow> nat \<Rightarrow> bytes" where
  "le_enc 0 k = []"
| "le_enc (Suc n) k = word_of_nat k # le_enc n (k div 256)"

primrec le_nat :: "bytes \<Rightarrow> nat" where
  "le_nat [] = 0"
| "le_nat (b # bs) = unat b + 256 * le_nat bs"

definition le16 :: "u16 \<Rightarrow> bytes" where
  "le16 w = le_enc 2 (unat w)"

definition le32 :: "u32 \<Rightarrow> bytes" where
  "le32 w = le_enc 4 (unat w)"

definition le64 :: "u64 \<Rightarrow> bytes" where
  "le64 w = le_enc 8 (unat w)"

definition be_nat :: "bytes \<Rightarrow> nat" where
  "be_nat bs = le_nat (rev bs)"

definition be32 :: "u32 \<Rightarrow> bytes" where
  "be32 w = rev (le32 w)"

definition sub_bytes :: "'a list \<Rightarrow> nat \<Rightarrow> nat \<Rightarrow> 'a list" where
  "sub_bytes bs a b = take (b - a) (drop a bs)"

subsection \<open>Hash maps that are iterated\<close>

text \<open>
  A \<open>HashMap\<close> that the code iterates over is an association list: \<open>hm_insert\<close> overwrites
  the value of a key that is present and adds a key that is not. The order in which Rust
  visits the entries is unspecified; every definition that iterates takes it as a
  parameter (\<open>iter_order\<close>, assumed to permute the entries).
\<close>

fun hm_insert :: "'k \<Rightarrow> 'v \<Rightarrow> ('k \<times> 'v) list \<Rightarrow> ('k \<times> 'v) list" where
  "hm_insert k v [] = [(k, v)]"
| "hm_insert k v ((k', v') # m) =
     (if k' = k then (k, v) # m else (k', v') # hm_insert k v m)"

definition hm_keys :: "('k \<times> 'v) list \<Rightarrow> 'k set" where
  "hm_keys m = fst ` set m"

subsection \<open>Lemmas on the codecs\<close>

lemma length_le_enc [simp, wire_simps]: "length (le_enc n k) = n"
  by (induction n arbitrary: k) auto

lemma length_le16 [simp, wire_simps]: "length (le16 w) = 2"
  by (simp add: le16_def)

lemma length_le32 [simp, wire_simps]: "length (le32 w) = 4"
  by (simp add: le32_def)

lemma length_le64 [simp, wire_simps]: "length (le64 w) = 8"
  by (simp add: le64_def)

lemma length_be32 [simp, wire_simps]: "length (be32 w) = 4"
  by (simp add: be32_def)

lemma unat_byte_lt: "unat (b :: u8) < 256"
  using unsigned_less [of b] by simp

lemma unat16_lt: "unat (w :: u16) < 65536"
  using unsigned_less [of w] by simp

lemma unat32_lt: "unat (w :: u32) < 4294967296"
  using unsigned_less [of w] by simp

lemma unat64_lt: "unat (w :: u64) < 18446744073709551616"
  using unsigned_less [of w] by simp

lemma unat_word16: "n < 65536 \<Longrightarrow> unat (word_of_nat n :: u16) = n"
  by (simp add: unat_of_nat)

lemma unat_word32: "n < 4294967296 \<Longrightarrow> unat (word_of_nat n :: u32) = n"
  by (simp add: unat_of_nat)

lemma unat_word64: "n < 18446744073709551616 \<Longrightarrow> unat (word_of_nat n :: u64) = n"
  by (simp add: unat_of_nat)

lemma unat_u32_u64: "unat (ucast (w :: u32) :: u64) = unat w"
  using unat32_lt [of w] by (simp add: unsigned_ucast_eq unsigned_take_bit_eq take_bit_nat_eq_self)

lemma le_nat_le_enc: "le_nat (le_enc n k) = k mod 256 ^ n"
proof (induction n arbitrary: k)
  case 0
  then show ?case by simp
next
  case (Suc n)
  have "le_nat (le_enc (Suc n) k) = k mod 256 + 256 * (k div 256 mod 256 ^ n)"
    by (simp add: Suc.IH unat_of_nat)
  also have "\<dots> = k mod (256 * 256 ^ n)"
    by (simp add: mod_mult2_eq)
  finally show ?case by simp
qed

lemma le_nat_bound: "le_nat bs < 256 ^ length bs"
proof (induction bs)
  case Nil
  then show ?case by simp
next
  case (Cons b bs)
  have "unat b + 256 * le_nat bs < 256 + 256 * le_nat bs"
    using unat_byte_lt [of b] by simp
  also have "\<dots> = 256 * Suc (le_nat bs)"
    by simp
  also have "\<dots> \<le> 256 * 256 ^ length bs"
    using Cons.IH by simp
  finally show ?case by simp
qed

lemma le_enc_le_nat: "le_enc (length bs) (le_nat bs) = bs"
proof (induction bs)
  case Nil
  then show ?case by simp
next
  case (Cons b bs)
  have "word_of_nat (unat b + 256 * le_nat bs) = b"
  proof -
    have "(256 :: u8) = 0"
      by simp
    then have "(word_of_nat (256 * le_nat bs) :: u8) = 0"
      by (metis mult_zero_left of_nat_mult of_nat_numeral)
    then show ?thesis by simp
  qed
  moreover have "(unat b + 256 * le_nat bs) div 256 = le_nat bs"
    using unat_byte_lt [of b] by simp
  ultimately show ?case
    using Cons.IH by simp
qed

lemma le_nat_le16 [simp, wire_simps]: "le_nat (le16 w) = unat w"
  using unat16_lt [of w] by (simp add: le16_def le_nat_le_enc)

lemma le_nat_le32 [simp, wire_simps]: "le_nat (le32 w) = unat w"
  using unat32_lt [of w] by (simp add: le32_def le_nat_le_enc)

lemma le_nat_le64 [simp, wire_simps]: "le_nat (le64 w) = unat w"
  using unat64_lt [of w] by (simp add: le64_def le_nat_le_enc)

lemma be_nat_be32 [simp, wire_simps]: "be_nat (be32 w) = unat w"
  by (simp add: be_nat_def be32_def)

subsection \<open>Lemmas on slices\<close>

lemma length_sub_bytes [simp]: "length (sub_bytes bs a b) = min (b - a) (length bs - a)"
  by (simp add: sub_bytes_def min.commute)

lemma sub_bytes_append1 [wire_simps]: "length xs = b \<Longrightarrow> sub_bytes (xs @ ys) 0 b = xs"
  by (simp add: sub_bytes_def)

lemma sub_bytes_skip: "length xs \<le> a \<Longrightarrow>
    sub_bytes (xs @ ys) a b = sub_bytes ys (a - length xs) (b - length xs)"
  by (simp add: sub_bytes_def)

lemma last_neq_notin: "xs \<noteq> [] \<Longrightarrow> x \<notin> set xs \<Longrightarrow> last xs \<noteq> x"
  using last_in_set [of xs] by auto

lemma sub_bytes_all: "length xs \<le> b \<Longrightarrow> sub_bytes xs 0 b = xs"
  by (simp add: sub_bytes_def)

subsection \<open>Lemmas on association lists\<close>

lemma map_of_hm_insert [simp]: "map_of (hm_insert k v m) = (map_of m)(k \<mapsto> v)"
  by (induction k v m rule: hm_insert.induct) (auto simp: fun_eq_iff)

lemma hm_keys_insert [simp]: "hm_keys (hm_insert k v m) = insert k (hm_keys m)"
  by (induction k v m rule: hm_insert.induct) (auto simp: hm_keys_def)

lemma hm_insert_new: "k \<notin> hm_keys m \<Longrightarrow> hm_insert k v m = m @ [(k, v)]"
  by (induction k v m rule: hm_insert.induct) (auto simp: hm_keys_def)

lemma hm_insert_present: "k \<in> hm_keys m \<Longrightarrow> map fst (hm_insert k v m) = map fst m"
  by (induction k v m rule: hm_insert.induct) (auto simp: hm_keys_def)

lemma distinct_hm_insert [simp]: "distinct (map fst (hm_insert k v m)) \<longleftrightarrow> distinct (map fst m)"
proof (cases "k \<in> hm_keys m")
  case True
  then show ?thesis by (simp add: hm_insert_present)
next
  case False
  then show ?thesis by (simp add: hm_insert_new) (simp add: hm_keys_def)
qed

lemma length_hm_insert: "length (hm_insert k v m) =
    (if k \<in> hm_keys m then length m else Suc (length m))"
  by (induction k v m rule: hm_insert.induct) (auto simp: hm_keys_def)

lemma find_SomeD: "find P xs = Some x \<Longrightarrow> x \<in> set xs \<and> P x"
  by (induction xs) (auto split: if_splits)

lemma find_permuted:
  assumes "mset ys = mset xs"
  shows "(find P ys = None) = (find P xs = None)"
  using mset_eq_setD [OF assms] by (simp add: find_None_iff)

subsection \<open>Blocks\<close>

text \<open>A byte string cut into blocks of \<open>n\<close> bytes; the last one may be shorter.\<close>

function blocks :: "nat \<Rightarrow> bytes \<Rightarrow> bytes list" where
  "blocks n data = (if n = 0 \<or> data = [] then [] else take n data # blocks n (drop n data))"
  by pat_completeness auto
termination
  by (relation "measure (\<lambda>(n, data). length data)") auto

declare blocks.simps [simp del]

lemma concat_blocks: "0 < n \<Longrightarrow> concat (blocks n data) = data"
  by (induction n data rule: blocks.induct) (simp add: blocks.simps)

lemma blocks_bound: "b \<in> set (blocks n data) \<Longrightarrow> b \<noteq> [] \<and> length b \<le> n"
proof (induction n data rule: blocks.induct)
  case (1 n data)
  from "1.prems" have "n \<noteq> 0" "data \<noteq> []" "b = take n data \<or> b \<in> set (blocks n (drop n data))"
    by (subst (asm) blocks.simps; auto split: if_splits)+
  then show ?case
    using "1.IH" by auto
qed

lemma length_blocks: "0 < n \<Longrightarrow> length (blocks n data) \<le> length data div n + 1"
proof (induction "length data" arbitrary: data rule: less_induct)
  case less
  show ?case
  proof (cases "n \<le> length data")
    case True
    with less.prems have "length data div n = (length data - n) div n + 1"
      by (simp add: le_div_geq)
    moreover have "length (blocks n (drop n data)) \<le> length (drop n data) div n + 1"
      using True less.prems by (intro less.hyps) simp_all
    ultimately show ?thesis
      using less.prems by (subst blocks.simps) simp
  next
    case False
    then have "blocks n (drop n data) = []"
      by (simp add: blocks.simps)
    then show ?thesis
      by (subst blocks.simps) simp
  qed
qed

lemma blocks_step: "0 < n \<Longrightarrow> data \<noteq> [] \<Longrightarrow> blocks n data = take n data # blocks n (drop n data)"
  by (subst blocks.simps) simp

lemma blocks_Nil: "blocks n [] = []"
  by (simp add: blocks.simps)

lemma blocks_nth:
  assumes "0 < n"
  shows "k < length (blocks n data) \<longleftrightarrow> k * n < length data"
    and "k < length (blocks n data) \<Longrightarrow> blocks n data ! k = take n (drop (k * n) data)"
proof -
  have "(k < length (blocks n data) \<longleftrightarrow> k * n < length data) \<and>
    (k < length (blocks n data) \<longrightarrow> blocks n data ! k = take n (drop (k * n) data))"
  proof (induction k arbitrary: data)
    case 0
    then show ?case
      using assms by (cases "data = []") (simp_all add: blocks_Nil blocks_step)
  next
    case (Suc k)
    show ?case
    proof (cases "data = []")
      case False
      have "k * n < length (drop n data) \<longleftrightarrow> Suc k * n < length data"
        by auto
      moreover have "drop (k * n) (drop n data) = drop (Suc k * n) data"
        by (simp add: add.commute)
      ultimately show ?thesis
        using Suc.IH [of "drop n data"] by (simp only: blocks_step [OF assms False] length_Cons nth_Cons_Suc Suc_less_eq) blast
    qed (simp add: blocks_Nil)
  qed
  then show "k < length (blocks n data) \<longleftrightarrow> k * n < length data"
    and "k < length (blocks n data) \<Longrightarrow> blocks n data ! k = take n (drop (k * n) data)"
    by blast+
qed

end
