(* ===== verification/Rust_Strings.thy ===== *)
theory Rust_Strings
  imports Prelude
begin

text \<open>
  The parts of Rust's \<open>str\<close>/\<open>String\<close> API that the sources use. A Rust string is a
  \<open>string\<close> whose characters are the bytes of its UTF-8 encoding, so \<open>length\<close> is
  \<open>str::len\<close> and slicing is byte-wise, as in Rust. \<open>utf8_ok\<close> is the invariant of Rust's
  type; \<open>from_utf8_lossy\<close> is the standard library's decoder, which replaces every maximal
  invalid sequence by U+FFFD.
\<close>

named_theorems str_simps \<open>rewrite rules for the string operations\<close>

subsection \<open>Characters and bytes\<close>

definition byte_of_char :: "char \<Rightarrow> u8" where
  "byte_of_char c = word_of_nat (of_char c)"

definition char_of_byte :: "u8 \<Rightarrow> char" where
  "char_of_byte b = char_of (unat b)"

definition as_bytes :: "string \<Rightarrow> bytes" where
  "as_bytes s = map byte_of_char s"

definition str_of_bytes :: "bytes \<Rightarrow> string" where
  "str_of_bytes bs = map char_of_byte bs"

subsection \<open>UTF-8\<close>

definition is_cont :: "u8 \<Rightarrow> bool" where
  "is_cont b = (0x80 \<le> b \<and> b \<le> 0xBF)"

text \<open>
  \<open>utf8_second b c\<close>: the byte \<open>c\<close> may follow the lead byte \<open>b\<close> of a three- or four-byte
  sequence (no overlong forms, no surrogates, nothing above U+10FFFF).
\<close>

definition utf8_second :: "u8 \<Rightarrow> u8 \<Rightarrow> bool" where
  "utf8_second b c =
     (if b = 0xE0 then 0xA0 \<le> c \<and> c \<le> 0xBF
      else if b = 0xED then 0x80 \<le> c \<and> c \<le> 0x9F
      else if b = 0xF0 then 0x90 \<le> c \<and> c \<le> 0xBF
      else if b = 0xF4 then 0x80 \<le> c \<and> c \<le> 0x8F
      else is_cont c)"

text \<open>The byte at an index, or 0 past the end (\<open>safe_get\<close> of the standard library).\<close>

definition byte_at :: "bytes \<Rightarrow> nat \<Rightarrow> u8" where
  "byte_at bs i = (if i < length bs then bs ! i else 0)"

text \<open>
  The first chunk of a non-empty byte string: how many bytes it has and whether they are
  one well-formed character.
\<close>

definition utf8_chunk :: "bytes \<Rightarrow> nat \<times> bool" where
  "utf8_chunk bs =
     (let b = byte_at bs 0; c = byte_at bs 1; d = byte_at bs 2; e = byte_at bs 3 in
      if b < 0x80 then (1, True)
      else if 0xC2 \<le> b \<and> b \<le> 0xDF then (if is_cont c then (2, True) else (1, False))
      else if 0xE0 \<le> b \<and> b \<le> 0xEF then
        (if \<not> utf8_second b c then (1, False)
         else if \<not> is_cont d then (2, False) else (3, True))
      else if 0xF0 \<le> b \<and> b \<le> 0xF4 then
        (if \<not> utf8_second b c then (1, False)
         else if \<not> is_cont d then (2, False)
         else if \<not> is_cont e then (3, False) else (4, True))
      else (1, False))"

lemma utf8_chunk_pos: "0 < fst (utf8_chunk bs)"
  by (simp add: utf8_chunk_def Let_def)

definition replacement :: string where
  "replacement = map char_of [0xEF :: nat, 0xBF, 0xBD]"

function from_utf8_lossy :: "bytes \<Rightarrow> string" where
  "from_utf8_lossy bs =
     (if bs = [] then []
      else let (n, ok) = utf8_chunk bs in
           (if ok then str_of_bytes (take n bs) else replacement) @ from_utf8_lossy (drop n bs))"
  by pat_completeness auto
termination
proof (relation "measure length", goal_cases)
  case 1
  then show ?case by simp
next
  case (2 bs p n ok)
  then show ?case
    using utf8_chunk_pos [of bs] by (cases bs) (auto simp: prod_eq_iff)
qed

declare from_utf8_lossy.simps [simp del]

function utf8_ok :: "bytes \<Rightarrow> bool" where
  "utf8_ok bs =
     (if bs = [] then True
      else snd (utf8_chunk bs) \<and> utf8_ok (drop (fst (utf8_chunk bs)) bs))"
  by pat_completeness auto
termination
  by (relation "measure length") (auto simp: utf8_chunk_pos)

declare utf8_ok.simps [simp del]

subsection \<open>Searching and splitting\<close>

definition ends_with_char :: "char \<Rightarrow> string \<Rightarrow> bool" where
  "ends_with_char c s = (s \<noteq> [] \<and> last s = c)"

definition starts_with :: "string \<Rightarrow> string \<Rightarrow> bool" where
  "starts_with p s = (take (length p) s = p)"

definition strip_prefix :: "string \<Rightarrow> string \<Rightarrow> string option" where
  "strip_prefix p s = (if starts_with p s then Some (drop (length p) s) else None)"

fun split_on :: "char \<Rightarrow> string \<Rightarrow> string list" where
  "split_on c [] = [[]]"
| "split_on c (x # xs) =
     (if x = c then [] # split_on c xs
      else case split_on c xs of [] \<Rightarrow> [[x]] | w # ws \<Rightarrow> (x # w) # ws)"

definition split_once :: "char \<Rightarrow> string \<Rightarrow> (string \<times> string) option" where
  "split_once c s =
     (case dropWhile (\<lambda>x. x \<noteq> c) s of [] \<Rightarrow> None
      | _ # r \<Rightarrow> Some (takeWhile (\<lambda>x. x \<noteq> c) s, r))"

definition rsplit_once :: "char \<Rightarrow> string \<Rightarrow> (string \<times> string) option" where
  "rsplit_once c s = map_option (\<lambda>(a, b). (rev b, rev a)) (split_once c (rev s))"

text \<open>\<open>s.rsplit(c).next()\<close>: the part after the last separator, always present.\<close>

definition last_segment :: "char \<Rightarrow> string \<Rightarrow> string" where
  "last_segment c s = rev (takeWhile (\<lambda>x. x \<noteq> c) (rev s))"

definition trim_start_char :: "char \<Rightarrow> string \<Rightarrow> string" where
  "trim_start_char c s = dropWhile (\<lambda>x. x = c) s"

definition trim_end_char :: "char \<Rightarrow> string \<Rightarrow> string" where
  "trim_end_char c s = rev (dropWhile (\<lambda>x. x = c) (rev s))"

fun find_str :: "string \<Rightarrow> string \<Rightarrow> nat option" where
  "find_str p [] = (if p = [] then Some 0 else None)"
| "find_str p (x # xs) =
     (if starts_with p (x # xs) then Some 0 else map_option Suc (find_str p xs))"

definition contains_str :: "string \<Rightarrow> string \<Rightarrow> bool" where
  "contains_str p s = (find_str p s \<noteq> None)"

fun join_with :: "string \<Rightarrow> string list \<Rightarrow> string" where
  "join_with sep [] = []"
| "join_with sep [w] = w"
| "join_with sep (w # v # ws) = w @ sep @ join_with sep (v # ws)"

definition strip_cr :: "string \<Rightarrow> string" where
  "strip_cr s = (if ends_with_char (CHR 0x0D) s then butlast s else s)"

text \<open>\<open>str::lines\<close>: a final empty line is dropped, and \<open>\r\<close> only before \<open>\n\<close>.\<close>

definition str_lines :: "string \<Rightarrow> string list" where
  "str_lines s =
     (let ws = split_on (CHR 0x0A) s in
      map strip_cr (butlast ws) @ (if last ws = [] then [] else [last ws]))"

subsection \<open>White space\<close>

text \<open>The UTF-8 encodings of the characters with the Unicode property \<open>White_Space\<close>.\<close>

definition ws_seqs :: "string list" where
  "ws_seqs = map (map char_of)
     ([[9], [10], [11], [12], [13], [32], [0xC2, 0x85], [0xC2, 0xA0], [0xE1, 0x9A, 0x80],
       [0xE2, 0x80, 0x80], [0xE2, 0x80, 0x81], [0xE2, 0x80, 0x82], [0xE2, 0x80, 0x83],
       [0xE2, 0x80, 0x84], [0xE2, 0x80, 0x85], [0xE2, 0x80, 0x86], [0xE2, 0x80, 0x87],
       [0xE2, 0x80, 0x88], [0xE2, 0x80, 0x89], [0xE2, 0x80, 0x8A], [0xE2, 0x80, 0xA8],
       [0xE2, 0x80, 0xA9], [0xE2, 0x80, 0xAF], [0xE2, 0x81, 0x9F], [0xE3, 0x80, 0x80]]
      :: nat list list)"

definition ws_len :: "string list \<Rightarrow> string \<Rightarrow> nat" where
  "ws_len seqs s = (case find (\<lambda>w. w \<noteq> [] \<and> starts_with w s) seqs of None \<Rightarrow> 0 | Some w \<Rightarrow> length w)"

lemma ws_len_pos: "ws_len seqs s \<noteq> 0 \<Longrightarrow> s \<noteq> []"
  by (auto simp: ws_len_def starts_with_def find_Some_iff split: option.splits)

lemma ws_len_drop: "0 < ws_len seqs s \<Longrightarrow> length s - ws_len seqs s < length s"
  using ws_len_pos [of seqs s] by (cases s) auto

function trim_seqs :: "string list \<Rightarrow> string \<Rightarrow> string" where
  "trim_seqs seqs s =
     (if ws_len seqs s = 0 then s else trim_seqs seqs (drop (ws_len seqs s) s))"
  by pat_completeness auto
termination
  by (relation "measure (\<lambda>(q, s). length s)") (auto dest: ws_len_drop)

declare trim_seqs.simps [simp del]

definition trim_start :: "string \<Rightarrow> string" where
  "trim_start s = trim_seqs ws_seqs s"

definition trim_end :: "string \<Rightarrow> string" where
  "trim_end s = rev (trim_seqs (map rev ws_seqs) (rev s))"

definition trim :: "string \<Rightarrow> string" where
  "trim s = trim_end (trim_start s)"

text \<open>\<open>split_whitespace\<close>; the second argument is the word being read, reversed.\<close>

function split_ws :: "string \<Rightarrow> string \<Rightarrow> string list" where
  "split_ws [] cur = (if cur = [] then [] else [rev cur])"
| "split_ws (x # xs) cur =
     (if ws_len ws_seqs (x # xs) = 0 then split_ws xs (x # cur)
      else (if cur = [] then [] else [rev cur]) @
           split_ws (drop (ws_len ws_seqs (x # xs)) (x # xs)) [])"
  by pat_completeness auto
termination
  by (relation "measure (\<lambda>(s, cur). length s)") auto

definition split_whitespace :: "string \<Rightarrow> string list" where
  "split_whitespace s = split_ws s []"

subsection \<open>Numbers\<close>

definition is_ascii_digit :: "char \<Rightarrow> bool" where
  "is_ascii_digit c = (48 \<le> (of_char c :: nat) \<and> (of_char c :: nat) \<le> 57)"

fun digits_value :: "nat \<Rightarrow> string \<Rightarrow> nat option" where
  "digits_value acc [] = Some acc"
| "digits_value acc (c # cs) =
     (if is_ascii_digit c then digits_value (10 * acc + (of_char c - 48)) cs else None)"

text \<open>\<open>str::parse\<close> for an unsigned type of the given width: an optional \<open>+\<close>, digits, no overflow.\<close>

definition parse_unsigned :: "nat \<Rightarrow> string \<Rightarrow> nat option" where
  "parse_unsigned width s =
     (let d = (case s of c # cs \<Rightarrow> if c = CHR ''+'' then cs else s | [] \<Rightarrow> []) in
      if d = [] then None
      else case digits_value 0 d of None \<Rightarrow> None
           | Some n \<Rightarrow> if n < 2 ^ width then Some n else None)"

definition digit_char :: "nat \<Rightarrow> char" where
  "digit_char d = (if d < 10 then char_of (48 + d) else char_of (87 + d))"

fun show_base :: "nat \<Rightarrow> nat \<Rightarrow> string" where
  "show_base b n =
     (if n < b \<or> b < 2 then [digit_char n] else show_base b (n div b) @ [digit_char (n mod b)])"

declare show_base.simps [simp del]

definition show_nat :: "nat \<Rightarrow> string" where
  "show_nat n = show_base 10 n"

definition pad_left :: "nat \<Rightarrow> char \<Rightarrow> string \<Rightarrow> string" where
  "pad_left w c s = replicate (w - length s) c @ s"

text \<open>\<open>format!("{:016x}", n)\<close>\<close>

definition hex016 :: "nat \<Rightarrow> string" where
  "hex016 n = pad_left 16 (CHR ''0'') (show_base 16 n)"

subsection \<open>Lemmas: characters, bytes and UTF-8\<close>

lemma unat_byte_of_char: "unat (byte_of_char c) = of_char c"
  by (simp add: byte_of_char_def unat_of_nat)

lemma char_of_byte_of_char [simp]: "char_of_byte (byte_of_char c) = c"
  by (simp add: char_of_byte_def unat_byte_of_char)

lemma byte_of_char_of_byte [simp]: "byte_of_char (char_of_byte b) = b"
proof -
  have "unat (byte_of_char (char_of_byte b)) = unat b mod 256"
    by (simp add: unat_byte_of_char char_of_byte_def of_char_of)
  also have "\<dots> = unat b"
    using unat_byte_lt [of b] by simp
  finally show ?thesis by (simp only: unsigned_word_eqI)
qed

lemma str_of_bytes_as_bytes [simp, str_simps]: "str_of_bytes (as_bytes s) = s"
  by (simp add: str_of_bytes_def as_bytes_def comp_def)

lemma as_bytes_str_of_bytes [simp, str_simps]: "as_bytes (str_of_bytes bs) = bs"
  by (simp add: str_of_bytes_def as_bytes_def comp_def)

lemma length_as_bytes [simp, wire_simps]: "length (as_bytes s) = length s"
  by (simp add: as_bytes_def)

lemma as_bytes_append [simp]: "as_bytes (s @ t) = as_bytes s @ as_bytes t"
  by (simp add: as_bytes_def)

lemma as_bytes_Nil_iff [simp]: "as_bytes s = [] \<longleftrightarrow> s = []"
  by (simp add: as_bytes_def)

lemma as_bytes_inject [simp]: "as_bytes s = as_bytes t \<longleftrightarrow> s = t"
  by (metis str_of_bytes_as_bytes)

lemma str_of_bytes_Nil [simp]: "str_of_bytes [] = []"
  by (simp add: str_of_bytes_def)

lemma str_of_bytes_append: "str_of_bytes (xs @ ys) = str_of_bytes xs @ str_of_bytes ys"
  by (simp add: str_of_bytes_def)

lemma from_utf8_lossy_Nil [simp]: "from_utf8_lossy [] = []"
  by (simp add: from_utf8_lossy.simps)

lemma utf8_ok_Nil [simp]: "utf8_ok []"
  by (simp add: utf8_ok.simps)

text \<open>Decoding well-formed UTF-8 loses nothing.\<close>

lemma from_utf8_lossy_ok: "utf8_ok bs \<Longrightarrow> from_utf8_lossy bs = str_of_bytes bs"
proof (induction bs rule: utf8_ok.induct)
  case (1 bs)
  show ?case
  proof (cases "bs = []")
    case True
    then show ?thesis by simp
  next
    case False
    let ?n = "fst (utf8_chunk bs)"
    from 1 False have "snd (utf8_chunk bs)" and "from_utf8_lossy (drop ?n bs) = str_of_bytes (drop ?n bs)"
      by (simp_all add: utf8_ok.simps [of bs])
    with False have "from_utf8_lossy bs = str_of_bytes (take ?n bs) @ str_of_bytes (drop ?n bs)"
      by (simp add: from_utf8_lossy.simps [of bs] split_beta)
    then show ?thesis
      by (simp flip: str_of_bytes_append)
  qed
qed

lemma utf8_chunk_ascii: "b < 0x80 \<Longrightarrow> utf8_chunk (b # bs) = (1, True)"
  by (simp add: utf8_chunk_def byte_at_def)

lemma utf8_ok_ascii_Cons: "b < 0x80 \<Longrightarrow> utf8_ok (b # bs) = utf8_ok bs"
  by (subst utf8_ok.simps) (simp add: utf8_chunk_ascii)

lemma utf8_ok_ascii: "\<forall>b \<in> set bs. b < 0x80 \<Longrightarrow> utf8_ok bs"
  by (induction bs) (simp_all add: utf8_ok_ascii_Cons)

lemma from_utf8_lossy_as_bytes [str_simps]:
  "utf8_ok (as_bytes s) \<Longrightarrow> from_utf8_lossy (as_bytes s) = s"
  by (simp add: from_utf8_lossy_ok)

subsection \<open>Lemmas: splitting\<close>

lemma starts_with_append [simp]: "starts_with p (p @ s)"
  by (simp add: starts_with_def)

lemma starts_with_iff: "starts_with p s \<longleftrightarrow> (\<exists>t. s = p @ t)"
  by (metis append_eq_conv_conj starts_with_def)

lemma strip_prefix_append [simp]: "strip_prefix p (p @ s) = Some s"
  by (simp add: strip_prefix_def)

lemma strip_prefix_iff: "strip_prefix p s = Some r \<longleftrightarrow> s = p @ r"
  by (auto simp: strip_prefix_def starts_with_def) (metis append_take_drop_id)

lemma split_on_ne [simp]: "split_on c s \<noteq> []"
  by (cases s) (auto split: list.splits)

lemma split_on_no_sep: "w \<in> set (split_on c s) \<Longrightarrow> c \<notin> set w"
  by (induction s arbitrary: w) (auto split: list.splits if_splits)

lemma split_on_plain: "c \<notin> set s \<Longrightarrow> split_on c s = [s]"
  by (induction s) auto

lemma split_on_append_sep: "c \<notin> set w \<Longrightarrow> split_on c (w @ c # s) = w # split_on c s"
  by (induction w) auto

text \<open>Joining with a separator and splitting at it are inverse.\<close>

lemma split_on_join:
  "ws \<noteq> [] \<Longrightarrow> \<forall>w \<in> set ws. c \<notin> set w \<Longrightarrow> split_on c (join_with [c] ws) = ws"
  by (induction "[c]" ws rule: join_with.induct) (auto simp: split_on_plain split_on_append_sep)

lemma join_split_on: "join_with [c] (split_on c s) = s"
proof (induction s)
  case Nil
  then show ?case by simp
next
  case (Cons x xs)
  obtain w ws where split: "split_on c xs = w # ws"
    by (meson list.exhaust split_on_ne)
  with Cons.IH show ?case
    by (cases ws) auto
qed

lemma rsplit_once_Some:
  assumes "rsplit_once c s = Some (a, b)"
  shows "s = a @ c # b \<and> c \<notin> set b"
proof -
  from assms obtain r where d: "dropWhile (\<lambda>x. x \<noteq> c) (rev s) = c # r" and a: "a = rev r"
      and b: "b = rev (takeWhile (\<lambda>x. x \<noteq> c) (rev s))"
    by (auto simp: rsplit_once_def split_once_def dropWhile_eq_Cons_conv split: list.splits)
  have "rev s = takeWhile (\<lambda>x. x \<noteq> c) (rev s) @ c # r"
    using takeWhile_dropWhile_id [of "\<lambda>x. x \<noteq> c" "rev s"] d by simp
  then have "rev (rev s) = rev (takeWhile (\<lambda>x. x \<noteq> c) (rev s) @ c # r)"
    by (rule arg_cong)
  then have "s = a @ c # b"
    by (simp add: a b)
  moreover have "c \<notin> set b"
    using set_takeWhileD by (fastforce simp: b)
  ultimately show ?thesis by simp
qed

lemma takeWhile_before: "c \<notin> set b \<Longrightarrow> takeWhile (\<lambda>x. x \<noteq> c) (b @ c # a) = b"
  by (induction b) auto

lemma dropWhile_before: "c \<notin> set b \<Longrightarrow> dropWhile (\<lambda>x. x \<noteq> c) (b @ c # a) = c # a"
  by (induction b) auto

lemma rsplit_once_append: "c \<notin> set b \<Longrightarrow> rsplit_once c (a @ c # b) = Some (a, b)"
  by (simp add: rsplit_once_def split_once_def takeWhile_before dropWhile_before)

lemma last_segment_append: "c \<notin> set b \<Longrightarrow> last_segment c (a @ c # b) = b"
  by (simp add: last_segment_def takeWhile_before)

lemma trim_end_char_id: "s \<noteq> [] \<Longrightarrow> last s \<noteq> c \<Longrightarrow> trim_end_char c s = s"
  by (cases s rule: rev_cases) (auto simp: trim_end_char_def)

lemma trim_start_char_id: "s \<noteq> [] \<Longrightarrow> hd s \<noteq> c \<Longrightarrow> trim_start_char c s = s"
  by (cases s) (auto simp: trim_start_char_def)

lemma join_with_merge: "join_with sep ((a @ sep @ b) # cs) = join_with sep (a # b # cs)"
  by (cases cs) simp_all

subsection \<open>Lemmas: numbers\<close>

text \<open>The value of a string of digits in base \<open>b\<close>, used to read back what was printed.\<close>

definition digit_of :: "char \<Rightarrow> nat" where
  "digit_of c = (if (of_char c :: nat) < 58 then of_char c - 48 else of_char c - 87)"

definition base_value :: "nat \<Rightarrow> string \<Rightarrow> nat" where
  "base_value b s = foldl (\<lambda>a c. a * b + digit_of c) 0 s"

lemma digit_of_digit_char: "d < 16 \<Longrightarrow> digit_of (digit_char d) = d"
  by (simp add: digit_of_def digit_char_def of_char_of)

lemma base_value_show_base:
  "2 \<le> b \<Longrightarrow> b \<le> 16 \<Longrightarrow> base_value b (show_base b n) = n"
proof (induction b n rule: show_base.induct)
  case (1 b n)
  show ?case
  proof (cases "n < b")
    case True
    with "1.prems" show ?thesis
      by (subst show_base.simps) (simp add: base_value_def digit_of_digit_char)
  next
    case False
    have "n mod b < 16"
      using "1.prems" mod_less_divisor [of b n] by linarith
    with False "1.prems" "1.IH" show ?thesis
      by (subst show_base.simps) (simp add: base_value_def digit_of_digit_char)
  qed
qed

lemma base_value_pad: "base_value b (replicate k (CHR ''0'') @ s) = base_value b s"
  by (induction k) (simp_all add: base_value_def digit_of_def)

lemma base_value_hex016: "base_value 16 (hex016 n) = n"
  by (simp add: hex016_def pad_left_def base_value_pad base_value_show_base)

lemma hex016_inject: "hex016 m = hex016 n \<longleftrightarrow> m = n"
  by (metis base_value_hex016)

lemma digits_value_append:
  "digits_value acc (s @ t) =
     (case digits_value acc s of None \<Rightarrow> None | Some a \<Rightarrow> digits_value a t)"
  by (induction acc s rule: digits_value.induct) simp_all

lemma is_ascii_digit_char: "d < 10 \<Longrightarrow> is_ascii_digit (digit_char d)"
  by (simp add: is_ascii_digit_def digit_char_def of_char_of)

lemma digits_value_show_nat: "digits_value 0 (show_base 10 n) = Some n"
proof (induction "10 :: nat" n rule: show_base.induct)
  case (1 n)
  have d: "of_char (digit_char d) - 48 = d" if "d < 10" for d
    using that by (simp add: digit_char_def of_char_of)
  show ?case
  proof (cases "n < 10")
    case True
    then show ?thesis
      by (subst show_base.simps) (simp add: is_ascii_digit_char d)
  next
    case False
    then show ?thesis
      using "1.hyps" by (subst show_base.simps) (simp add: digits_value_append is_ascii_digit_char d)
  qed
qed

lemma show_base_digits: "c \<in> set (show_base 10 n) \<Longrightarrow> is_ascii_digit c"
proof (induction "10 :: nat" n rule: show_base.induct)
  case (1 n)
  then show ?case
    by (subst (asm) (2) show_base.simps) (auto simp: is_ascii_digit_char split: if_splits)
qed

lemma show_base_not_Nil: "show_base b n \<noteq> []"
  by (subst show_base.simps) simp

text \<open>Printing a number and parsing it give the number back, at every width it fits.\<close>

lemma parse_show_nat: "n < 2 ^ w \<Longrightarrow> parse_unsigned w (show_nat n) = Some n"
proof -
  have "hd (show_base 10 n) \<noteq> CHR ''+''"
  proof -
    have "is_ascii_digit (hd (show_base 10 n))"
      using show_base_not_Nil [of 10 n] by (intro show_base_digits [of _ n]) simp
    then show ?thesis by (auto simp: is_ascii_digit_def)
  qed
  then have "(case show_base 10 n of c # cs \<Rightarrow> if c = CHR ''+'' then cs else show_base 10 n | [] \<Rightarrow> []) =
      show_base 10 n"
    using show_base_not_Nil [of 10 n] by (cases "show_base 10 n") auto
  moreover assume "n < 2 ^ w"
  ultimately show ?thesis
    using show_base_not_Nil [of 10 n]
    by (simp add: parse_unsigned_def show_nat_def digits_value_show_nat Let_def)
qed

subsection \<open>Lemmas: words and lines\<close>

definition is_graphic :: "char \<Rightarrow> bool" where
  "is_graphic c = (33 \<le> (of_char c :: nat) \<and> (of_char c :: nat) \<le> 126)"

lemma ws_heads:
  "list_all (\<lambda>w. w \<noteq> [] \<and> \<not> is_graphic (hd w)) ws_seqs"
  "list_all (\<lambda>w. w \<noteq> [] \<and> \<not> is_graphic (hd w)) (map rev ws_seqs)"
  by (simp_all add: ws_seqs_def is_graphic_def)

lemma ws_len_heads:
  assumes "list_all (\<lambda>w. w \<noteq> [] \<and> \<not> is_graphic (hd w)) seqs" and "is_graphic c"
  shows "ws_len seqs (c # s) = 0"
proof -
  have "\<not> starts_with w (c # s)" if "w \<in> set seqs" for w
    using assms that by (cases w) (auto simp: list_all_iff starts_with_def)
  then have "find (\<lambda>w. w \<noteq> [] \<and> starts_with w (c # s)) seqs = None"
    by (auto simp: find_None_iff)
  then show ?thesis
    by (simp add: ws_len_def)
qed

lemmas ws_len_graphic = ws_len_heads [OF ws_heads(1)]
lemmas ws_len_rev_graphic = ws_len_heads [OF ws_heads(2)]

lemma ws_len_space: "ws_len ws_seqs (CHR '' '' # s) = 1"
proof -
  have seqs: "list_all (\<lambda>w. w = '' '' \<or> hd w \<noteq> CHR '' '') ws_seqs" "list_ex (\<lambda>w. w = '' '') ws_seqs"
    by (simp_all add: ws_seqs_def char_of_def bit_0)
  have "w = '' ''" if "w \<in> set ws_seqs" "w \<noteq> []" "starts_with w (CHR '' '' # s)" for w
    using seqs(1) that by (cases w) (auto simp: list_all_iff starts_with_def)
  moreover have "find (\<lambda>w. w \<noteq> [] \<and> starts_with w (CHR '' '' # s)) ws_seqs \<noteq> None"
  proof -
    have "'' '' \<in> set ws_seqs"
      using seqs(2) by (auto simp: list_ex_iff)
    moreover have "starts_with '' '' (CHR '' '' # s)"
      by (simp add: starts_with_def)
    ultimately show ?thesis
      by (auto simp: find_None_iff)
  qed
  moreover obtain w where w: "find (\<lambda>w. w \<noteq> [] \<and> starts_with w (CHR '' '' # s)) ws_seqs = Some w"
    using calculation(2) by blast
  ultimately have "w = '' ''"
    using find_SomeD [OF w] by simp
  with w show ?thesis
    by (simp add: ws_len_def)
qed

lemma trim_graphic:
  assumes "s \<noteq> []" and "is_graphic (hd s)" and "is_graphic (last s)"
  shows "trim s = s"
proof -
  from assms(1,2) have "trim_start s = s"
    by (cases s) (simp_all add: trim_start_def trim_seqs.simps ws_len_graphic)
  moreover have "trim_end s = s"
    using assms(1,3) by (cases s rule: rev_cases) (simp_all add: trim_end_def trim_seqs.simps ws_len_rev_graphic)
  ultimately show ?thesis
    by (simp add: trim_def)
qed

lemma split_ws_word: "\<forall>c \<in> set w. is_graphic c \<Longrightarrow> split_ws (w @ s) cur = split_ws s (rev w @ cur)"
  by (induction w arbitrary: cur) (simp_all add: ws_len_graphic)

lemma split_whitespace_word:
  "w \<noteq> [] \<Longrightarrow> \<forall>c \<in> set w. is_graphic c \<Longrightarrow>
    split_whitespace (w @ '' '' @ s) = w # split_whitespace s"
  by (simp add: split_whitespace_def split_ws_word ws_len_space)

lemma split_on_lines:
  "\<forall>l \<in> set ls. c \<notin> set l \<Longrightarrow> split_on c (concat (map (\<lambda>l. l @ [c]) ls)) = ls @ [[]]"
  by (induction ls) (simp_all add: split_on_append_sep)

lemma str_lines_concat:
  assumes "\<forall>l \<in> set ls. CHR 0x0A \<notin> set l \<and> \<not> ends_with_char (CHR 0x0D) l"
  shows "str_lines (concat (map (\<lambda>l. l @ [CHR 0x0A]) ls)) = ls"
proof -
  have "split_on (CHR 0x0A) (concat (map (\<lambda>l. l @ [CHR 0x0A]) ls)) = ls @ [[]]"
    using assms by (intro split_on_lines) blast
  then show ?thesis
    using assms by (simp add: str_lines_def strip_cr_def map_idI)
qed

end
