(* ===== verification/Router.thy ===== *)
theory Router
  imports Rust_Strings
begin

text \<open>
  The filesystem operations (\<open>src/src/fsop.rs\<close>) and the path router
  (\<open>src/src/router.rs\<close>), with the route table that \<open>main\<close> builds from the registrations
  of the Lua script (\<open>src/src/main.rs\<close>, step 3).

  The path trie is the third-party crate \<open>matchit\<close>. It is a parameter \<open>at\<close>: for a path it
  gives either the display text of its error or the value stored with the matching
  pattern and the captured parameters. The handler side (worker pool and Lua) is a
  parameter \<open>call\<close> with the three outcomes \<open>dispatch\<close> distinguishes.
\<close>

named_theorems route_simps \<open>equations of the dispatch branches\<close>

subsection \<open>Filesystem operations\<close>

datatype fs_operation =
    Lookup | GetAttr | SetAttr | ReadDir | MkDir | RmDir | OpenDir
  | Open | Create | Read | Write | Release | Rename | Unlink

fun as_str :: "fs_operation \<Rightarrow> string" where
  "as_str Lookup = ''lookup''"
| "as_str GetAttr = ''getattr''"
| "as_str SetAttr = ''setattr''"
| "as_str ReadDir = ''readdir''"
| "as_str MkDir = ''mkdir''"
| "as_str RmDir = ''rmdir''"
| "as_str OpenDir = ''opendir''"
| "as_str Open = ''open''"
| "as_str Create = ''create''"
| "as_str Read = ''read''"
| "as_str Write = ''write''"
| "as_str Release = ''release''"
| "as_str Rename = ''rename''"
| "as_str Unlink = ''unlink''"

subsection \<open>Types of the router\<close>

record route_meta =
  rm_handlers :: "string \<rightharpoonup> string"
  rm_pattern :: string

record request =
  rq_op :: fs_operation
  rq_path :: string
  rq_data :: bytes

record handler_request =
  hr_params :: "string \<rightharpoonup> string"
  hr_data :: bytes
  hr_handler_name :: string

record handler_response =
  resp_data :: bytes
  resp_matched_pattern :: "string option"
  resp_has_children :: bool

type_synonym trie_at = "string \<Rightarrow> string + (route_meta \<times> (string \<times> string) list)"

text \<open>
  What the handler side does with a request: the channel to the worker pool is closed, the
  reply channel is dropped without an answer, or an answer (\<open>Result<HandlerResponse, String>\<close>).
\<close>

datatype handler_outcome =
    HandlerTaskGone
  | ReplyDropped
  | HandlerReply "string + handler_response"

text \<open>
  What a frontend sees of a request it sends to the router: its send fails, the reply
  channel is dropped, or a reply.
\<close>

datatype router_result =
    RouterGone
  | HandlerGone
  | Replied "string + handler_response"

subsection \<open>Dispatch\<close>

definition is_directory_op_blocked :: "fs_operation \<Rightarrow> bool" where
  "is_directory_op_blocked op = (op \<in> {Open, Read, Write, Release})"

definition has_children :: "trie_at \<Rightarrow> string \<Rightarrow> string \<Rightarrow> bool" where
  "has_children at path pattern =
     (case at (path @ ''/x'') of
        Inr (m, _) \<Rightarrow> rm_pattern m \<noteq> pattern \<and> CHR ''*'' \<notin> set (rm_pattern m)
      | Inl _ \<Rightarrow> False)"

definition select_handler :: "route_meta \<Rightarrow> fs_operation \<Rightarrow> string option" where
  "select_handler meta op =
     (case rm_handlers meta (as_str op) of
        Some n \<Rightarrow> Some n
      | None \<Rightarrow> rm_handlers meta ''*'')"

text \<open>
  The handler side (worker pool and scripts) is a parameter \<open>call\<close> with a state of its own.
  The result: what is sent on \<open>req.reply\<close> (\<open>None\<close>: the sender is dropped unused), the
  \<open>Result\<close> that \<open>run_router\<close> logs, and the handler side afterwards.
\<close>

type_synonym 'w handler_side = "'w \<Rightarrow> handler_request \<Rightarrow> handler_outcome \<times> 'w"

definition dispatch ::
    "trie_at \<Rightarrow> 'w handler_side \<Rightarrow> 'w \<Rightarrow> request
      \<Rightarrow> (string + handler_response) option \<times> (string + unit) \<times> 'w" where
  "dispatch at call w req =
     (let op = rq_op req; path = rq_path req in
      case at path of
        Inl e \<Rightarrow> (Some (Inl (''no route matches `'' @ path @ ''`: '' @ e)), Inr (), w)
      | Inr (meta, params) \<Rightarrow>
          (let pattern = rm_pattern meta; kids = has_children at path pattern in
           case select_handler meta op of
             None \<Rightarrow>
               (Some (Inl (''route `'' @ path @ ''` exists but no handler for op `'' @ as_str op @
                  ''` and no wildcard'')), Inr (), w)
           | Some name \<Rightarrow>
               if kids \<and> is_directory_op_blocked op
               then (Some (Inl (''is a directory: `'' @ path @ ''`'')), Inr (), w)
               else
                 (case call w \<lparr>hr_params = map_of (rev params), hr_data = rq_data req,
                               hr_handler_name = name\<rparr> of
                    (HandlerTaskGone, w') \<Rightarrow> (None, Inl ''handler task is gone'', w')
                  | (HandlerReply (Inr resp), w') \<Rightarrow>
                      (Some (Inr (resp\<lparr>resp_matched_pattern := Some pattern,
                                       resp_has_children := kids\<rparr>)), Inr (), w')
                  | (HandlerReply (Inl e), w') \<Rightarrow> (Some (Inl e), Inr (), w')
                  | (ReplyDropped, w') \<Rightarrow>
                      (Some (Inl ''handler did not respond''),
                       Inl ''handler reply channel closed'', w'))))"

text \<open>What a frontend sees of one exchange with a live router task.\<close>

definition route_request ::
    "trie_at \<Rightarrow> 'w handler_side \<Rightarrow> 'w \<Rightarrow> fs_operation \<Rightarrow> string \<Rightarrow> bytes \<Rightarrow> router_result \<times> 'w" where
  "route_request at call w op path data =
     (case dispatch at call w \<lparr>rq_op = op, rq_path = path, rq_data = data\<rparr> of
        (None, _, w') \<Rightarrow> (HandlerGone, w')
      | (Some r, _, w') \<Rightarrow> (Replied r, w'))"

text \<open>
  The router task: one request at a time, in the order of the channel, until it is closed.
  The result lists the replies in order.
\<close>

fun run_router ::
    "trie_at \<Rightarrow> 'w handler_side \<Rightarrow> 'w \<Rightarrow> request list \<Rightarrow> (string + handler_response) option list \<times> 'w"
  where
  "run_router at call w [] = ([], w)"
| "run_router at call w (req # reqs) =
     (let (reply, result, w') = dispatch at call w req;
          (replies, w'') = run_router at call w' reqs in
      (reply # replies, w''))"

subsection \<open>Building the route table\<close>

record route_registration =
  rr_pattern :: string
  rr_handler_name :: string
  rr_ops :: "string list"

definition register_ops ::
    "route_registration \<Rightarrow> (string \<rightharpoonup> string) \<Rightarrow> (string \<rightharpoonup> string)" where
  "register_ops r handlers =
     (if rr_ops r = [] then handlers(''*'' \<mapsto> rr_handler_name r)
      else fold (\<lambda>op h. h(op \<mapsto> rr_handler_name r)) (rr_ops r) handlers)"

text \<open>The loop of \<open>main\<close> over the registrations, on the map from patterns to route metas.\<close>

fun merge_routes ::
    "(string \<rightharpoonup> route_meta) \<Rightarrow> route_registration list \<Rightarrow> (string \<rightharpoonup> route_meta)" where
  "merge_routes pm [] = pm"
| "merge_routes pm (r # rs) =
     (let meta = (case pm (rr_pattern r) of
                    Some m \<Rightarrow> m
                  | None \<Rightarrow> \<lparr>rm_handlers = Map.empty, rm_pattern = rr_pattern r\<rparr>) in
      merge_routes
        (pm(rr_pattern r \<mapsto> meta\<lparr>rm_handlers := register_ops r (rm_handlers meta)\<rparr>)) rs)"

definition pattern_map :: "route_registration list \<Rightarrow> (string \<rightharpoonup> route_meta)" where
  "pattern_map rs = merge_routes Map.empty rs"

text \<open>
  What the registrations promise: the handler of an operation is the one of the last
  registration that names the pattern and the operation; \<open>*\<close> collects the registrations
  without operations.
\<close>

definition claims_op :: "route_registration \<Rightarrow> string \<Rightarrow> bool" where
  "claims_op r op = (if rr_ops r = [] then op = ''*'' else op \<in> set (rr_ops r))"

definition last_claim :: "route_registration list \<Rightarrow> string \<Rightarrow> string \<Rightarrow> string option" where
  "last_claim rs pat op =
     map_option rr_handler_name
       (find (\<lambda>r. rr_pattern r = pat \<and> claims_op r op) (rev rs))"

subsection \<open>Lemmas on the route table\<close>

lemma as_str_inject: "as_str a = as_str b \<longleftrightarrow> a = b"
  by (cases a; cases b) simp_all

lemma as_str_not_wildcard: "as_str op \<noteq> ''*''"
  by (cases op) simp_all

lemma fold_upd_same:
  "fold (\<lambda>op h. h(op \<mapsto> n)) ops h op = (if op \<in> set ops then Some n else h op)"
  by (induction ops arbitrary: h) auto

lemma register_ops_at:
  "register_ops r h op = (if claims_op r op then Some (rr_handler_name r) else h op)"
  by (simp add: register_ops_def claims_op_def fold_upd_same)

lemma last_claim_snoc:
  "last_claim (rs @ [r]) pat op =
     (if rr_pattern r = pat \<and> claims_op r op then Some (rr_handler_name r)
      else last_claim rs pat op)"
  by (simp add: last_claim_def)

lemma merge_routes_append: "merge_routes pm (rs @ rs') = merge_routes (merge_routes pm rs) rs'"
  by (induction rs arbitrary: pm) (simp_all add: Let_def)

lemma pattern_map_snoc:
  "pattern_map (rs @ [r]) =
     (let meta = (case pattern_map rs (rr_pattern r) of
                    Some m \<Rightarrow> m
                  | None \<Rightarrow> \<lparr>rm_handlers = Map.empty, rm_pattern = rr_pattern r\<rparr>) in
      (pattern_map rs)(rr_pattern r \<mapsto> meta\<lparr>rm_handlers := register_ops r (rm_handlers meta)\<rparr>))"
  by (simp add: pattern_map_def merge_routes_append Let_def)

lemma last_claim_unregistered:
  "pat \<notin> rr_pattern ` set rs \<Longrightarrow> last_claim rs pat op = None"
  by (auto simp: last_claim_def find_None_iff)

lemma pattern_map_spec:
  "case pattern_map rs pat of
     None \<Rightarrow> pat \<notin> rr_pattern ` set rs
   | Some m \<Rightarrow> pat \<in> rr_pattern ` set rs \<and> rm_pattern m = pat \<and> rm_handlers m = last_claim rs pat"
proof (induction rs rule: rev_induct)
  case Nil
  then show ?case by (simp add: pattern_map_def)
next
  case (snoc r rs)
  show ?case
  proof (cases "rr_pattern r = pat")
    case False
    with snoc show ?thesis
      by (auto simp: pattern_map_snoc Let_def last_claim_snoc fun_eq_iff split: option.splits)
  next
    case True
    with snoc show ?thesis
      by (auto simp: pattern_map_snoc Let_def last_claim_snoc register_ops_at fun_eq_iff
          last_claim_unregistered split: option.splits)
  qed
qed

lemma select_handler_table:
  assumes "pattern_map rs pat = Some m"
  shows "select_handler m op =
    (case last_claim rs pat (as_str op) of Some n \<Rightarrow> Some n | None \<Rightarrow> last_claim rs pat ''*'')"
  using pattern_map_spec [of pat rs] assms
  by (auto simp: select_handler_def split: option.splits)

subsection \<open>Lemmas on dispatch\<close>

text \<open>The request that a dispatch hands to the handler side, if it hands over one.\<close>

definition forwarded :: "trie_at \<Rightarrow> request \<Rightarrow> (route_meta \<times> handler_request) option" where
  "forwarded at req =
     (case at (rq_path req) of
        Inl _ \<Rightarrow> None
      | Inr (meta, params) \<Rightarrow>
          (case select_handler meta (rq_op req) of
             None \<Rightarrow> None
           | Some name \<Rightarrow>
               if has_children at (rq_path req) (rm_pattern meta) \<and> is_directory_op_blocked (rq_op req)
               then None
               else Some (meta, \<lparr>hr_params = map_of (rev params), hr_data = rq_data req,
                                 hr_handler_name = name\<rparr>)))"

lemma dispatch_rejected:
  "forwarded at req = None \<Longrightarrow> \<exists>e. dispatch at call w req = (Some (Inl e), Inr (), w)"
  by (auto simp: dispatch_def forwarded_def Let_def split: sum.splits option.splits if_splits)

lemma dispatch_forwarded:
  "forwarded at req = Some (meta, h) \<Longrightarrow>
    dispatch at call w req =
      (case call w h of
         (HandlerTaskGone, w') \<Rightarrow> (None, Inl ''handler task is gone'', w')
       | (HandlerReply (Inr resp), w') \<Rightarrow>
           (Some (Inr (resp\<lparr>resp_matched_pattern := Some (rm_pattern meta),
              resp_has_children := has_children at (rq_path req) (rm_pattern meta)\<rparr>)), Inr (), w')
       | (HandlerReply (Inl e), w') \<Rightarrow> (Some (Inl e), Inr (), w')
       | (ReplyDropped, w') \<Rightarrow>
           (Some (Inl ''handler did not respond''), Inl ''handler reply channel closed'', w'))"
  by (auto simp: dispatch_def forwarded_def Let_def split: sum.splits option.splits if_splits)

lemma run_router_append:
  "run_router at call w (xs @ ys) =
     (let (r1, w1) = run_router at call w xs; (r2, w2) = run_router at call w1 ys in (r1 @ r2, w2))"
  by (induction xs arbitrary: w) (auto simp: Let_def split: prod.splits)

definition logged :: "(handler_request list \<Rightarrow> handler_request \<Rightarrow> handler_outcome) \<Rightarrow> handler_request list handler_side"
  where
  "logged f calls h = (f calls h, calls @ [h])"

lemma run_router_logged:
  "run_router at (logged f) calls reqs = (replies, calls') \<Longrightarrow>
    calls' = calls @ map snd (List.map_filter (forwarded at) reqs) \<and> length replies = length reqs"
proof (induction reqs arbitrary: calls replies calls')
  case Nil
  then show ?case by (simp add: map_filter_def)
next
  case (Cons req reqs)
  obtain reply res w1 where d: "dispatch at (logged f) calls req = (reply, res, w1)"
    by (cases "dispatch at (logged f) calls req") auto
  obtain rs w2 where r: "run_router at (logged f) w1 reqs = (rs, w2)"
    by (cases "run_router at (logged f) w1 reqs")
  have w1: "w1 = calls @ map snd (List.map_filter (forwarded at) [req])"
  proof (cases "forwarded at req")
    case None
    then show ?thesis using dispatch_rejected [OF None, of "logged f" calls] d by (auto simp: map_filter_def)
  next
    case (Some mh)
    obtain meta h where "mh = (meta, h)" by (cases mh)
    with Some d show ?thesis
      by (auto simp: dispatch_forwarded logged_def map_filter_def split: handler_outcome.splits sum.splits)
  qed
  from Cons.IH [OF r] Cons.prems d r w1 show ?case
    by (auto simp: map_filter_def)
qed

subsection \<open>Properties\<close>

text \<open>
  C11: The route table. For every list of registrations, a pattern is in the table exactly
  when some registration names it; its entry carries the pattern itself, and the handler of
  an operation is the one of the last registration that claims that operation for that
  pattern (a registration without operations claims the wildcard).
\<close>

theorem route_table_last_registration_wins:
  "(pattern_map rs pat = None \<longleftrightarrow> pat \<notin> rr_pattern ` set rs) \<and>
   (\<forall>m. pattern_map rs pat = Some m \<longrightarrow>
      rm_pattern m = pat \<and>
      (\<forall>op. select_handler m op =
         (case last_claim rs pat (as_str op) of
            Some n \<Rightarrow> Some n | None \<Rightarrow> last_claim rs pat ''*'')))"
  using pattern_map_spec [of pat rs] by (auto simp: select_handler_table split: option.splits)

theorem route_table_last_registration_wins_witness:
  "(let rs = [\<lparr>rr_pattern = ''/a'', rr_handler_name = ''h1'', rr_ops = [''read'', ''write'']\<rparr>,
              \<lparr>rr_pattern = ''/a'', rr_handler_name = ''h2'', rr_ops = [''read'']\<rparr>,
              \<lparr>rr_pattern = ''/a'', rr_handler_name = ''h3'', rr_ops = []\<rparr>] in
    pattern_map rs ''/a'' \<noteq> None \<and>
    select_handler (the (pattern_map rs ''/a'')) Read = Some ''h2'' \<and>
    select_handler (the (pattern_map rs ''/a'')) Write = Some ''h1'' \<and>
    select_handler (the (pattern_map rs ''/a'')) Open = Some ''h3'')"
proof -
  let ?rs = "[\<lparr>rr_pattern = ''/a'', rr_handler_name = ''h1'', rr_ops = [''read'', ''write'']\<rparr>,
              \<lparr>rr_pattern = ''/a'', rr_handler_name = ''h2'', rr_ops = [''read'']\<rparr>,
              \<lparr>rr_pattern = ''/a'', rr_handler_name = ''h3'', rr_ops = []\<rparr>]"
  obtain m where m: "pattern_map ?rs ''/a'' = Some m"
    using route_table_last_registration_wins [of ?rs "''/a''"] by auto
  have "select_handler m op = (case last_claim ?rs ''/a'' (as_str op) of
      Some n \<Rightarrow> Some n | None \<Rightarrow> last_claim ?rs ''/a'' ''*'')" for op
    using route_table_last_registration_wins [of ?rs "''/a''"] m by blast
  then show ?thesis
    by (simp add: m last_claim_def claims_op_def)
qed



end
