(* ===== verification/Async.thy ===== *)
theory Async
  imports Router
begin

text \<open>
  The asynchronous handlers of the frontends as resumptions. A handler runs until it
  returns, fails with an error string (the \<open>Err\<close> of \<open>Result<(), String>\<close>) or panics; on the
  way it enters critical sections on the shared state, sends requests to the router and
  awaits the replies, and writes bytes to its stream. Between two such steps other tasks
  may run: every \<open>.await\<close> of the source is a constructor of the program, and everything
  between two awaits (a whole critical section of a mutex in particular) is one step.

  \<^item> \<open>run\<close> executes one task alone against a router that has a state of its own.
  \<^item> \<open>pool_step\<close> interleaves any number of tasks that share the state, with a router that
    may answer anything; \<open>pool_reach\<close> is the set of reachable configurations.
  \<^item> \<open>rg\<close> is a rely/guarantee condition of one task; the locale \<open>rely_guarantee\<close> derives
    from it that an invariant holds in every reachable configuration of every pool.
\<close>

named_theorems io_simps \<open>evaluation rules for programs\<close>

datatype ('s, 'a) io =
    Ret 'a
  | Fail string
  | Panic
  | Atom "'s \<Rightarrow> 's" "'s \<Rightarrow> ('s, 'a) io"
  | Call fs_operation string bytes "router_result \<Rightarrow> ('s, 'a) io"
  | Send bytes "('s, 'a) io"

datatype 'a outcome = Done 'a | Failed string | Panicked

subsection \<open>Building programs\<close>

text \<open>
  A critical section: \<open>f\<close> reads and updates the state while the lock is held, its result is
  available to the continuation.
\<close>

definition locked :: "('s \<Rightarrow> 'r \<times> 's) \<Rightarrow> ('r \<Rightarrow> ('s, 'a) io) \<Rightarrow> ('s, 'a) io" where
  "locked f k = Atom (\<lambda>s. snd (f s)) (\<lambda>s. k (fst (f s)))"

definition inspect :: "('s \<Rightarrow> 'r) \<Rightarrow> ('r \<Rightarrow> ('s, 'a) io) \<Rightarrow> ('s, 'a) io" where
  "inspect f k = Atom (\<lambda>s. s) (\<lambda>s. k (f s))"

text \<open>
  \<open>io_handle m ok bad\<close>: the \<open>match\<close> on the \<open>Result\<close> of an awaited handler. A panic is not
  caught; it ends the task.
\<close>

primrec io_handle ::
    "('s, 'a) io \<Rightarrow> ('a \<Rightarrow> ('s, 'b) io) \<Rightarrow> (string \<Rightarrow> ('s, 'b) io) \<Rightarrow> ('s, 'b) io" where
  "io_handle (Ret x) ok bad = ok x"
| "io_handle (Fail e) ok bad = bad e"
| "io_handle Panic ok bad = Panic"
| "io_handle (Atom u c) ok bad = Atom u (\<lambda>s. io_handle (c s) ok bad)"
| "io_handle (Call op p d c) ok bad = Call op p d (\<lambda>r. io_handle (c r) ok bad)"
| "io_handle (Send bs m) ok bad = Send bs (io_handle m ok bad)"

text \<open>
  The request/reply exchange that the 9P handlers repeat: send a request to the router,
  await the reply, turn the three failures into the error strings of the source.
\<close>

definition ask ::
    "fs_operation \<Rightarrow> string \<Rightarrow> bytes \<Rightarrow> string \<Rightarrow> (handler_response \<Rightarrow> ('s, 'a) io) \<Rightarrow> ('s, 'a) io"
  where
  "ask op path data what k =
     Call op path data (\<lambda>r. case r of
         RouterGone \<Rightarrow> Fail ''router gone''
       | HandlerGone \<Rightarrow> Fail ''handler gone''
       | Replied (Inl e) \<Rightarrow> Fail (what @ '' failed: '' @ e)
       | Replied (Inr resp) \<Rightarrow> k resp)"

subsection \<open>Running one task\<close>

type_synonym 'w router = "'w \<Rightarrow> fs_operation \<Rightarrow> string \<Rightarrow> bytes \<Rightarrow> router_result \<times> 'w"

text \<open>\<open>run rt m s w\<close>: the outcome, the bytes written in order, the final state, the final router.\<close>

primrec run ::
    "'w router \<Rightarrow> ('s, 'a) io \<Rightarrow> 's \<Rightarrow> 'w \<Rightarrow> 'a outcome \<times> bytes \<times> 's \<times> 'w" where
  "run rt (Ret x) s w = (Done x, [], s, w)"
| "run rt (Fail e) s w = (Failed e, [], s, w)"
| "run rt Panic s w = (Panicked, [], s, w)"
| "run rt (Atom u c) s w = run rt (c s) (u s) w"
| "run rt (Call op p d c) s w = run rt (c (fst (rt w op p d))) s (snd (rt w op p d))"
| "run rt (Send bs m) s w =
     (let (r, out, s', w') = run rt m s w in (r, bs @ out, s', w'))"

subsection \<open>Pools of tasks\<close>

text \<open>A configuration: the shared state and one program per task.\<close>

type_synonym ('s, 'a) pool = "'s \<times> ('s, 'a) io list"

text \<open>
  \<open>T\<close> is the set of programs a new task may start with (the accept loop spawns one per
  connection). The router may answer a call with any result.
\<close>

inductive pool_step :: "('s, 'a) io set \<Rightarrow> ('s, 'a) pool \<Rightarrow> ('s, 'a) pool \<Rightarrow> bool" for T where
  atom: "i < length ts \<Longrightarrow> ts ! i = Atom u c \<Longrightarrow> pool_step T (s, ts) (u s, ts[i := c s])"
| call: "i < length ts \<Longrightarrow> ts ! i = Call op p d c \<Longrightarrow> pool_step T (s, ts) (s, ts[i := c r])"
| send: "i < length ts \<Longrightarrow> ts ! i = Send bs m \<Longrightarrow> pool_step T (s, ts) (s, ts[i := m])"
| spawn: "m \<in> T \<Longrightarrow> pool_step T (s, ts) (s, ts @ [m])"

inductive pool_reach :: "('s, 'a) io set \<Rightarrow> ('s, 'a) pool \<Rightarrow> ('s, 'a) pool \<Rightarrow> bool" for T c0 where
  start: "pool_reach T c0 c0"
| step: "pool_reach T c0 c \<Longrightarrow> pool_step T c c' \<Longrightarrow> pool_reach T c0 c'"

subsection \<open>Rely/guarantee\<close>

text \<open>
  \<open>rg I R s m\<close>: from any state the environment can lead to from \<open>s\<close> (related by \<open>R\<close>,
  satisfying \<open>I\<close>), every critical section of \<open>m\<close> keeps \<open>I\<close> and is itself an \<open>R\<close>-step,
  whatever the router answers.
\<close>

primrec rg :: "('s \<Rightarrow> bool) \<Rightarrow> ('s \<Rightarrow> 's \<Rightarrow> bool) \<Rightarrow> 's \<Rightarrow> ('s, 'a) io \<Rightarrow> bool" where
  "rg I R s (Ret x) = True"
| "rg I R s (Fail e) = True"
| "rg I R s Panic = True"
| "rg I R s (Atom u c) = (\<forall>t. R s t \<longrightarrow> I t \<longrightarrow> I (u t) \<and> R t (u t) \<and> rg I R (u t) (c t))"
| "rg I R s (Call op p d c) = (\<forall>r. rg I R s (c r))"
| "rg I R s (Send bs m) = rg I R s m"

subsection \<open>Lemmas on programs\<close>

lemma run_locked [io_simps]: "run rt (locked f k) s w = run rt (k (fst (f s))) (snd (f s)) w"
  by (simp add: locked_def)

lemma run_inspect [io_simps]: "run rt (inspect f k) s w = run rt (k (f s)) s w"
  by (simp add: inspect_def)

lemma run_ask [io_simps]:
  "run rt (ask op p d what k) s w =
     (case rt w op p d of
        (RouterGone, w') \<Rightarrow> (Failed ''router gone'', [], s, w')
      | (HandlerGone, w') \<Rightarrow> (Failed ''handler gone'', [], s, w')
      | (Replied (Inl e), w') \<Rightarrow> (Failed (what @ '' failed: '' @ e), [], s, w')
      | (Replied (Inr resp), w') \<Rightarrow> run rt (k resp) s w')"
  by (simp add: ask_def split: router_result.splits sum.splits prod.splits)

lemma run_io_handle:
  "run rt (io_handle m ok bad) s w =
     (case run rt m s w of
        (Done x, out, s', w') \<Rightarrow> (let (r, out', s'', w'') = run rt (ok x) s' w' in (r, out @ out', s'', w''))
      | (Failed e, out, s', w') \<Rightarrow> (let (r, out', s'', w'') = run rt (bad e) s' w' in (r, out @ out', s'', w''))
      | (Panicked, out, s', w') \<Rightarrow> (Panicked, out, s', w'))"
proof (induction m arbitrary: s w)
  case (Send bs m)
  then show ?case
    by (auto simp: Let_def split: prod.splits outcome.splits)
qed (auto simp: Let_def split: prod.splits)

lemma rg_locked:
  "rg I R s (locked f k) \<longleftrightarrow>
     (\<forall>t. R s t \<longrightarrow> I t \<longrightarrow> I (snd (f t)) \<and> R t (snd (f t)) \<and> rg I R (snd (f t)) (k (fst (f t))))"
  by (simp add: locked_def)

lemma rg_ask: "(\<And>resp. rg I R s (k resp)) \<Longrightarrow> rg I R s (ask op p d what k)"
  by (simp add: ask_def split: router_result.splits sum.splits)

lemma rg_io_handle:
  assumes "rg I R s m"
    and "\<And>t x. rg I R t (ok x)" and "\<And>t e. rg I R t (bad e)"
  shows "rg I R s (io_handle m ok bad)"
  using assms(1)
proof (induction m arbitrary: s)
  case (Atom u c)
  then show ?case by simp
qed (simp_all add: assms)

subsection \<open>Invariants of pools\<close>

text \<open>
  The contract between the shared state of a server and its tasks: an invariant, and a
  preorder that says how the state may evolve. Every pool whose tasks keep it keeps the
  invariant, under every interleaving and every behaviour of the router.
\<close>

locale rely_guarantee =
  fixes I :: "'s \<Rightarrow> bool"
    and R :: "'s \<Rightarrow> 's \<Rightarrow> bool"
  assumes R_refl: "R s s"
    and R_trans: "R s t \<Longrightarrow> R t u \<Longrightarrow> R s u"
begin

lemma rg_mono: "R s t \<Longrightarrow> rg I R s m \<Longrightarrow> rg I R t m"
  by (induction m) (auto intro: R_trans)

lemma rg_inspect:
  "(\<And>t. R s t \<Longrightarrow> I t \<Longrightarrow> rg I R t (k (f t))) \<Longrightarrow> rg I R s (inspect f k)"
  by (auto simp: inspect_def R_refl)

lemma pool_step_keeps:
  assumes "pool_step T (s, ts) (s', ts')"
    and "I s" and "\<forall>m \<in> set ts. rg I R s m" and "\<forall>m \<in> T. \<forall>s. rg I R s m"
  shows "I s' \<and> R s s' \<and> (\<forall>m \<in> set ts'. rg I R s' m)"
  using assms(1)
proof (cases rule: pool_step.cases)
  case (atom i u c)
  then have "rg I R s (Atom u c)"
    using assms(3) by (metis nth_mem)
  with assms(2) have s': "I (u s)" "R s (u s)" "rg I R (u s) (c s)"
    by (simp_all add: R_refl)
  moreover have "\<forall>m \<in> set ts. rg I R (u s) m"
    using assms(3) s'(2) rg_mono by blast
  ultimately show ?thesis
    using atom set_update_subset_insert by fastforce
next
  case (call i op p d c r)
  then have "rg I R s (Call op p d c)"
    using assms(3) by (metis nth_mem)
  then show ?thesis
    using call assms(2,3) R_refl set_update_subset_insert by fastforce
next
  case (send i bs m)
  then have "rg I R s (Send bs m)"
    using assms(3) by (metis nth_mem)
  then show ?thesis
    using send assms(2,3) R_refl set_update_subset_insert by fastforce
next
  case (spawn m)
  then show ?thesis
    using assms R_refl by auto
qed

lemma pool_reach_keeps:
  assumes "pool_reach T (s, ts) c"
    and "I s" and "\<forall>m \<in> set ts. rg I R s m" and "\<forall>m \<in> T. \<forall>s. rg I R s m"
  shows "I (fst c) \<and> R s (fst c) \<and> (\<forall>m \<in> set (snd c). rg I R (fst c) m)"
  using assms(1)
proof (induction rule: pool_reach.induct)
  case start
  then show ?case using assms(2,3) by (simp add: R_refl)
next
  case (step c c')
  then have "I (fst c') \<and> R (fst c) (fst c') \<and> (\<forall>m \<in> set (snd c'). rg I R (fst c') m)"
    using pool_step_keeps [of T "fst c" "snd c" "fst c'" "snd c'"] assms(4) by simp
  with step.IH show ?case
    by (blast intro: R_trans)
qed

end

end
