(* ===== verification/Framing.thy ===== *)
theory Framing
  imports Prelude
begin

text \<open>
  Length-prefixed messages on a byte stream. Four protocols of the program frame their
  messages this way: 9P messages, the frames of the TCP multiplexer, and SFTP packets in
  both directions. The locale \<open>framing\<close> is the contract between an encoder and the reader
  on the other side; what follows from it once (a stream of frames is read back as sent,
  whatever the boundaries of the reads; an incomplete frame at the end is not delivered; two
  streams with the same bytes have the same messages) holds for each of them.
\<close>

text \<open>The loop that reads message after message until it cannot read another one.\<close>

function unframe :: "(bytes \<Rightarrow> ('m \<times> bytes) option) \<Rightarrow> bytes \<Rightarrow> 'm list" where
  "unframe dec bs =
     (case dec bs of
        None \<Rightarrow> []
      | Some (m, rest) \<Rightarrow> if length rest < length bs then m # unframe dec rest else [m])"
  by pat_completeness auto
termination
  by (relation "measure (\<lambda>(dec, bs). length bs)") auto

declare unframe.simps [simp del]

locale framing =
  fixes enc :: "'m \<Rightarrow> bytes"
    and dec :: "bytes \<Rightarrow> ('m \<times> bytes) option"
    and valid :: "'m \<Rightarrow> bool"
  assumes dec_enc: "valid m \<Longrightarrow> dec (enc m @ rest) = Some (m, rest)"
    and dec_Nil: "dec [] = None"
begin

lemma enc_not_Nil: "valid m \<Longrightarrow> enc m \<noteq> []"
  using dec_enc [of m "[]"] dec_Nil by auto

lemma enc_inject: "valid m \<Longrightarrow> valid m' \<Longrightarrow> enc m @ r = enc m' @ r' \<Longrightarrow> m = m' \<and> r = r'"
  by (metis dec_enc option.inject prod.inject)

lemma unframe_Cons:
  assumes "valid m"
  shows "unframe dec (enc m @ rest) = m # unframe dec rest"
proof -
  have "length rest < length (enc m @ rest)"
    using enc_not_Nil [OF assms] by simp
  then show ?thesis
    by (subst unframe.simps) (simp add: dec_enc [OF assms])
qed

lemma unframe_frames:
  "\<forall>m \<in> set ms. valid m \<Longrightarrow>
    unframe dec (concat (map enc ms) @ rest) = ms @ unframe dec rest"
  by (induction ms) (simp_all add: unframe_Cons)

lemma unframe_concat:
  "\<forall>m \<in> set ms. valid m \<Longrightarrow> dec rest = None \<Longrightarrow> unframe dec (concat (map enc ms) @ rest) = ms"
  by (simp add: unframe_frames unframe.simps [of dec rest])

lemma frames_inject:
  assumes "\<forall>m \<in> set ms. valid m" and "\<forall>m \<in> set ms'. valid m"
    and "concat (map enc ms) = concat (map enc ms')"
  shows "ms = ms'"
  using unframe_concat [OF assms(1) dec_Nil] unframe_concat [OF assms(2) dec_Nil] assms(3) by simp

end

end
