(* ===== verification/Ninep_Server.thy ===== *)
theory Ninep_Server
  imports Async Framing
begin

text \<open>
  The 9P2000 server (\<open>src/src/frontend/ninep.rs\<close>): the wire encoding of qids and stats, the
  fid and qid tables, one handler per message type, the message dispatcher, the connection
  loop and the datagram entry point.

  The handlers are programs over the record \<open>shared\<close> (the source's \<open>Shared\<close>, with the
  fields of \<open>NinepState\<close> behind its mutex and \<open>msize\<close> behind its lock). The order in which
  Rust iterates a hash map and the seconds that \<open>SystemTime::now\<close> returns are not
  determined by the program: they are the two fields of the parameter \<open>env\<close>.
\<close>

unbundle bit_operations_syntax

named_theorems ninep_defs \<open>definitions of the message handlers\<close>

subsection \<open>Message types\<close>

abbreviation TVERSION :: u8 where "TVERSION \<equiv> 100"
abbreviation RVERSION :: u8 where "RVERSION \<equiv> 101"
abbreviation TATTACH :: u8 where "TATTACH \<equiv> 104"
abbreviation RATTACH :: u8 where "RATTACH \<equiv> 105"
abbreviation RERROR :: u8 where "RERROR \<equiv> 107"
abbreviation TFLUSH :: u8 where "TFLUSH \<equiv> 108"
abbreviation RFLUSH :: u8 where "RFLUSH \<equiv> 109"
abbreviation TWALK :: u8 where "TWALK \<equiv> 110"
abbreviation RWALK :: u8 where "RWALK \<equiv> 111"
abbreviation TOPEN :: u8 where "TOPEN \<equiv> 112"
abbreviation ROPEN :: u8 where "ROPEN \<equiv> 113"
abbreviation TCREATE :: u8 where "TCREATE \<equiv> 114"
abbreviation RCREATE :: u8 where "RCREATE \<equiv> 115"
abbreviation TREAD :: u8 where "TREAD \<equiv> 116"
abbreviation RREAD :: u8 where "RREAD \<equiv> 117"
abbreviation TWRITE :: u8 where "TWRITE \<equiv> 118"
abbreviation RWRITE :: u8 where "RWRITE \<equiv> 119"
abbreviation TCLUNK :: u8 where "TCLUNK \<equiv> 120"
abbreviation RCLUNK :: u8 where "RCLUNK \<equiv> 121"
abbreviation TREMOVE :: u8 where "TREMOVE \<equiv> 122"
abbreviation RREMOVE :: u8 where "RREMOVE \<equiv> 123"
abbreviation TSTAT :: u8 where "TSTAT \<equiv> 124"
abbreviation RSTAT :: u8 where "RSTAT \<equiv> 125"
abbreviation TWSTAT :: u8 where "TWSTAT \<equiv> 126"
abbreviation RWSTAT :: u8 where "RWSTAT \<equiv> 127"

abbreviation DMDIR :: u32 where "DMDIR \<equiv> 0x80000000"

subsection \<open>Qids and stats\<close>

record qid =
  qid_ty :: u8
  qid_version :: u32
  qid_path :: u64

definition encode_qid :: "qid \<Rightarrow> bytes" where
  "encode_qid q = qid_ty q # le32 (qid_version q) @ le64 (qid_path q)"

definition dir_type :: "bool \<Rightarrow> u8" where
  "dir_type is_dir = (if is_dir then 0x80 else 0x00)"

text \<open>The bytes that \<open>encode_stat\<close> appends; \<open>now\<close> is the clock value it reads.\<close>

definition stat_body :: "u32 \<Rightarrow> string \<Rightarrow> qid \<Rightarrow> u64 \<Rightarrow> bool \<Rightarrow> bytes" where
  "stat_body now name q len is_dir =
     le16 0 @ le32 0 @ encode_qid q @
     le32 (if is_dir then 0x800001ed else 0x1ed) @ le32 now @ le32 now @ le64 len @
     le16 (word_of_nat (length name)) @ as_bytes name @
     le16 2 @ as_bytes ''0'' @ le16 2 @ as_bytes ''0'' @ le16 2 @ as_bytes ''0''"

definition encode_stat :: "u32 \<Rightarrow> string \<Rightarrow> qid \<Rightarrow> u64 \<Rightarrow> bool \<Rightarrow> bytes" where
  "encode_stat now name q len is_dir =
     (let body = stat_body now name q len is_dir in le16 (word_of_nat (length body)) @ body)"

subsection \<open>Fid and qid state\<close>

record fid_entry =
  fe_qid :: u64
  fe_path :: string
  fe_open :: bool
  fe_is_dir :: bool

record path_entry =
  pe_path :: string
  pe_is_dir :: bool

record shared =
  fids :: "u32 \<rightharpoonup> fid_entry"
  paths :: "(u64 \<times> path_entry) list"
  next_qid :: u64
  msize :: u32

record env =
  iter_order :: "(u64 \<times> path_entry) list \<Rightarrow> (u64 \<times> path_entry) list"
  clock :: "nat \<Rightarrow> u32"

definition ninep_new :: "u32 \<Rightarrow> shared" where
  "ninep_new ms = \<lparr>fids = Map.empty, paths = [(0, \<lparr>pe_path = ''/'', pe_is_dir = True\<rparr>)],
                   next_qid = 1, msize = ms\<rparr>"

definition alloc_qid :: "env \<Rightarrow> string \<Rightarrow> bool \<Rightarrow> shared \<Rightarrow> u64 \<times> shared" where
  "alloc_qid env path is_dir s =
     (case find (\<lambda>(q, e). pe_path e = path) (iter_order env (paths s)) of
        Some (q, e) \<Rightarrow> (q, s)
      | None \<Rightarrow>
          (next_qid s,
           s\<lparr>next_qid := next_qid s + 1,
             paths := hm_insert (next_qid s) \<lparr>pe_path = path, pe_is_dir = is_dir\<rparr> (paths s)\<rparr>))"

definition set_fid :: "u32 \<Rightarrow> u64 \<Rightarrow> string \<Rightarrow> bool \<Rightarrow> shared \<Rightarrow> shared" where
  "set_fid fid q path is_dir s =
     s\<lparr>fids := (fids s)(fid \<mapsto>
         \<lparr>fe_qid = q, fe_path = path, fe_open = False, fe_is_dir = is_dir\<rparr>)\<rparr>"

text \<open>\<open>if let Some(entry) = state.fids.get_mut(&fid) { ... }\<close>\<close>

definition modify_fid :: "u32 \<Rightarrow> (fid_entry \<Rightarrow> fid_entry) \<Rightarrow> shared \<Rightarrow> shared" where
  "modify_fid fid f s = s\<lparr>fids := (fids s)(fid := map_option f (fids s fid))\<rparr>"

subsection \<open>Parsing and replies\<close>

type_synonym 'a prog = "(shared, 'a) io"

text \<open>
  \<open>uN::from_le_bytes(body[off..off + n].try_into().unwrap())\<close>: a slice past the end panics.
\<close>

definition need_u16 :: "bytes \<Rightarrow> nat \<Rightarrow> (u16 \<Rightarrow> 'a prog) \<Rightarrow> 'a prog" where
  "need_u16 bs off k =
     (if off + 2 \<le> length bs then k (word_of_nat (le_nat (sub_bytes bs off (off + 2)))) else Panic)"

definition need_u32 :: "bytes \<Rightarrow> nat \<Rightarrow> (u32 \<Rightarrow> 'a prog) \<Rightarrow> 'a prog" where
  "need_u32 bs off k =
     (if off + 4 \<le> length bs then k (word_of_nat (le_nat (sub_bytes bs off (off + 4)))) else Panic)"

definition need_u64 :: "bytes \<Rightarrow> nat \<Rightarrow> (u64 \<Rightarrow> 'a prog) \<Rightarrow> 'a prog" where
  "need_u64 bs off k =
     (if off + 8 \<le> length bs then k (word_of_nat (le_nat (sub_bytes bs off (off + 8)))) else Panic)"

definition frame :: "u8 \<Rightarrow> u16 \<Rightarrow> bytes \<Rightarrow> bytes" where
  "frame ty tag body = le32 (word_of_nat (7 + length body)) @ [ty] @ le16 tag @ body"

definition send_reply :: "u8 \<Rightarrow> u16 \<Rightarrow> bytes \<Rightarrow> unit prog" where
  "send_reply ty tag body = Send (frame ty tag body) (Ret ())"

definition error_body :: "string \<Rightarrow> bytes" where
  "error_body err =
     (let len = min (length err) 65535 in le16 (word_of_nat len) @ take len (as_bytes err))"

definition send_error :: "u16 \<Rightarrow> string \<Rightarrow> unit prog" where
  "send_error tag err = send_reply RERROR tag (error_body err)"

text \<open>\<open>state.fids.get(&fid).ok_or("unknown fid")?\<close> on a clone of the entry\<close>

definition with_fid :: "u32 \<Rightarrow> (fid_entry \<Rightarrow> 'a prog) \<Rightarrow> 'a prog" where
  "with_fid fid k =
     inspect (\<lambda>s. fids s fid) (\<lambda>e. case e of None \<Rightarrow> Fail ''unknown fid'' | Some e \<Rightarrow> k e)"

definition child_path :: "string \<Rightarrow> string \<Rightarrow> string" where
  "child_path parent child =
     (if ends_with_char (CHR ''/'') parent then parent @ child else parent @ ''/'' @ child)"

subsection \<open>Handlers: session\<close>

definition clamp_msize :: "u32 \<Rightarrow> u32" where
  "clamp_msize m = (if m < 4096 then 4096 else if 65536 < m then 65536 else m)"

definition handle_version :: "u16 \<Rightarrow> bytes \<Rightarrow> unit prog" where
  "handle_version tag body =
     (if length body < 4 then Fail ''short version message''
      else need_u32 body 0 (\<lambda>m.
        let finish =
          locked (\<lambda>s. ((), s\<lparr>msize := clamp_msize m\<rparr>)) (\<lambda>_.
            send_reply RVERSION tag (le32 (clamp_msize m) @ le16 6 @ as_bytes ''9P2000''))
        in if 4 < length body then need_u16 body 4 (\<lambda>vlen. finish) else finish))"

definition handle_attach :: "u16 \<Rightarrow> bytes \<Rightarrow> unit prog" where
  "handle_attach tag body =
     (if length body < 8 then Fail ''short attach message''
      else need_u32 body 0 (\<lambda>fid. need_u32 body 4 (\<lambda>afid.
        locked (\<lambda>s. ((), set_fid fid 0 ''/'' True s)) (\<lambda>_.
          send_reply RATTACH tag
            (encode_qid \<lparr>qid_ty = 0x80, qid_version = 0, qid_path = 0\<rparr>)))))"

subsection \<open>Handlers: walk\<close>

definition is_dot_name :: "string \<Rightarrow> bool" where
  "is_dot_name child = (child = '''' \<or> child = ''.'' \<or> child = ''..'')"

fun walk_loop ::
    "env \<Rightarrow> bytes \<Rightarrow> nat \<Rightarrow> nat \<Rightarrow> string \<Rightarrow> u64 \<Rightarrow> bool \<Rightarrow> qid list \<Rightarrow>
      (string \<Rightarrow> u64 \<Rightarrow> bool \<Rightarrow> qid list \<Rightarrow> 'a prog) \<Rightarrow> 'a prog" where
  "walk_loop env body 0 off cur q is_dir wqids k = k cur q is_dir wqids"
| "walk_loop env body (Suc m) off cur q is_dir wqids k =
     (if length body < off + 2 then Fail ''short walk wname''
      else need_u16 body off (\<lambda>nlen.
        if length body < off + 2 + unat nlen then Fail ''short walk wname data''
        else
          let child = from_utf8_lossy (sub_bytes body (off + 2) (off + 2 + unat nlen));
              full = child_path cur child;
              d = is_dot_name child;
              next = locked (alloc_qid env full d) (\<lambda>q'.
                walk_loop env body m (off + 2 + unat nlen) full q' d
                  (wqids @ [\<lparr>qid_ty = dir_type d, qid_version = 0, qid_path = q'\<rparr>]) k)
          in if m = 0 then ask Lookup full [] ''lookup'' (\<lambda>_. next) else next))"

definition handle_walk :: "env \<Rightarrow> u16 \<Rightarrow> bytes \<Rightarrow> unit prog" where
  "handle_walk env tag body =
     (if length body < 9 then Fail ''short walk message''
      else need_u32 body 0 (\<lambda>fid. need_u32 body 4 (\<lambda>new_fid. need_u16 body 8 (\<lambda>nw.
        with_fid fid (\<lambda>parent.
          walk_loop env body (unat nw) 10 (fe_path parent) (fe_qid parent) (fe_is_dir parent) []
            (\<lambda>cur q is_dir wqids.
              locked (\<lambda>s. ((), set_fid new_fid q cur is_dir s)) (\<lambda>_.
                send_reply RWALK tag (le16 nw @ concat (map encode_qid wqids)))))))))"

subsection \<open>Handlers: open and create\<close>

definition handle_open :: "u16 \<Rightarrow> bytes \<Rightarrow> unit prog" where
  "handle_open tag body =
     (if length body < 5 then Fail ''short open message''
      else need_u32 body 0 (\<lambda>fid.
        with_fid fid (\<lambda>entry.
          ask (if fe_is_dir entry then OpenDir else Open) (fe_path entry) [] ''open'' (\<lambda>_.
            locked (\<lambda>s. ((), modify_fid fid (\<lambda>e. e\<lparr>fe_open := True\<rparr>) s)) (\<lambda>_.
              inspect msize (\<lambda>ms.
                send_reply ROPEN tag
                  (encode_qid \<lparr>qid_ty = 0, qid_version = 0, qid_path = 0\<rparr> @ le32 ms)))))))"

definition handle_create :: "env \<Rightarrow> u16 \<Rightarrow> bytes \<Rightarrow> unit prog" where
  "handle_create env tag body =
     (if length body < 9 then Fail ''short create message''
      else need_u32 body 0 (\<lambda>fid. need_u16 body 4 (\<lambda>nlen.
        let n = unat nlen in
        if length body < 6 + n + 5 then Fail ''short create name''
        else need_u32 body (6 + n) (\<lambda>perm.
          let name = from_utf8_lossy (sub_bytes body 6 (6 + n));
              is_dir = (perm AND DMDIR \<noteq> 0);
              op = (if is_dir then MkDir else Create) in
          with_fid fid (\<lambda>parent.
            let full = child_path (fe_path parent) name in
            ask op full [] (as_str op) (\<lambda>_.
              locked (\<lambda>s. let (q, s') = alloc_qid env full is_dir s in
                           (q, modify_fid fid (\<lambda>e. e\<lparr>fe_open := True\<rparr>)
                                 (set_fid fid q full is_dir s'))) (\<lambda>q.
                send_reply RCREATE tag
                  (encode_qid \<lparr>qid_ty = dir_type is_dir, qid_version = 0, qid_path = q\<rparr>))))))))"

subsection \<open>Handlers: read and write\<close>

text \<open>A path entry is listed under \<open>dir\<close> when it is a direct child, or \<open>dir/\<close> itself.\<close>

definition dir_prefix :: "string \<Rightarrow> string" where
  "dir_prefix dir = (if ends_with_char (CHR ''/'') dir then dir else dir @ ''/'')"

definition is_listed :: "string \<Rightarrow> path_entry \<Rightarrow> bool" where
  "is_listed dir pent =
     (pe_path pent \<noteq> dir \<and> starts_with (dir_prefix dir) (pe_path pent) \<and>
      CHR ''/'' \<notin> set (drop (length (dir_prefix dir)) (pe_path pent)))"

definition entry_name :: "string \<Rightarrow> path_entry \<Rightarrow> string" where
  "entry_name dir pent =
     (let rest = drop (length (dir_prefix dir)) (pe_path pent) in
      if rest = [] then ''.'' else rest)"

definition stat_entry :: "env \<Rightarrow> string \<Rightarrow> nat \<times> u64 \<times> path_entry \<Rightarrow> bytes" where
  "stat_entry env dir = (\<lambda>(i, q, pent).
     encode_stat (clock env i) (entry_name dir pent)
       \<lparr>qid_ty = dir_type (pe_is_dir pent), qid_version = 0, qid_path = q\<rparr> 0 (pe_is_dir pent))"

definition dir_listing :: "env \<Rightarrow> string \<Rightarrow> u64 \<Rightarrow> shared \<Rightarrow> bytes" where
  "dir_listing env dir offset s =
     (let sel = filter (\<lambda>(q, pent). is_listed dir pent) (iter_order env (paths s));
          data = concat (map (stat_entry env dir) (enumerate 0 sel)) in
      if offset = 0
      then encode_stat (clock env (length sel)) ''.''
             \<lparr>qid_ty = 0x80, qid_version = 0, qid_path = 0\<rparr> 0 True @ data
      else data)"

definition read_chunk :: "u64 \<Rightarrow> bytes \<Rightarrow> bytes" where
  "read_chunk offset data = (if unat offset < length data then drop (unat offset) data else [])"

definition send_chunk :: "u16 \<Rightarrow> bytes \<Rightarrow> unit prog" where
  "send_chunk tag chunk = send_reply RREAD tag (le32 (word_of_nat (length chunk)) @ chunk)"

definition handle_read :: "env \<Rightarrow> u16 \<Rightarrow> bytes \<Rightarrow> unit prog" where
  "handle_read env tag body =
     (if length body < 16 then Fail ''short read message''
      else need_u32 body 0 (\<lambda>fid. need_u64 body 4 (\<lambda>offset. need_u32 body 12 (\<lambda>count.
        with_fid fid (\<lambda>entry.
          if fe_is_dir entry then
            ask ReadDir (fe_path entry) [] ''readdir'' (\<lambda>_.
              inspect (dir_listing env (fe_path entry) offset) (\<lambda>data.
                send_chunk tag (read_chunk offset data)))
          else
            ask Read (fe_path entry) [] ''read'' (\<lambda>resp.
              send_chunk tag (read_chunk offset (resp_data resp))))))))"

definition handle_write :: "u16 \<Rightarrow> bytes \<Rightarrow> unit prog" where
  "handle_write tag body =
     (if length body < 16 then Fail ''short write message''
      else need_u32 body 0 (\<lambda>fid. need_u64 body 4 (\<lambda>offset. need_u32 body 12 (\<lambda>count.
        with_fid fid (\<lambda>entry.
          let data = sub_bytes body 16 (16 + min (unat count) (length body - 16)) in
          ask Write (fe_path entry) data ''write'' (\<lambda>_.
            send_reply RWRITE tag (le32 count)))))))"

subsection \<open>Handlers: clunk, remove, stat, flush\<close>

definition handle_clunk :: "u16 \<Rightarrow> bytes \<Rightarrow> unit prog" where
  "handle_clunk tag body =
     (if length body < 4 then Fail ''short clunk message''
      else need_u32 body 0 (\<lambda>fid.
        let finish = locked (\<lambda>s. ((), s\<lparr>fids := (fids s)(fid := None)\<rparr>)) (\<lambda>_.
                       send_reply RCLUNK tag []) in
        inspect (\<lambda>s. map_option fe_path (fids s fid)) (\<lambda>path.
          case path of None \<Rightarrow> finish
          | Some p \<Rightarrow> Call Release p [] (\<lambda>_. finish))))"

definition handle_remove :: "u16 \<Rightarrow> bytes \<Rightarrow> unit prog" where
  "handle_remove tag body =
     (if length body < 4 then Fail ''short remove message''
      else need_u32 body 0 (\<lambda>fid.
        with_fid fid (\<lambda>entry.
          ask (if fe_is_dir entry then RmDir else Unlink) (fe_path entry) [] ''remove'' (\<lambda>_.
            send_reply RREMOVE tag []))))"

definition stat_name :: "string \<Rightarrow> string" where
  "stat_name path =
     (let name = last_segment (CHR ''/'') path in if name = [] then ''/'' else name)"

definition handle_stat :: "env \<Rightarrow> u16 \<Rightarrow> bytes \<Rightarrow> unit prog" where
  "handle_stat env tag body =
     (if length body < 4 then Fail ''short stat message''
      else need_u32 body 0 (\<lambda>fid.
        with_fid fid (\<lambda>entry.
          ask GetAttr (fe_path entry) [] ''getattr'' (\<lambda>resp.
            let stat_buf = encode_stat (clock env 0) (stat_name (fe_path entry))
                  \<lparr>qid_ty = dir_type (fe_is_dir entry), qid_version = 0, qid_path = fe_qid entry\<rparr>
                  (word_of_nat (length (resp_data resp))) (fe_is_dir entry) in
            send_reply RSTAT tag (le16 (word_of_nat (length stat_buf)) @ stat_buf)))))"

definition handle_flush :: "u16 \<Rightarrow> unit prog" where
  "handle_flush tag = send_reply RFLUSH tag []"

subsection \<open>Handlers: wstat\<close>

text \<open>
  What \<open>handle_wstat\<close> reads of the stat data: whether a mode, time or length field is
  present, and the new name if the name field is present, not empty and differs.
\<close>

definition wstat_offsets :: "bytes \<Rightarrow> bool \<times> nat" where
  "wstat_offsets sd =
     (let off = 19;
          has_mode = (off + 4 \<le> length sd); off = (if has_mode then off + 4 else off);
          has_time = (off + 8 \<le> length sd); off = (if has_time then off + 8 else off);
          has_length = (off + 8 \<le> length sd); off = (if has_length then off + 8 else off) in
      (has_mode \<or> has_time \<or> has_length, off))"

definition wstat_name :: "string \<Rightarrow> bytes \<Rightarrow> nat \<Rightarrow> string option" where
  "wstat_name path sd off =
     (if off + 2 \<le> length sd then
        let name_len = le_nat (sub_bytes sd off (off + 2)) in
        if 0 < name_len \<and> off + 2 + name_len \<le> length sd then
          let name = from_utf8_lossy (sub_bytes sd (off + 2) (off + 2 + name_len)) in
          if name \<noteq> last_segment (CHR ''/'') path \<and> name \<noteq> [] then Some name else None
        else None
      else None)"

definition renamed_path :: "string \<Rightarrow> string \<Rightarrow> string" where
  "renamed_path path name =
     (if path = ''/'' then ''/'' @ name
      else let parent = (case rsplit_once (CHR ''/'') path of Some (p, _) \<Rightarrow> p | None \<Rightarrow> ''/'') in
           if parent = ''/'' then ''/'' @ name else parent @ ''/'' @ name)"

definition apply_rename :: "u32 \<Rightarrow> u64 \<Rightarrow> string \<Rightarrow> shared \<Rightarrow> shared" where
  "apply_rename fid q new_path s =
     (let s' = modify_fid fid (\<lambda>e. e\<lparr>fe_path := new_path\<rparr>) s in
      s'\<lparr>paths := hm_insert q \<lparr>pe_path = new_path, pe_is_dir = False\<rparr> (paths s')\<rparr>)"

definition handle_wstat :: "u16 \<Rightarrow> bytes \<Rightarrow> unit prog" where
  "handle_wstat tag body =
     (if length body < 4 then Fail ''short wstat message''
      else need_u32 body 0 (\<lambda>fid.
        with_fid fid (\<lambda>entry.
          let path = fe_path entry; q = fe_qid entry; stat_data = drop 4 body in
          if length stat_data < 2 then Fail ''short wstat data''
          else need_u16 stat_data 0 (\<lambda>slen.
            let sd = sub_bytes stat_data 2 (2 + min (unat slen) (length stat_data - 2)) in
            if length sd < 6 then send_reply RWSTAT tag []
            else
              let (has_attr, off) = wstat_offsets sd in
              case wstat_name path sd off of
                Some name \<Rightarrow>
                  let new_path = renamed_path path name in
                  ask Rename path (as_bytes new_path) ''rename'' (\<lambda>_.
                    locked (\<lambda>s. ((), apply_rename fid q new_path s)) (\<lambda>_.
                      send_reply RWSTAT tag []))
              | None \<Rightarrow>
                  if has_attr then
                    ask SetAttr path [] ''setattr'' (\<lambda>_. send_reply RWSTAT tag [])
                  else send_reply RWSTAT tag []))))"

subsection \<open>Dispatch, connections and datagrams\<close>

definition handle_message :: "env \<Rightarrow> u8 \<Rightarrow> u16 \<Rightarrow> bytes \<Rightarrow> unit prog" where
  "handle_message env ty tag body =
     (if ty = TVERSION then handle_version tag body
      else if ty = TATTACH then handle_attach tag body
      else if ty = TWALK then handle_walk env tag body
      else if ty = TOPEN then handle_open tag body
      else if ty = TREAD then handle_read env tag body
      else if ty = TWRITE then handle_write tag body
      else if ty = TCLUNK then handle_clunk tag body
      else if ty = TCREATE then handle_create env tag body
      else if ty = TREMOVE then handle_remove tag body
      else if ty = TSTAT then handle_stat env tag body
      else if ty = TWSTAT then handle_wstat tag body
      else if ty = TFLUSH then handle_flush tag
      else Fail (''unknown message type: '' @ show_nat (unat ty)))"

text \<open>
  Reading one message from the bytes that are still to come: a header of 7 bytes, then the
  body. \<open>None\<close> when the peer closes its side before the message is complete, or when the body
  is larger than the 64 KiB buffer.
\<close>

type_synonym msg = "u8 \<times> u16 \<times> bytes"

definition next_message :: "bytes \<Rightarrow> (msg \<times> bytes) option" where
  "next_message input =
     (if length input < 7 then None
      else
        let size = le_nat (sub_bytes input 0 4);
            ty = input ! 4;
            tag = word_of_nat (le_nat (sub_bytes input 5 7));
            body_len = size - 7 in
        if 65536 < body_len then None
        else if length input < 7 + body_len then None
        else Some ((ty, tag, sub_bytes input 7 (7 + body_len)), drop (7 + body_len) input))"

lemma next_message_shorter: "next_message input = Some (m, rest) \<Longrightarrow> length rest < length input"
  by (auto simp: next_message_def Let_def split: if_splits)

text \<open>
  \<open>run_connection env input\<close>: the loop over the bytes a peer sends until it closes its
  side. A panic of a handler ends the task.
\<close>

function run_connection :: "env \<Rightarrow> bytes \<Rightarrow> unit prog" where
  "run_connection env input =
     (case next_message input of
        None \<Rightarrow> Ret ()
      | Some ((ty, tag, body), rest) \<Rightarrow>
          io_handle (handle_message env ty tag body)
            (\<lambda>_. run_connection env rest)
            (\<lambda>e. io_handle (send_error tag e) (\<lambda>_. run_connection env rest)
                    (\<lambda>_. run_connection env rest)))"
  by pat_completeness auto
termination
  by (relation "measure (\<lambda>(env, input). length input)") (auto dest: next_message_shorter)

declare run_connection.simps [simp del]

text \<open>
  \<open>handle_udp_message\<close>: \<open>None\<close> for a datagram too short for a header; otherwise the handler
  runs on a stream that collects its reply, and its \<open>Err\<close> is discarded.
\<close>

definition udp_prog :: "env \<Rightarrow> bytes \<Rightarrow> unit prog" where
  "udp_prog env data =
     (let ty = data ! 4; tag = word_of_nat (le_nat (sub_bytes data 5 7)); body = drop 7 data in
      if ty \<in> {TVERSION, TATTACH, TWALK, TOPEN, TREAD, TWRITE, TCLUNK, TCREATE, TREMOVE, TSTAT,
               TWSTAT, TFLUSH}
      then io_handle (handle_message env ty tag body) Ret (\<lambda>_. Ret ())
      else send_error tag (''unknown msg type '' @ show_nat (unat ty)))"

definition handle_udp_message :: "env \<Rightarrow> bytes \<Rightarrow> unit prog option" where
  "handle_udp_message env data = (if length data < 7 then None else Some (udp_prog env data))"

lemmas handler_defs [ninep_defs] =
  handle_version_def handle_attach_def handle_walk_def handle_open_def handle_create_def
  handle_read_def handle_write_def handle_clunk_def handle_remove_def handle_stat_def
  handle_flush_def handle_wstat_def

end
