(* ===== verification/Ninep_Invariant.thy ===== *)
theory Ninep_Invariant
  imports Ninep_Server
begin

text \<open>
  The invariant of the 9P server's shared state under concurrency. All connections of a
  listener share one \<open>NinepState\<close>; their handlers release the lock at every await. The
  invariant says that the qid table is an injective numbering of its entries, that every
  fid refers to an allocated qid, and that the negotiated message size stays in range. It
  is proved for every critical section by rely/guarantee and lifted to every interleaving
  by the locale \<open>rely_guarantee\<close>.
\<close>

named_theorems rg_intros \<open>rely/guarantee rules for the program combinators\<close>

subsection \<open>The invariant and the rely\<close>

definition qids_ok :: "shared \<Rightarrow> bool" where
  "qids_ok s =
     (next_qid s = word_of_nat (length (paths s)) \<and>
      map fst (paths s) = map word_of_nat [0..<length (paths s)])"

text \<open>
  The counter of qids is a \<open>u64\<close>; it would wrap after \<open>2^64\<close> allocations. The table part is
  stated for tables below that size.
\<close>

definition ninep_inv :: "shared \<Rightarrow> bool" where
  "ninep_inv s =
     ((length (paths s) < 2 ^ 64 \<longrightarrow> qids_ok s) \<and>
      0 \<in> hm_keys (paths s) \<and>
      (\<forall>fid e. fids s fid = Some e \<longrightarrow> fe_qid e \<in> hm_keys (paths s)) \<and>
      4096 \<le> msize s \<and> msize s \<le> 65536)"

definition paths_grow :: "shared \<Rightarrow> shared \<Rightarrow> bool" where
  "paths_grow s t =
     (hm_keys (paths s) \<subseteq> hm_keys (paths t) \<and> length (paths s) \<le> length (paths t))"

definition fair_env :: "env \<Rightarrow> bool" where
  "fair_env env = (\<forall>m. mset (iter_order env m) = mset m)"

subsection \<open>Rules for the combinators\<close>

interpretation ninep: rely_guarantee ninep_inv paths_grow
  by unfold_locales (auto simp: paths_grow_def)

abbreviation ok_from :: "shared \<Rightarrow> 'a prog \<Rightarrow> bool" where
  "ok_from \<equiv> rg ninep_inv paths_grow"

lemma rg_need_u16 [rg_intros]: "(\<And>x. ok_from s (k x)) \<Longrightarrow> ok_from s (need_u16 bs off k)"
  by (simp add: need_u16_def)

lemma rg_need_u32 [rg_intros]: "(\<And>x. ok_from s (k x)) \<Longrightarrow> ok_from s (need_u32 bs off k)"
  by (simp add: need_u32_def)

lemma rg_need_u64 [rg_intros]: "(\<And>x. ok_from s (k x)) \<Longrightarrow> ok_from s (need_u64 bs off k)"
  by (simp add: need_u64_def)

lemma rg_send_reply [rg_intros]: "ok_from s (send_reply ty tag body)"
  by (simp add: send_reply_def)

lemma rg_send_error [rg_intros]: "ok_from s (send_error tag e)"
  by (simp add: send_error_def rg_send_reply)

lemma rg_Fail [rg_intros]: "ok_from s (Fail e)"
  by simp

lemma rg_ask' [rg_intros]: "(\<And>resp. ok_from s (k resp)) \<Longrightarrow> ok_from s (ask op p d what k)"
  by (rule rg_ask)

lemma rg_if [rg_intros]:
  "(b \<Longrightarrow> ok_from s m) \<Longrightarrow> (\<not> b \<Longrightarrow> ok_from s m') \<Longrightarrow> ok_from s (if b then m else m')"
  by simp

lemma rg_with_fid:
  "(\<And>t e. fe_qid e \<in> hm_keys (paths t) \<Longrightarrow> ok_from t (k e)) \<Longrightarrow> ok_from s (with_fid fid k)"
  unfolding with_fid_def
  by (rule ninep.rg_inspect) (auto simp: ninep_inv_def split: option.splits)

lemma rg_locked' :
  "(\<And>t. paths_grow s t \<Longrightarrow> ninep_inv t \<Longrightarrow>
      ninep_inv (snd (f t)) \<and> paths_grow t (snd (f t)) \<and> ok_from (snd (f t)) (k (fst (f t)))) \<Longrightarrow>
    ok_from s (locked f k)"
  by (simp add: rg_locked)

subsection \<open>State operations keep the invariant\<close>

lemma ninep_new_inv: "4096 \<le> ms \<Longrightarrow> ms \<le> 65536 \<Longrightarrow> ninep_inv (ninep_new ms)"
  by (simp add: ninep_inv_def ninep_new_def qids_ok_def hm_keys_def)

lemma set_fid_inv:
  "ninep_inv s \<Longrightarrow> q \<in> hm_keys (paths s) \<Longrightarrow> ninep_inv (set_fid fid q p d s)"
  by (auto simp: ninep_inv_def set_fid_def qids_ok_def)

lemma paths_set_fid [simp]: "paths (set_fid fid q p d s) = paths s"
  by (simp add: set_fid_def)

lemma paths_modify_fid [simp]: "paths (modify_fid fid f s) = paths s"
  by (simp add: modify_fid_def)

lemma modify_fid_inv:
  "ninep_inv s \<Longrightarrow> (\<And>e. fe_qid (f e) = fe_qid e) \<Longrightarrow> ninep_inv (modify_fid fid f s)"
  by (auto simp: ninep_inv_def modify_fid_def qids_ok_def map_option_case split: option.splits)

lemma word_of_nat_new:
  fixes n :: nat
  assumes "n < 2 ^ 64"
  shows "(word_of_nat n :: u64) \<notin> word_of_nat ` {0..<n}"
proof
  assume "(word_of_nat n :: u64) \<in> word_of_nat ` {0..<n}"
  then obtain k where k: "k < n" "(word_of_nat n :: u64) = word_of_nat k"
    by auto
  then have "n mod 2 ^ 64 = k mod 2 ^ 64"
    by (simp add: word_of_nat_eq_iff take_bit_eq_mod)
  with k assms show False by simp
qed

lemma qids_ok_fresh:
  assumes "qids_ok s" and "length (paths s) < 2 ^ 64"
  shows "next_qid s \<notin> hm_keys (paths s)"
proof -
  have "hm_keys (paths s) = word_of_nat ` {0..<length (paths s)}"
    using assms(1) by (metis hm_keys_def list.set_map qids_ok_def set_upt)
  with assms word_of_nat_new show ?thesis
    by (simp add: qids_ok_def)
qed

lemma alloc_qid_inv:
  assumes "ninep_inv s" and "fair_env env" and "alloc_qid env p d s = (q, s')"
  shows "ninep_inv s' \<and> paths_grow s s' \<and> q \<in> hm_keys (paths s')"
proof (cases "find (\<lambda>(q, e). pe_path e = p) (iter_order env (paths s))")
  case (Some a)
  then have "a \<in> set (iter_order env (paths s))"
    by (metis find_Some_iff nth_mem)
  also have "set (iter_order env (paths s)) = set (paths s)"
    using assms(2) by (intro mset_eq_setD) (simp add: fair_env_def)
  finally have "fst a \<in> hm_keys (paths s)"
    by (simp add: hm_keys_def)
  moreover from Some assms(3) have "q = fst a" and "s' = s"
    by (simp_all add: alloc_qid_def split_beta)
  ultimately show ?thesis
    using assms(1) by (simp add: paths_grow_def)
next
  case None
  then have q: "q = next_qid s" and fids': "fids s' = fids s" and ms: "msize s' = msize s"
    and p': "paths s' = hm_insert q \<lparr>pe_path = p, pe_is_dir = d\<rparr> (paths s)"
    and n': "next_qid s' = next_qid s + 1"
    using assms(3) by (auto simp: alloc_qid_def)
  have len: "length (paths s) \<le> length (paths s')"
    by (simp add: p' length_hm_insert)
  have "qids_ok s'" if "length (paths s') < 2 ^ 64"
  proof -
    from that len have small: "length (paths s) < 2 ^ 64" by simp
    with assms(1) have ok: "qids_ok s" by (simp add: ninep_inv_def)
    then have "paths s' = paths s @ [(q, \<lparr>pe_path = p, pe_is_dir = d\<rparr>)]"
      using qids_ok_fresh [OF ok small] by (simp add: p' q hm_insert_new)
    with ok show ?thesis
      by (simp add: qids_ok_def q n' add.commute)
  qed
  then show ?thesis
    using assms(1) len by (auto simp: ninep_inv_def paths_grow_def fids' ms p')
qed

lemma rename_inv:
  assumes "ninep_inv s" and "q \<in> hm_keys (paths s)"
  shows "ninep_inv (apply_rename fid q p s) \<and> paths_grow s (apply_rename fid q p s)"
proof -
  have "ninep_inv (modify_fid fid (\<lambda>e. e\<lparr>fe_path := p\<rparr>) s)"
    by (rule modify_fid_inv [OF assms(1)]) simp
  moreover have "length (hm_insert q e (paths s)) = length (paths s)" for e
    using assms(2) by (simp add: length_hm_insert)
  ultimately show ?thesis
    using assms(2)
    by (auto simp: apply_rename_def Let_def ninep_inv_def paths_grow_def qids_ok_def
        hm_insert_present insert_absorb modify_fid_def)
qed

subsection \<open>Every handler keeps the invariant\<close>

lemma rg_walk_loop:
  assumes "fair_env env"
    and "\<And>t cur q d ws. q \<in> hm_keys (paths t) \<Longrightarrow> ok_from t (k cur q d ws)"
    and "q \<in> hm_keys (paths s)"
  shows "ok_from s (walk_loop env body m off cur q d ws k)"
  using assms(3)
proof (induction m arbitrary: s off cur q d ws)
  case 0
  then show ?case using assms(2) by simp
next
  case (Suc m)
  have next': "ok_from s (locked (alloc_qid env full d') (\<lambda>q'. walk_loop env body m off' full q' d' (ws' q') k))"
    for full d' off' ws'
  proof (rule rg_locked')
    fix t
    assume "paths_grow s t" and "ninep_inv t"
    then show "ninep_inv (snd (alloc_qid env full d' t)) \<and>
        paths_grow t (snd (alloc_qid env full d' t)) \<and>
        ok_from (snd (alloc_qid env full d' t))
          (walk_loop env body m off' full (fst (alloc_qid env full d' t)) d'
            (ws' (fst (alloc_qid env full d' t))) k)"
      using alloc_qid_inv [OF _ assms(1)] Suc.IH by (metis prod.collapse)
  qed
  show ?case
    by (simp only: walk_loop.simps Let_def) (intro rg_intros next')
qed

lemma rg_handle_version: "ok_from s (handle_version tag body)"
proof -
  have "ninep_inv (t\<lparr>msize := clamp_msize m\<rparr>) \<and> paths_grow t (t\<lparr>msize := clamp_msize m\<rparr>)"
    if "ninep_inv t" for t m
    using that by (auto simp: ninep_inv_def paths_grow_def clamp_msize_def qids_ok_def)
  then show ?thesis
    unfolding handle_version_def Let_def by (auto intro!: rg_intros rg_locked')
qed

lemma rg_handle_attach: "ok_from s (handle_attach tag body)"
proof -
  have "ninep_inv (set_fid fid 0 p d t) \<and> paths_grow t (set_fid fid 0 p d t)"
    if "ninep_inv t" for t fid p d
    using that by (auto simp: paths_grow_def intro!: set_fid_inv) (simp add: ninep_inv_def)
  then show ?thesis
    unfolding handle_attach_def by (auto intro!: rg_intros rg_locked')
qed

lemma rg_handle_walk: "fair_env env \<Longrightarrow> ok_from s (handle_walk env tag body)"
  unfolding handle_walk_def
  by (intro rg_intros rg_with_fid rg_walk_loop rg_locked')
    (auto simp: paths_grow_def intro!: set_fid_inv rg_intros)

lemma rg_handle_open: "ok_from s (handle_open tag body)"
  unfolding handle_open_def
  by (intro rg_intros rg_with_fid rg_locked')
    (auto simp: paths_grow_def intro!: modify_fid_inv rg_intros ninep.rg_inspect)

lemma rg_handle_create:
  assumes "fair_env env"
  shows "ok_from s (handle_create env tag body)"
proof -
  have step: "ninep_inv (modify_fid fid (fe_open_update (\<lambda>_. True)) (set_fid fid q p d s')) \<and>
      paths_grow t (modify_fid fid (fe_open_update (\<lambda>_. True)) (set_fid fid q p d s'))"
    if "ninep_inv t" and "alloc_qid env p d t = (q, s')" for t fid q p d s'
    using alloc_qid_inv [OF that(1) assms that(2)]
    by (auto simp: paths_grow_def intro!: modify_fid_inv set_fid_inv)
  show ?thesis
    unfolding handle_create_def Let_def
    by (intro rg_intros rg_with_fid rg_locked')
      (auto simp: split_beta intro!: rg_intros dest: step [OF _ surjective_pairing])
qed

lemma rg_handle_read: "ok_from s (handle_read env tag body)"
  unfolding handle_read_def send_chunk_def
  by (intro rg_intros rg_with_fid ninep.rg_inspect)

lemma rg_handle_write: "ok_from s (handle_write tag body)"
  unfolding handle_write_def Let_def by (intro rg_intros rg_with_fid)

lemma rg_handle_clunk: "ok_from s (handle_clunk tag body)"
proof -
  have "ninep_inv (t\<lparr>fids := (fids t)(fid := None)\<rparr>) \<and>
      paths_grow t (t\<lparr>fids := (fids t)(fid := None)\<rparr>)" if "ninep_inv t" for t fid
    using that by (auto simp: ninep_inv_def paths_grow_def qids_ok_def)
  then have finish: "ok_from t (locked (\<lambda>s. ((), s\<lparr>fids := (fids s)(fid := None)\<rparr>))
      (\<lambda>_. send_reply RCLUNK tag []))" for t fid
    by (auto intro!: rg_intros rg_locked')
  show ?thesis
    unfolding handle_clunk_def Let_def
    by (intro rg_intros ninep.rg_inspect) (auto split: option.split intro: finish)
qed

lemma rg_handle_remove: "ok_from s (handle_remove tag body)"
  unfolding handle_remove_def by (intro rg_intros rg_with_fid)

lemma rg_handle_stat: "ok_from s (handle_stat env tag body)"
  unfolding handle_stat_def Let_def by (intro rg_intros rg_with_fid)

lemma rg_handle_wstat: "ok_from s (handle_wstat tag body)"
proof -
  have rename: "ok_from t (locked (\<lambda>s. ((), apply_rename fid q p s)) (\<lambda>_. send_reply RWSTAT tag []))"
    if "q \<in> hm_keys (paths t)" for t fid q p
  proof (rule rg_locked')
    fix u
    assume "paths_grow t u" and u: "ninep_inv u"
    with that have "q \<in> hm_keys (paths u)"
      by (auto simp: paths_grow_def)
    from rename_inv [OF u this]
    show "ninep_inv (snd ((), apply_rename fid q p u)) \<and>
        paths_grow u (snd ((), apply_rename fid q p u)) \<and>
        ok_from (snd ((), apply_rename fid q p u)) (send_reply RWSTAT tag [])"
      by (auto intro: rg_intros)
  qed
  show ?thesis
    unfolding handle_wstat_def Let_def
    by (intro rg_intros rg_with_fid) (auto split: prod.split option.split intro!: rg_intros rename)
qed

lemmas rg_handlers =
  rg_handle_version rg_handle_attach rg_handle_walk rg_handle_open rg_handle_create
  rg_handle_read rg_handle_write rg_handle_clunk rg_handle_remove rg_handle_stat
  rg_handle_wstat

lemma rg_handle_message: "fair_env env \<Longrightarrow> ok_from s (handle_message env ty tag body)"
  by (simp add: handle_message_def handle_flush_def rg_handlers rg_send_reply)

lemma rg_run_connection:
  assumes "fair_env env"
  shows "ok_from s (run_connection env input)"
  using assms
proof (induction env input arbitrary: s rule: run_connection.induct)
  case (1 env input)
  show ?case
    unfolding run_connection.simps [of env input]
    by (auto intro!: rg_io_handle rg_handle_message rg_intros "1.IH" "1.prems" split: option.split)
qed

end
