(* ===== verification/Ninep_Replies.thy ===== *)
theory Ninep_Replies
  imports Ninep_Invariant
begin

text \<open>
  The request/reply discipline of the 9P server: a handler that succeeds writes exactly one
  frame, of the reply type of its request and with its tag; a handler that fails writes
  nothing, so that the connection loop's error frame is the only reply; and the only inputs
  on which a handler panics are identified.
\<close>

named_theorems reply_intros \<open>rules for \<open>one_reply\<close> and \<open>no_panic\<close>\<close>

subsection \<open>Programs that write one frame\<close>

primrec one_reply :: "(bytes \<Rightarrow> bool) \<Rightarrow> ('s, 'a) io \<Rightarrow> bool" where
  "one_reply P (Ret x) = False"
| "one_reply P (Fail e) = True"
| "one_reply P Panic = True"
| "one_reply P (Atom u c) = (\<forall>s. one_reply P (c s))"
| "one_reply P (Call op p d c) = (\<forall>r. one_reply P (c r))"
| "one_reply P (Send bs m) = (P bs \<and> (\<exists>x. m = Ret x))"

primrec no_panic :: "('s, 'a) io \<Rightarrow> bool" where
  "no_panic (Ret x) = True"
| "no_panic (Fail e) = True"
| "no_panic Panic = False"
| "no_panic (Atom u c) = (\<forall>s. no_panic (c s))"
| "no_panic (Call op p d c) = (\<forall>r. no_panic (c r))"
| "no_panic (Send bs m) = no_panic m"

text \<open>A request message and the frame it travels in.\<close>

definition msg_frame :: "msg \<Rightarrow> bytes" where
  "msg_frame m = (case m of (ty, tag, body) \<Rightarrow> frame ty tag body)"

definition answers :: "msg \<Rightarrow> msg \<Rightarrow> bool" where
  "answers req rep =
     (fst (snd rep) = fst (snd req) \<and> (fst rep = fst req + 1 \<or> fst rep = RERROR))"

text \<open>The two message shapes whose length test is off by one.\<close>

definition bad_length :: "u8 \<Rightarrow> bytes \<Rightarrow> bool" where
  "bad_length ty body =
     ((ty = TVERSION \<and> length body = 5) \<or> (ty = TWALK \<and> length body = 9))"

subsection \<open>What the predicates mean for a run\<close>

lemma one_reply_run:
  "one_reply P m \<Longrightarrow> run rt m s w = (r, out, s', w') \<Longrightarrow>
    (case r of Done _ \<Rightarrow> P out | Failed _ \<Rightarrow> out = [] | Panicked \<Rightarrow> out = [])"
proof (induction m arbitrary: s w)
  case (Atom u c)
  then show ?case using Atom.IH [OF rangeI] by simp
next
  case (Call op p d c)
  then show ?case using Call.IH [OF rangeI] by simp
qed (auto simp: Let_def)

lemma no_panic_run: "no_panic m \<Longrightarrow> fst (run rt m s w) \<noteq> Panicked"
proof (induction m arbitrary: s w)
  case (Send bs m)
  then show ?case by (auto simp: Let_def split: prod.splits) (metis fst_conv)
qed auto

lemma one_reply_intros [reply_intros]:
  "(\<And>x. one_reply P (k16 x)) \<Longrightarrow> one_reply P (need_u16 bs off k16)"
  "(\<And>x. one_reply P (k32 x)) \<Longrightarrow> one_reply P (need_u32 bs off k32)"
  "(\<And>x. one_reply P (k64 x)) \<Longrightarrow> one_reply P (need_u64 bs off k64)"
  "(\<And>x. one_reply P (kf x)) \<Longrightarrow> one_reply P (with_fid fid kf)"
  "(\<And>x. one_reply P (ka x)) \<Longrightarrow> one_reply P (ask op p d what ka)"
  "(\<And>x. one_reply P (kl x)) \<Longrightarrow> one_reply P (locked f kl)"
  "(\<And>x. one_reply P (ki x)) \<Longrightarrow> one_reply P (inspect g ki)"
  by (auto simp: need_u16_def need_u32_def need_u64_def with_fid_def ask_def locked_def inspect_def
      split: option.split router_result.split sum.split)

lemma one_reply_base [reply_intros]:
  "one_reply P (Fail e)"
  "P (frame ty tag body) \<Longrightarrow> one_reply P (send_reply ty tag body)"
  "(b \<Longrightarrow> one_reply P m) \<Longrightarrow> (\<not> b \<Longrightarrow> one_reply P m') \<Longrightarrow> one_reply P (if b then m else m')"
  "(\<And>r. one_reply P (kc r)) \<Longrightarrow> one_reply P (Call op p d kc)"
  by (auto simp: send_reply_def)

lemma no_panic_intros [reply_intros]:
  "(\<And>x. no_panic (kf x)) \<Longrightarrow> no_panic (with_fid fid kf)"
  "(\<And>x. no_panic (ka x)) \<Longrightarrow> no_panic (ask op p d what ka)"
  "(\<And>x. no_panic (kl x)) \<Longrightarrow> no_panic (locked f kl)"
  "(\<And>x. no_panic (ki x)) \<Longrightarrow> no_panic (inspect g ki)"
  "(\<And>r. no_panic (kc r)) \<Longrightarrow> no_panic (Call op p d kc)"
  "no_panic (Fail e)"
  "no_panic (send_reply ty tag body)"
  "(b \<Longrightarrow> no_panic m) \<Longrightarrow> (\<not> b \<Longrightarrow> no_panic m') \<Longrightarrow> no_panic (if b then m else m')"
  by (auto simp: with_fid_def ask_def locked_def inspect_def send_reply_def
      split: option.split router_result.split sum.split)

lemma no_panic_need:
  "off + 2 \<le> length bs \<Longrightarrow> (\<And>x. no_panic (k16 x)) \<Longrightarrow> no_panic (need_u16 bs off k16)"
  "off + 4 \<le> length bs \<Longrightarrow> (\<And>x. no_panic (k32 x)) \<Longrightarrow> no_panic (need_u32 bs off k32)"
  "off + 8 \<le> length bs \<Longrightarrow> (\<And>x. no_panic (k64 x)) \<Longrightarrow> no_panic (need_u64 bs off k64)"
  by (simp_all add: need_u16_def need_u32_def need_u64_def)

subsection \<open>The handlers\<close>

lemma one_reply_walk_loop:
  assumes "\<And>cur q d ws. one_reply P (k cur q d ws)"
  shows "one_reply P (walk_loop env body m off cur q d ws k)"
proof (induction m arbitrary: off cur q d ws)
  case 0
  then show ?case using assms by simp
next
  case (Suc m)
  show ?case
    by (simp only: walk_loop.simps Let_def) (intro reply_intros Suc.IH)
qed

lemma no_panic_walk_loop:
  assumes "\<And>cur q d ws. no_panic (k cur q d ws)"
  shows "no_panic (walk_loop env body m off cur q d ws k)"
proof (induction m arbitrary: off cur q d ws)
  case 0
  then show ?case using assms by simp
next
  case (Suc m)
  show ?case
    by (simp only: walk_loop.simps Let_def) (intro reply_intros no_panic_need Suc.IH; simp)
qed

lemma handle_message_one_reply:
  "one_reply (\<lambda>bs. \<exists>b. bs = frame (ty + 1) tag b) (handle_message env ty tag body)"
proof -
  have wstat: "one_reply (\<lambda>bs. \<exists>b. bs = frame RWSTAT tag b) (handle_wstat tag body)"
    unfolding handle_wstat_def Let_def
    by (intro reply_intros) (auto split: prod.split option.split intro!: reply_intros)
  have clunk: "one_reply (\<lambda>bs. \<exists>b. bs = frame RCLUNK tag b) (handle_clunk tag body)"
    unfolding handle_clunk_def Let_def
    by (intro reply_intros) (auto split: option.split intro!: reply_intros)
  show ?thesis
    unfolding handle_message_def
    by (intro reply_intros)
      (auto simp: handle_version_def handle_attach_def handle_walk_def handle_open_def
        handle_create_def handle_read_def handle_write_def handle_remove_def handle_stat_def
        handle_flush_def send_chunk_def Let_def intro!: reply_intros one_reply_walk_loop wstat clunk)
qed

lemma handle_message_no_panic:
  assumes "\<not> bad_length ty body"
  shows "no_panic (handle_message env ty tag body)"
proof -
  have wstat: "no_panic (handle_wstat tag body)"
    unfolding handle_wstat_def Let_def
    by (intro reply_intros no_panic_need) (auto split: prod.split option.split intro!: reply_intros)
  have clunk: "no_panic (handle_clunk tag body)"
    unfolding handle_clunk_def Let_def
    by (intro reply_intros no_panic_need) (auto split: option.split intro!: reply_intros)
  have create: "no_panic (handle_create env tag body)"
    unfolding handle_create_def Let_def
    by (intro reply_intros no_panic_need) auto
  show ?thesis
    using assms unfolding handle_message_def bad_length_def
    by (intro reply_intros)
      (auto simp: handle_version_def handle_attach_def handle_walk_def handle_open_def
        handle_read_def handle_write_def handle_remove_def handle_stat_def
        handle_flush_def send_chunk_def Let_def
        intro!: reply_intros no_panic_need no_panic_walk_loop wstat clunk create)
qed

lemma handle_message_bad_length:
  "bad_length ty body \<Longrightarrow> handle_message env ty tag body = Panic"
  by (auto simp: bad_length_def handle_message_def handle_version_def handle_walk_def Let_def
      need_u32_def need_u16_def)

subsection \<open>Frames on the connection\<close>

lemma length_frame [simp, wire_simps]: "length (frame ty tag body) = 7 + length body"
  by (simp add: frame_def)

lemma frame_header:
  assumes "length body \<le> 65536"
  shows "le_nat (sub_bytes (frame ty tag body @ rest) 0 4) = 7 + length body"
    and "(frame ty tag body @ rest) ! 4 = ty"
    and "word_of_nat (le_nat (sub_bytes (frame ty tag body @ rest) 5 7)) = tag"
    and "sub_bytes (frame ty tag body @ rest) 7 (7 + length body) = body"
    and "drop (7 + length body) (frame ty tag body @ rest) = rest"
proof -
  have "unat (word_of_nat (7 + length body) :: u32) = 7 + length body"
    using assms by (intro unat_word32) simp
  then show "le_nat (sub_bytes (frame ty tag body @ rest) 0 4) = 7 + length body"
    by (simp add: frame_def sub_bytes_def del: of_nat_add)
  show "drop (7 + length body) (frame ty tag body @ rest) = rest"
    by (simp only: drop_append length_frame) simp
qed (simp_all add: frame_def sub_bytes_def nth_append)

text \<open>The 9P instance of the framing contract: what a peer frames, \<open>next_message\<close> reads.\<close>

definition msg_fits :: "msg \<Rightarrow> bool" where
  "msg_fits m = (length (snd (snd m)) \<le> 65536)"

interpretation ninep_frames: framing msg_frame next_message msg_fits
proof
  fix m :: msg and rest
  assume "msg_fits m"
  then show "next_message (msg_frame m @ rest) = Some (m, rest)"
    by (cases m) (simp add: msg_fits_def msg_frame_def next_message_def frame_header Let_def)
next
  show "next_message [] = None"
    by (simp add: next_message_def)
qed

lemma run_connection_Nil: "run_connection env [] = Ret ()"
  by (simp add: run_connection.simps ninep_frames.dec_Nil)

lemma run_connection_frame:
  assumes "length body \<le> 65536"
  shows "run_connection env (frame ty tag body @ rest) =
    io_handle (handle_message env ty tag body)
      (\<lambda>_. run_connection env rest)
      (\<lambda>e. io_handle (send_error tag e) (\<lambda>_. run_connection env rest) (\<lambda>_. run_connection env rest))"
  using ninep_frames.dec_enc [of "(ty, tag, body)" rest] assms
  by (subst run_connection.simps) (simp add: msg_fits_def msg_frame_def)

text \<open>One request: one answer, then the connection goes on.\<close>

lemma run_connection_step:
  assumes "length body \<le> 65536" and "\<not> bad_length ty body"
  shows "\<exists>rep s' w'. answers (ty, tag, body) rep \<and>
    (\<forall>rest. run rt (run_connection env (msg_frame (ty, tag, body) @ rest)) s w =
      (let (r, out, s'', w'') = run rt (run_connection env rest) s' w' in
       (r, msg_frame rep @ out, s'', w'')))"
proof -
  obtain r out s' w' where run: "run rt (handle_message env ty tag body) s w = (r, out, s', w')"
    by (metis prod.collapse)
  have "r \<noteq> Panicked"
    using no_panic_run [OF handle_message_no_panic [OF assms(2)]] run by (metis fst_conv)
  then consider (ok) "r = Done ()" | (bad) e where "r = Failed e"
    by (cases r) auto
  then show ?thesis
  proof cases
    case ok
    with one_reply_run [OF handle_message_one_reply run] obtain b where "out = frame (ty + 1) tag b"
      by auto
    with ok run assms(1) show ?thesis
      by (intro exI [of _ "(ty + 1, tag, b)"] exI [of _ s'] exI [of _ w'])
        (auto simp: answers_def msg_frame_def run_connection_frame run_io_handle Let_def
          split: prod.splits)
  next
    case (bad e)
    with one_reply_run [OF handle_message_one_reply run] have "out = []"
      by simp
    with bad run assms(1) show ?thesis
      by (intro exI [of _ "(RERROR, tag, error_body e)"] exI [of _ s'] exI [of _ w'])
        (auto simp: answers_def msg_frame_def run_connection_frame run_io_handle Let_def
          send_error_def send_reply_def split: prod.splits)
  qed
qed

subsection \<open>Properties\<close>

text \<open>
  C12: Replies match requests. Whatever bytes of well-framed requests a peer pipelines on a
  connection, and whatever the router answers, the server writes exactly one reply per
  request, in order, each carrying its request's tag and either the reply type (request
  type plus one) or \<open>Rerror\<close>, and the connection task ends normally. (Requests of the two
  malformed lengths that make a handler panic are excluded; the next property is about them.)
\<close>

theorem ninep_one_reply_per_request:
  assumes "\<forall>(ty, tag, body) \<in> set reqs. length body \<le> 65536 \<and> \<not> bad_length ty body"
  shows "\<exists>reps s' w'.
    run rt (run_connection env (concat (map msg_frame reqs))) s w =
      (Done (), concat (map msg_frame reps), s', w') \<and> list_all2 answers reqs reps"
  using assms
proof (induction reqs arbitrary: s w)
  case Nil
  then show ?case by (simp add: run_connection_Nil)
next
  case (Cons req reqs)
  obtain ty tag body where req: "req = (ty, tag, body)"
    by (cases req)
  with Cons.prems have "length body \<le> 65536" "\<not> bad_length ty body"
    by auto
  then obtain rep s' w' where rep: "answers (ty, tag, body) rep"
    and step: "\<And>rest. run rt (run_connection env (msg_frame (ty, tag, body) @ rest)) s w =
      (let (r, out, s'', w'') = run rt (run_connection env rest) s' w' in
       (r, msg_frame rep @ out, s'', w''))"
    using run_connection_step [of body ty tag rt env s w] by auto
  from Cons.prems Cons.IH [of s' w'] obtain reps s'' w'' where
    "run rt (run_connection env (concat (map msg_frame reqs))) s' w' =
      (Done (), concat (map msg_frame reps), s'', w'')" "list_all2 answers reqs reps"
    by auto
  with rep step req show ?case
    by (intro exI [of _ "rep # reps"]) auto
qed

text \<open>
  C21: When handlers panic. A handler panics, and with it the task of the connection (or the
  whole datagram server), exactly for a \<open>Tversion\<close> body of 5 bytes and a \<open>Twalk\<close> body of 9
  bytes: their length tests admit bodies that their fixed-size slices do not fit. Every
  other message of every type, however malformed, is answered or rejected.
\<close>

theorem ninep_panics_exactly:
  "fst (run rt (handle_message env ty tag body) s w) = Panicked \<longleftrightarrow>
     (ty = TVERSION \<and> length body = 5) \<or> (ty = TWALK \<and> length body = 9)"
proof (cases "bad_length ty body")
  case True
  then show ?thesis
    by (simp add: handle_message_bad_length) (simp add: bad_length_def)
next
  case False
  have "fst (run rt (handle_message env ty tag body) s w) \<noteq> Panicked"
    by (rule no_panic_run [OF handle_message_no_panic [OF False]])
  with False show ?thesis
    by (simp add: bad_length_def)
qed

theorem ninep_one_reply_per_request_witness:
  "\<exists>reps s' w'.
    run (\<lambda>w op p d. (RouterGone, w + 1))
      (run_connection \<lparr>iter_order = id, clock = (\<lambda>_. 0)\<rparr>
        (concat (map msg_frame [(TATTACH, 7, le32 1 @ le32 0), (TSTAT, 8, le32 1), (99, 9, [])])))
      (ninep_new 8192) (0 :: nat) = (Done (), concat (map msg_frame reps), s', w') \<and>
    list_all2 answers [(TATTACH, 7, le32 1 @ le32 0), (TSTAT, 8, le32 1), (99, 9, [])] reps"
  by (rule ninep_one_reply_per_request) (simp add: bad_length_def)

text \<open>
  C2: Concurrent safety of the 9P server. Take a fresh server and any pool of connection
  tasks over any inputs, with connections added at any time, any interleaving at the await
  points and any answers of the router. In every reachable configuration the shared state
  satisfies the invariant: while fewer than \<open>2^64\<close> paths are known the qids are exactly
  \<open>0, 1, 2, ...\<close> in order of allocation (so no two entries share one), every fid refers to
  an allocated qid, and the message size is between 4096 and 65536.
\<close>

theorem ninep_pool_invariant:
  assumes "fair_env env" and "4096 \<le> ms" and "ms \<le> 65536"
    and "pool_reach (range (run_connection env)) (ninep_new ms, []) (s, tasks)"
  shows "ninep_inv s"
  using ninep.pool_reach_keeps [OF assms(4) ninep_new_inv [OF assms(2,3)]]
    rg_run_connection [OF assms(1)] by auto

theorem ninep_pool_invariant_witness:
  "ninep_inv (set_fid 1 0 ''/'' True (ninep_new 8192))"
proof -
  let ?env = "\<lparr>iter_order = id, clock = (\<lambda>_. 0)\<rparr>"
  let ?body = "le32 1 @ le32 0"
  let ?T = "range (run_connection ?env)"
  let ?m = "run_connection ?env (frame TATTACH 7 ?body @ [])"
  have "pool_step ?T (ninep_new 8192, []) (ninep_new 8192, [] @ [?m])"
    by (rule pool_step.spawn) simp
  then have spawned: "pool_reach ?T (ninep_new 8192, []) (ninep_new 8192, [?m])"
    using pool_reach.step [OF pool_reach.start] by simp
  have b: "need_u32 ?body 0 k = k 1" "need_u32 ?body 4 k = k 0" for k :: "u32 \<Rightarrow> unit prog"
    by (simp_all add: need_u32_def sub_bytes_def)
  have "\<exists>c. ?m = Atom (set_fid 1 0 ''/'' True) c"
    by (subst run_connection_frame)
      (simp_all add: handle_message_def handle_attach_def b locked_def)
  then obtain c where m: "?m = Atom (set_fid 1 0 ''/'' True) c" ..
  have "pool_step ?T (ninep_new 8192, [?m])
      (set_fid 1 0 ''/'' True (ninep_new 8192), [?m][0 := c (ninep_new 8192)])"
    by (rule pool_step.atom) (simp_all only: m, simp_all)
  from pool_reach.step [OF spawned this]
  have r: "pool_reach ?T (ninep_new 8192, []) (set_fid 1 0 ''/'' True (ninep_new 8192), [?m][0 := c (ninep_new 8192)])" .
  show ?thesis
    by (rule ninep_pool_invariant [OF _ _ _ r]) (simp_all add: fair_env_def)
qed

end
