(* ===== verification/Ninep_Client.thy ===== *)
theory Ninep_Client
  imports Ninep_Replies
begin

text \<open>
  The synchronous 9P2000 client that Lua handlers use
  (\<open>src/src/frontend/ninep_client.rs\<close>). The socket is a parameter: a record \<open>transport\<close>
  with a blocking \<open>write_all\<close> and \<open>read_exact\<close> over a connection state \<open>'c\<close>, each of which
  may fail with an error text. A client operation maps the client record to an outcome
  (\<open>Ok\<close>, \<open>Err\<close> or a panic of an unchecked slice) and the client record after it. The two
  loops that read or write until the server says so take fuel (\<open>None\<close>: not finished); the
  theory \<open>Ninep_Session\<close> shows how much is enough.
\<close>

abbreviation NOFID :: u32 where "NOFID \<equiv> 0xFFFFFFFF"

record 'c transport =
  tr_write :: "'c \<Rightarrow> bytes \<Rightarrow> (string + unit) \<times> 'c"
  tr_read :: "'c \<Rightarrow> nat \<Rightarrow> (string + bytes) \<times> 'c"

record 'c client =
  cl_conn :: 'c
  cl_msize :: u32
  cl_next_fid :: u32

type_synonym ('c, 'a) client_op = "'c client \<Rightarrow> 'a outcome \<times> 'c client"

subsection \<open>Sequencing\<close>

definition c_ret :: "'a \<Rightarrow> ('c, 'a) client_op" where
  "c_ret x cl = (Done x, cl)"

text \<open>The \<open>?\<close> operator: go on with an \<open>Ok\<close>, stop at an \<open>Err\<close> or a panic.\<close>

definition c_bind :: "('c, 'a) client_op \<Rightarrow> ('a \<Rightarrow> ('c, 'b) client_op) \<Rightarrow> ('c, 'b) client_op" where
  "c_bind m k cl =
     (case m cl of
        (Done x, cl') \<Rightarrow> k x cl'
      | (Failed e, cl') \<Rightarrow> (Failed e, cl')
      | (Panicked, cl') \<Rightarrow> (Panicked, cl'))"

text \<open>\<open>let _ = m;\<close>: the result of \<open>m\<close> is dropped, a panic is not.\<close>

definition c_ignore :: "('c, 'a) client_op \<Rightarrow> ('c, 'b) client_op \<Rightarrow> ('c, 'b) client_op" where
  "c_ignore m k cl =
     (case m cl of (Panicked, cl') \<Rightarrow> (Panicked, cl') | (_, cl') \<Rightarrow> k cl')"

text \<open>\<open>uN::from_le_bytes(bs[a..b].try_into().unwrap())\<close> as a number\<close>

definition c_int :: "bytes \<Rightarrow> nat \<Rightarrow> nat \<Rightarrow> ('c, nat) client_op" where
  "c_int bs a b cl =
     (if b \<le> length bs then (Done (le_nat (sub_bytes bs a b)), cl) else (Panicked, cl))"

definition c_slice :: "bytes \<Rightarrow> nat \<Rightarrow> nat \<Rightarrow> ('c, bytes) client_op" where
  "c_slice bs a b cl =
     (if b \<le> length bs then (Done (sub_bytes bs a b), cl) else (Panicked, cl))"

subsection \<open>Message exchange\<close>

definition c_write :: "'c transport \<Rightarrow> bytes \<Rightarrow> ('c, unit) client_op" where
  "c_write tr bs cl =
     (case tr_write tr (cl_conn cl) bs of
        (Inl e, c) \<Rightarrow> (Failed (''write: '' @ e), cl\<lparr>cl_conn := c\<rparr>)
      | (Inr _, c) \<Rightarrow> (Done (), cl\<lparr>cl_conn := c\<rparr>))"

definition c_read :: "'c transport \<Rightarrow> string \<Rightarrow> nat \<Rightarrow> ('c, bytes) client_op" where
  "c_read tr what n cl =
     (case tr_read tr (cl_conn cl) n of
        (Inl e, c) \<Rightarrow> (Failed (''read '' @ what @ '': '' @ e), cl\<lparr>cl_conn := c\<rparr>)
      | (Inr bs, c) \<Rightarrow> (Done bs, cl\<lparr>cl_conn := c\<rparr>))"

text \<open>
  \<open>let size = 7u32 + body.len() as u32\<close> is \<open>u32\<close> arithmetic. The reply's tag is not looked at.
\<close>

definition client_frame :: "u8 \<Rightarrow> bytes \<Rightarrow> bytes" where
  "client_frame ty body = le32 (7 + word_of_nat (length body)) @ [ty] @ le16 0 @ body"

definition check_reply :: "u8 \<Rightarrow> bytes \<Rightarrow> ('c, bytes) client_op" where
  "check_reply rtype resp =
     (if rtype = RERROR then
        c_bind (c_int resp 0 2) (\<lambda>n.
        c_bind (c_slice resp 2 (2 + n)) (\<lambda>err cl.
          (Failed (''9p error: '' @ from_utf8_lossy err), cl)))
      else c_ret resp)"

definition send_recv :: "'c transport \<Rightarrow> u8 \<Rightarrow> bytes \<Rightarrow> ('c, bytes) client_op" where
  "send_recv tr ty body =
     c_bind (c_write tr (client_frame ty body)) (\<lambda>_.
     c_bind (c_read tr ''header'' 7) (\<lambda>header.
       let body_len = le_nat (sub_bytes header 0 4) - 7 in
       c_bind (if 0 < body_len then c_read tr ''body'' body_len else c_ret []) (\<lambda>resp.
         check_reply (header ! 4) resp)))"

subsection \<open>Protocol operations\<close>

definition version_body :: "u32 \<Rightarrow> bytes" where
  "version_body ms = le32 ms @ le16 6 @ as_bytes ''9P2000''"

definition client_version :: "'c transport \<Rightarrow> ('c, unit) client_op" where
  "client_version tr cl =
     c_bind (send_recv tr TVERSION (version_body (cl_msize cl))) (\<lambda>resp.
     c_bind (c_int resp 0 4) (\<lambda>m cl'.
       (Done (), cl'\<lparr>cl_msize := min (word_of_nat m) 65536\<rparr>))) cl"

definition attach_body :: bytes where
  "attach_body = le32 1 @ le32 NOFID @ le16 0 @ le16 0"

definition client_attach :: "'c transport \<Rightarrow> ('c, unit) client_op" where
  "client_attach tr = c_bind (send_recv tr TATTACH attach_body) (\<lambda>_. c_ret ())"

definition wname :: "string \<Rightarrow> bytes" where
  "wname c = le16 (word_of_nat (length c)) @ as_bytes c"

definition components :: "string \<Rightarrow> string list" where
  "components path =
     filter (\<lambda>s. s \<noteq> [])
       (split_on (CHR ''/'') (trim_start_char (CHR ''/'') (trim_end_char (CHR ''/'') path)))"

definition walk_body :: "u32 \<Rightarrow> u32 \<Rightarrow> string list \<Rightarrow> bytes" where
  "walk_body fid new_fid comps =
     le32 fid @ le32 new_fid @ le16 (word_of_nat (length comps)) @ concat (map wname comps)"

definition client_walk :: "'c transport \<Rightarrow> u32 \<Rightarrow> u32 \<Rightarrow> string \<Rightarrow> ('c, unit) client_op" where
  "client_walk tr fid new_fid path =
     c_bind (send_recv tr TWALK (walk_body fid new_fid (components path))) (\<lambda>resp.
     c_bind (c_int resp 0 2) (\<lambda>nwqid cl.
       if nwqid \<noteq> length (components path)
       then (Failed (''walk failed: reached '' @ show_nat nwqid @ ''/'' @
               show_nat (length (components path)) @ '' components''), cl)
       else (Done (), cl)))"

definition client_open :: "'c transport \<Rightarrow> u32 \<Rightarrow> u8 \<Rightarrow> ('c, unit) client_op" where
  "client_open tr fid mode = c_bind (send_recv tr TOPEN (le32 fid @ [mode])) (\<lambda>_. c_ret ())"

definition create_body :: "u32 \<Rightarrow> string \<Rightarrow> u32 \<Rightarrow> u8 \<Rightarrow> bytes" where
  "create_body fid name perm mode = le32 fid @ wname name @ le32 perm @ [mode]"

definition client_create ::
    "'c transport \<Rightarrow> u32 \<Rightarrow> string \<Rightarrow> u32 \<Rightarrow> u8 \<Rightarrow> ('c, unit) client_op" where
  "client_create tr fid name perm mode =
     c_bind (send_recv tr TCREATE (create_body fid name perm mode)) (\<lambda>_. c_ret ())"

definition client_clunk :: "'c transport \<Rightarrow> u32 \<Rightarrow> ('c, unit) client_op" where
  "client_clunk tr fid = c_bind (send_recv tr TCLUNK (le32 fid)) (\<lambda>_. c_ret ())"

definition remove_fid :: "'c transport \<Rightarrow> u32 \<Rightarrow> ('c, unit) client_op" where
  "remove_fid tr fid = c_bind (send_recv tr TREMOVE (le32 fid)) (\<lambda>_. c_ret ())"

definition alloc_fid :: "('c, u32) client_op" where
  "alloc_fid cl = (Done (cl_next_fid cl), cl\<lparr>cl_next_fid := cl_next_fid cl + 1\<rparr>)"

subsection \<open>Connecting\<close>

datatype conn_kind = Unix | Tcp

text \<open>\<open>dial\<close> stands for \<open>UnixStream::connect\<close> and \<open>TcpStream::connect\<close>.\<close>

definition dial_address ::
    "(conn_kind \<Rightarrow> string \<Rightarrow> string + 'c) \<Rightarrow> string \<Rightarrow> string + 'c" where
  "dial_address dial addr =
     (case strip_prefix ''sock:'' addr of
        Some p \<Rightarrow> (case dial Unix p of
            Inl e \<Rightarrow> Inl (''connect unix '' @ p @ '': '' @ e) | Inr c \<Rightarrow> Inr c)
      | None \<Rightarrow>
          (case strip_prefix ''tcp:'' addr of
             Some h \<Rightarrow> (case dial Tcp h of
                 Inl e \<Rightarrow> Inl (''connect tcp '' @ h @ '': '' @ e) | Inr c \<Rightarrow> Inr c)
           | None \<Rightarrow> (case dial Unix addr of
                 Inl e \<Rightarrow> Inl (''connect '' @ addr @ '': '' @ e) | Inr c \<Rightarrow> Inr c)))"

definition client_connect ::
    "'c transport \<Rightarrow> (conn_kind \<Rightarrow> string \<Rightarrow> string + 'c) \<Rightarrow> string \<Rightarrow> 'c client outcome" where
  "client_connect tr dial addr =
     (case dial_address dial addr of
        Inl e \<Rightarrow> Failed e
      | Inr c \<Rightarrow>
          (case c_bind (client_version tr) (\<lambda>_. client_attach tr)
                  \<lparr>cl_conn = c, cl_msize = 65536, cl_next_fid = 1\<rparr> of
             (Done _, cl) \<Rightarrow> Done (cl\<lparr>cl_next_fid := 4\<rparr>)
           | (Failed e, _) \<Rightarrow> Failed e
           | (Panicked, _) \<Rightarrow> Panicked))"

subsection \<open>Reading and writing files\<close>

definition read_body :: "u32 \<Rightarrow> u64 \<Rightarrow> u32 \<Rightarrow> bytes" where
  "read_body fid offset cnt = le32 fid @ le64 offset @ le32 cnt"

text \<open>The loop that \<open>read_file\<close> and \<open>ls\<close> share: read until an empty reply.\<close>

fun read_loop ::
    "nat \<Rightarrow> 'c transport \<Rightarrow> u32 \<Rightarrow> u64 \<Rightarrow> bytes \<Rightarrow> 'c client \<Rightarrow> (bytes outcome \<times> 'c client) option"
  where
  "read_loop 0 tr fid offset result cl = None"
| "read_loop (Suc fuel) tr fid offset result cl =
     (case c_bind (send_recv tr TREAD (read_body fid offset (cl_msize cl))) (\<lambda>resp.
           c_bind (c_int resp 0 4) (\<lambda>n.
             if n = 0 then c_ret []
             else c_slice resp 4 (4 + n))) cl of
        (Done data, cl') \<Rightarrow>
          if data = [] then Some (Done result, cl')
          else read_loop fuel tr fid (offset + word_of_nat (length data)) (result @ data) cl'
      | (Failed e, cl') \<Rightarrow> Some (Failed e, cl')
      | (Panicked, cl') \<Rightarrow> Some (Panicked, cl'))"

text \<open>The part of \<open>read_file\<close> and \<open>ls\<close> before the loop; \<open>OREAD\<close> is mode 0.\<close>

definition open_path :: "'c transport \<Rightarrow> string \<Rightarrow> u8 \<Rightarrow> ('c, u32) client_op" where
  "open_path tr path mode =
     c_bind alloc_fid (\<lambda>fid.
     c_bind (client_walk tr 1 fid path) (\<lambda>_.
     c_bind (client_open tr fid mode) (\<lambda>_. c_ret fid)))"

definition read_all ::
    "nat \<Rightarrow> 'c transport \<Rightarrow> string \<Rightarrow> 'c client \<Rightarrow> (bytes outcome \<times> 'c client) option" where
  "read_all fuel tr path cl =
     (case open_path tr path 0 cl of
        (Done fid, cl1) \<Rightarrow>
          (case read_loop fuel tr fid 0 [] cl1 of
             None \<Rightarrow> None
           | Some (Done data, cl2) \<Rightarrow> Some (c_ignore (client_clunk tr fid) (c_ret data) cl2)
           | Some (r, cl2) \<Rightarrow> Some (r, cl2))
      | (Failed e, cl1) \<Rightarrow> Some (Failed e, cl1)
      | (Panicked, cl1) \<Rightarrow> Some (Panicked, cl1))"

definition read_file ::
    "nat \<Rightarrow> 'c transport \<Rightarrow> string \<Rightarrow> 'c client \<Rightarrow> (string outcome \<times> 'c client) option" where
  "read_file fuel tr path cl =
     map_option (\<lambda>(r, cl'). (map_outcome from_utf8_lossy r, cl')) (read_all fuel tr path cl)"

text \<open>
  \<open>(data_bytes.len() as u64 - offset).min(self.msize as u64 - 24)\<close> is \<open>u64\<close> arithmetic, which
  wraps in a release build when the message size is below 24.
\<close>

definition chunk_len :: "u32 \<Rightarrow> nat \<Rightarrow> u64 \<Rightarrow> u64" where
  "chunk_len ms tot offset = min (word_of_nat tot - offset) (ucast ms - 24)"

definition write_body :: "u32 \<Rightarrow> u64 \<Rightarrow> bytes \<Rightarrow> bytes" where
  "write_body fid offset chunk =
     le32 fid @ le64 offset @ le32 (word_of_nat (length chunk)) @ chunk"

fun write_loop ::
    "nat \<Rightarrow> 'c transport \<Rightarrow> u32 \<Rightarrow> u64 \<Rightarrow> bytes \<Rightarrow> 'c client \<Rightarrow> (unit outcome \<times> 'c client) option"
  where
  "write_loop 0 tr fid offset data cl = None"
| "write_loop (Suc fuel) tr fid offset data cl =
     (if offset < word_of_nat (length data) then
        let n = chunk_len (cl_msize cl) (length data) offset;
            chunk = sub_bytes data (unat offset) (unat offset + unat n) in
        case send_recv tr TWRITE (write_body fid offset chunk) cl of
          (Done _, cl') \<Rightarrow> write_loop fuel tr fid (offset + n) data cl'
        | (Failed e, cl') \<Rightarrow> Some (Failed e, cl')
        | (Panicked, cl') \<Rightarrow> Some (Panicked, cl')
      else Some (Done (), cl))"

definition write_file ::
    "nat \<Rightarrow> 'c transport \<Rightarrow> string \<Rightarrow> string \<Rightarrow> 'c client \<Rightarrow> (string outcome \<times> 'c client) option"
  where
  "write_file fuel tr path data cl =
     (case open_path tr path 1 cl of
        (Done fid, cl1) \<Rightarrow>
          (case write_loop fuel tr fid 0 (as_bytes data) cl1 of
             None \<Rightarrow> None
           | Some (Done _, cl2) \<Rightarrow> Some (c_ignore (client_clunk tr fid) (c_ret []) cl2)
           | Some (Failed e, cl2) \<Rightarrow> Some (Failed e, cl2)
           | Some (Panicked, cl2) \<Rightarrow> Some (Panicked, cl2))
      | (Failed e, cl1) \<Rightarrow> Some (Failed e, cl1)
      | (Panicked, cl1) \<Rightarrow> Some (Panicked, cl1))"

subsection \<open>Stat and directory listings\<close>

text \<open>
  The fields that \<open>stat\<close> reads from the stat data, at the offsets the source computes: qid
  path at 11, length at 31, name at 39.
\<close>

definition parse_stat :: "bytes \<Rightarrow> ('c, string) client_op" where
  "parse_stat stat_data =
     c_bind (c_int stat_data 11 19) (\<lambda>qid_path.
     c_bind (c_int stat_data 31 39) (\<lambda>len.
     c_bind (c_int stat_data 39 41) (\<lambda>name_len.
     c_bind (c_slice stat_data 41 (41 + name_len)) (\<lambda>name.
       c_ret (from_utf8_lossy name @ [CHR 0x0A] @
              ''  qid path: '' @ show_nat qid_path @ [CHR 0x0A] @
              ''  length: '' @ show_nat len @ [CHR 0x0A])))))"

definition client_stat :: "'c transport \<Rightarrow> string \<Rightarrow> ('c, string) client_op" where
  "client_stat tr path =
     c_bind alloc_fid (\<lambda>fid.
     c_bind (client_walk tr 1 fid path) (\<lambda>_.
     c_bind (send_recv tr TSTAT (le32 fid)) (\<lambda>resp.
     c_bind (c_int resp 0 2) (\<lambda>stat_len.
     c_bind (c_slice resp 2 (2 + stat_len)) (\<lambda>stat_data.
     c_bind (parse_stat stat_data) (\<lambda>out.
       c_ignore (client_clunk tr fid) (c_ret out)))))))"

definition ls_line :: "bool \<Rightarrow> u8 \<Rightarrow> u32 \<Rightarrow> string \<Rightarrow> string" where
  "ls_line long qid_type mode name =
     (if long then (if mode AND DMDIR \<noteq> 0 then ''d'' else ''-'') @ ''-------  '' @ name @ [CHR 0x0A]
      else name @ (if qid_type AND 0x80 \<noteq> 0 then ''/'' else []) @ [CHR 0x0A])"

text \<open>
  The loop over the raw directory data, \<open>None\<close> for a panic of an unchecked slice. The size
  that an entry starts with does not count its own two bytes; the loop advances by that size.
\<close>

function ls_loop :: "bool \<Rightarrow> bytes \<Rightarrow> nat \<Rightarrow> string option" where
  "ls_loop long raw off =
     (if length raw \<le> off then Some []
      else if length raw < off + 2 then None
      else
        let entry_size = le_nat (sub_bytes raw off (off + 2)) in
        if entry_size = 0 \<or> length raw < off + entry_size then Some []
        else
          let start = off + 6;
              name_len = le_nat (sub_bytes raw (start + 33) (start + 35)) in
          if length raw < start + 35 \<or> length raw < start + 35 + name_len then None
          else
            let name = from_utf8_lossy (sub_bytes raw (start + 35) (start + 35 + name_len));
                mode = word_of_nat (le_nat (sub_bytes raw (start + 13) (start + 17))) in
            map_option (\<lambda>rest. ls_line long (raw ! start) mode name @ rest)
              (ls_loop long raw (off + entry_size)))"
  by pat_completeness auto
termination
  by (relation "measure (\<lambda>(long, raw, off). length raw - off)") auto

declare ls_loop.simps [simp del]

definition ls_dir :: "string \<Rightarrow> string" where
  "ls_dir path =
     (let d = trim_end_char (CHR ''/'') path in if d = [] then ''/'' else d)"

definition client_ls ::
    "nat \<Rightarrow> 'c transport \<Rightarrow> string \<Rightarrow> bool \<Rightarrow> 'c client \<Rightarrow> (string outcome \<times> 'c client) option"
  where
  "client_ls fuel tr path long cl =
     map_option (\<lambda>(r, cl').
         (case r of
            Done raw \<Rightarrow> (case ls_loop long raw 0 of None \<Rightarrow> Panicked | Some out \<Rightarrow> Done out)
          | Failed e \<Rightarrow> Failed e
          | Panicked \<Rightarrow> Panicked, cl'))
       (read_all fuel tr (ls_dir path) cl)"

subsection \<open>Creating and removing\<close>

definition split_parent_name :: "string \<Rightarrow> string \<times> string" where
  "split_parent_name path =
     (let trimmed = trim_end_char (CHR ''/'') path in
      case rsplit_once (CHR ''/'') trimmed of
        Some (parent, name) \<Rightarrow> (if parent = [] then ''/'' else parent, name)
      | None \<Rightarrow> (''/'', trimmed))"

definition create_path :: "'c transport \<Rightarrow> string \<Rightarrow> u32 \<Rightarrow> u8 \<Rightarrow> ('c, string) client_op" where
  "create_path tr path perm mode =
     (case split_parent_name path of
        (parent, name) \<Rightarrow>
          c_bind alloc_fid (\<lambda>pfid.
          c_bind (client_walk tr 1 pfid parent) (\<lambda>_.
          c_bind (client_create tr pfid name perm mode) (\<lambda>_.
            c_ignore (client_clunk tr pfid) (c_ret [])))))"

text \<open>\<open>0o755\<close> is \<open>0x1ed\<close>, \<open>0o644\<close> is \<open>0x1a4\<close>.\<close>

definition client_mkdir :: "'c transport \<Rightarrow> string \<Rightarrow> ('c, string) client_op" where
  "client_mkdir tr path = create_path tr path (DMDIR OR 0x1ed) 0"

definition create_file :: "'c transport \<Rightarrow> string \<Rightarrow> ('c, string) client_op" where
  "create_file tr path = create_path tr path 0x1a4 1"

definition client_remove :: "'c transport \<Rightarrow> string \<Rightarrow> ('c, string) client_op" where
  "client_remove tr path =
     c_bind alloc_fid (\<lambda>fid.
     c_bind (client_walk tr 1 fid path) (\<lambda>_.
     c_bind (remove_fid tr fid) (\<lambda>_. c_ret [])))"

end
