(* ===== verification/Ninep_Session.thy ===== *)
theory Ninep_Session
  imports Ninep_Client
begin

text \<open>
  The client of \<open>ninep_client.rs\<close> talking to the server of \<open>ninep.rs\<close>. The transport of the
  client is instantiated with the server's connection loop: a write hands one request to the
  server, which runs until it waits for the next one; a read takes bytes of its output. The
  router behind the server is \<open>log_router ans\<close>, which answers by an arbitrary function of
  all the calls made so far, and records the calls; every deterministic router is of this
  form, and the final log says exactly what the handlers were asked.
\<close>

subsection \<open>The server as a transport\<close>

type_synonym call_log = "(fs_operation \<times> string \<times> bytes) list"

definition log_router ::
    "(call_log \<Rightarrow> fs_operation \<Rightarrow> string \<Rightarrow> bytes \<Rightarrow> router_result) \<Rightarrow> call_log router" where
  "log_router ans calls op p d = (ans calls op p d, calls @ [(op, p, d)])"

record 'w peer =
  pr_shared :: shared
  pr_world :: 'w
  pr_out :: bytes

definition peer_write :: "'w router \<Rightarrow> env \<Rightarrow> 'w peer \<Rightarrow> bytes \<Rightarrow> (string + unit) \<times> 'w peer" where
  "peer_write rt env c bs =
     (case run rt (run_connection env bs) (pr_shared c) (pr_world c) of
        (r, out, s, w) \<Rightarrow> (Inr (), \<lparr>pr_shared = s, pr_world = w, pr_out = pr_out c @ out\<rparr>))"

definition peer_read :: "'w peer \<Rightarrow> nat \<Rightarrow> (string + bytes) \<times> 'w peer" where
  "peer_read c n =
     (if n \<le> length (pr_out c)
      then (Inr (take n (pr_out c)), c\<lparr>pr_out := drop n (pr_out c)\<rparr>)
      else (Inl ''failed to fill whole buffer'', c\<lparr>pr_out := []\<rparr>))"

definition peer_transport :: "'w router \<Rightarrow> env \<Rightarrow> 'w peer transport" where
  "peer_transport rt env = \<lparr>tr_write = peer_write rt env, tr_read = peer_read\<rparr>"

text \<open>A client whose server is between two requests.\<close>

abbreviation idle :: "shared \<Rightarrow> 'w \<Rightarrow> 'w peer" where
  "idle s w \<equiv> \<lparr>pr_shared = s, pr_world = w, pr_out = []\<rparr>"

abbreviation client_at :: "shared \<Rightarrow> 'w \<Rightarrow> u32 \<Rightarrow> u32 \<Rightarrow> 'w peer client" where
  "client_at s w ms nf \<equiv> \<lparr>cl_conn = idle s w, cl_msize = ms, cl_next_fid = nf\<rparr>"

subsection \<open>One exchange\<close>

lemma client_frame_eq: "client_frame ty body = frame ty 0 body"
  by (simp add: client_frame_def frame_def)

lemma c_bind_simps [io_simps]:
  "m cl = (Done x, cl') \<Longrightarrow> c_bind m k cl = k x cl'"
  "m cl = (Failed e, cl') \<Longrightarrow> c_bind m k cl = (Failed e, cl')"
  "m cl = (Panicked, cl') \<Longrightarrow> c_bind m k cl = (Panicked, cl')"
  by (simp_all add: c_bind_def)

lemma c_bind_ret [io_simps]: "c_bind (c_ret x) k = k x"
  by (simp add: c_bind_def c_ret_def fun_eq_iff)

lemma run_connection_one:
  assumes "length body \<le> 65536" and "run rt (handle_message env ty tag body) s w = (r, out, s', w')"
  shows "run rt (run_connection env (frame ty tag body)) s w =
    (case r of
       Done _ \<Rightarrow> (Done (), out, s', w')
     | Failed e \<Rightarrow> (Done (), out @ frame RERROR tag (error_body e), s', w')
     | Panicked \<Rightarrow> (Panicked, out, s', w'))"
  using run_connection_frame [OF assms(1), of env ty tag "[]"] assms(2)
  by (simp add: run_connection_Nil run_io_handle send_error_def send_reply_def
      split: outcome.splits)

lemma frame_split:
  "frame ty tag body = (le32 (word_of_nat (7 + length body)) @ [ty] @ le16 tag) @ body"
  by (simp add: frame_def)

lemma send_recv_output:
  assumes "length body \<le> 65536" and "length rep < 4294967289"
    and "run rt (run_connection env (frame ty 0 body)) s w = (r, frame rty 0 rep, s', w')"
  shows "send_recv (peer_transport rt env) ty body (client_at s w ms nf) =
    check_reply rty rep (client_at s' w' ms nf)"
proof -
  let ?tr = "peer_transport rt env"
  let ?hd = "le32 (word_of_nat (7 + length rep)) @ [rty] @ le16 0"
  let ?mid = "\<lambda>out. \<lparr>cl_conn = \<lparr>pr_shared = s', pr_world = w', pr_out = out\<rparr>,
      cl_msize = ms, cl_next_fid = nf\<rparr>"
  have 1: "c_write ?tr (client_frame ty body) (client_at s w ms nf) = (Done (), ?mid (frame rty 0 rep))"
    using assms(3) by (simp add: c_write_def peer_transport_def peer_write_def client_frame_eq)
  have 2: "c_read ?tr ''header'' 7 (?mid (frame rty 0 rep)) = (Done ?hd, ?mid rep)"
    by (simp add: c_read_def peer_transport_def peer_read_def frame_def)
  have 3: "(if 0 < length rep then c_read ?tr ''body'' (length rep) else c_ret []) (?mid rep) =
      (Done rep, ?mid [])"
    by (auto simp: c_read_def peer_transport_def peer_read_def c_ret_def)
  have 4: "le_nat (sub_bytes ?hd 0 4) - 7 = length rep" "?hd ! 4 = rty"
    using assms(2) by (simp_all add: sub_bytes_def unat_word32 nth_append del: of_nat_add)
  show ?thesis
    unfolding send_recv_def
    by (simp only: c_bind_def 1 2 3 4 Let_def prod.case outcome.case)
qed

lemma send_recv_done:
  assumes "length body \<le> 65536" and "length rep < 4294967289" and "rty \<noteq> RERROR"
    and "run rt (handle_message env ty 0 body) s w = (Done (), frame rty 0 rep, s', w')"
  shows "send_recv (peer_transport rt env) ty body (client_at s w ms nf) =
    (Done rep, client_at s' w' ms nf)"
proof -
  have "run rt (run_connection env (frame ty 0 body)) s w = (Done (), frame rty 0 rep, s', w')"
    using run_connection_one [OF assms(1,4)] by simp
  from send_recv_output [OF assms(1,2) this] assms(3) show ?thesis
    by (simp add: check_reply_def c_ret_def)
qed

text \<open>What a client reads of a server error: the text, cut to 65535 bytes.\<close>

definition cut_error :: "string \<Rightarrow> string" where
  "cut_error e = from_utf8_lossy (take 65535 (as_bytes e))"

lemma check_reply_error:
  "check_reply RERROR (error_body e) cl = (Failed (''9p error: '' @ cut_error e), cl)"
proof -
  have "unat (word_of_nat (min (length e) 65535) :: u16) = min (length e) 65535"
    by (rule unat_word16) simp
  then show ?thesis
    by (simp add: check_reply_def error_body_def Let_def c_bind_def c_int_def c_slice_def
        sub_bytes_def cut_error_def min_def)
qed

lemma length_error_body: "length (error_body e) < 4294967289"
  by (simp add: error_body_def Let_def)

lemma send_recv_failed:
  assumes "length body \<le> 65536"
    and "run rt (handle_message env ty 0 body) s w = (Failed e, [], s', w')"
  shows "send_recv (peer_transport rt env) ty body (client_at s w ms nf) =
    (Failed (''9p error: '' @ cut_error e), client_at s' w' ms nf)"
proof -
  have "run rt (run_connection env (frame ty 0 body)) s w =
      (Done (), frame RERROR 0 (error_body e), s', w')"
    using run_connection_one [OF assms] by simp
  from send_recv_output [OF assms(1) length_error_body this] show ?thesis
    by (simp add: check_reply_error)
qed

subsection \<open>The server parses what the client encodes\<close>

lemma need_here [wire_simps]:
  "need_u16 (le16 a @ rest) 0 k16 = k16 a"
  "need_u32 (le32 b @ rest) 0 k32 = k32 b"
  "need_u64 (le64 c @ rest) 0 k64 = k64 c"
  by (simp_all add: need_u16_def need_u32_def need_u64_def sub_bytes_def)

lemma need_here_end [wire_simps]:
  "need_u16 (le16 a) 0 k16 = k16 a"
  "need_u32 (le32 b) 0 k32 = k32 b"
  using need_here(1) [of a "[]"] need_here(2) [of b "[]"] by simp_all

lemma need_skip [wire_simps]:
  "length xs \<le> off \<Longrightarrow> need_u16 (xs @ ys) off k16 = need_u16 ys (off - length xs) k16"
  "length xs \<le> off \<Longrightarrow> need_u32 (xs @ ys) off k32 = need_u32 ys (off - length xs) k32"
  "length xs \<le> off \<Longrightarrow> need_u64 (xs @ ys) off k64 = need_u64 ys (off - length xs) k64"
  by (auto simp: need_u16_def need_u32_def need_u64_def sub_bytes_def)

lemma run_with_fid [io_simps]:
  "run rt (with_fid fid k) s w =
     (case fids s fid of None \<Rightarrow> (Failed ''unknown fid'', [], s, w) | Some e \<Rightarrow> run rt (k e) s w)"
  by (simp add: with_fid_def run_inspect split: option.split)

lemma run_send_reply [io_simps]:
  "run rt (send_reply ty tag body) s w = (Done (), frame ty tag body, s, w)"
  by (simp add: send_reply_def)

lemma handle_message_simps [simp]:
  "handle_message env TVERSION tag body = handle_version tag body"
  "handle_message env TATTACH tag body = handle_attach tag body"
  "handle_message env TWALK tag body = handle_walk env tag body"
  "handle_message env TOPEN tag body = handle_open tag body"
  "handle_message env TREAD tag body = handle_read env tag body"
  "handle_message env TWRITE tag body = handle_write tag body"
  "handle_message env TCLUNK tag body = handle_clunk tag body"
  "handle_message env TCREATE tag body = handle_create env tag body"
  "handle_message env TREMOVE tag body = handle_remove tag body"
  "handle_message env TSTAT tag body = handle_stat env tag body"
  "handle_message env TWSTAT tag body = handle_wstat tag body"
  "handle_message env TFLUSH tag body = handle_flush tag"
  by (simp_all add: handle_message_def)

definition ok_reply :: "router_result \<Rightarrow> bool" where
  "ok_reply r = (case r of Replied (Inr _) \<Rightarrow> True | _ \<Rightarrow> False)"

lemma run_ask_ok:
  "ok_reply (fst (rt w op p d)) \<Longrightarrow>
   \<exists>resp. fst (rt w op p d) = Replied (Inr resp) \<and>
     run rt (ask op p d what k) s w = run rt (k resp) s (snd (rt w op p d))"
  by (cases "rt w op p d")
    (auto simp: ok_reply_def run_ask split: router_result.splits sum.splits)

lemma run_version:
  "run rt (handle_version tag (version_body ms)) s w =
     (Done (), frame RVERSION tag (le32 (clamp_msize ms) @ le16 6 @ as_bytes ''9P2000''),
      s\<lparr>msize := clamp_msize ms\<rparr>, w)"
  by (simp add: handle_version_def version_body_def wire_simps io_simps Let_def)

lemma run_attach:
  "run rt (handle_attach tag attach_body) s w =
     (Done (), frame RATTACH tag (encode_qid \<lparr>qid_ty = 0x80, qid_version = 0, qid_path = 0\<rparr>),
      set_fid 1 0 ''/'' True s, w)"
  by (simp add: handle_attach_def attach_body_def wire_simps io_simps)

lemma run_open:
  assumes "fids s fid = Some e"
    and "rt w (if fe_is_dir e then OpenDir else Open) (fe_path e) [] = (Replied (Inr resp), w')"
  shows "run rt (handle_open tag (le32 fid @ [mode])) s w =
     (Done (), frame ROPEN tag (encode_qid \<lparr>qid_ty = 0, qid_version = 0, qid_path = 0\<rparr> @ le32 (msize s)),
      modify_fid fid (\<lambda>e. e\<lparr>fe_open := True\<rparr>) s, w')"
  using assms by (simp add: handle_open_def modify_fid_def wire_simps io_simps)

lemma run_read_file:
  assumes "fids s fid = Some e" and "\<not> fe_is_dir e"
    and "rt w Read (fe_path e) [] = (Replied (Inr resp), w')"
  shows "run rt (handle_read env tag (read_body fid offset n)) s w =
     (let chunk = read_chunk offset (resp_data resp) in
      (Done (), frame RREAD tag (le32 (word_of_nat (length chunk)) @ chunk), s, w'))"
  using assms by (simp add: handle_read_def read_body_def send_chunk_def wire_simps io_simps Let_def)

lemma run_write:
  assumes "fids s fid = Some e" and "length chunk < 4294967296"
    and "rt w Write (fe_path e) chunk = (Replied (Inr resp), w')"
  shows "run rt (handle_write tag (write_body fid offset chunk)) s w =
     (Done (), frame RWRITE tag (le32 (word_of_nat (length chunk))), s, w')"
proof -
  have "sub_bytes (write_body fid offset chunk) 16
      (16 + min (unat (word_of_nat (length chunk) :: u32)) (length (write_body fid offset chunk) - 16)) = chunk"
    using assms(2) by (simp add: write_body_def unat_word32 sub_bytes_def)
  with assms show ?thesis
    by (simp add: handle_write_def Let_def)
      (simp add: write_body_def wire_simps io_simps)
qed

lemma run_clunk:
  "run rt (handle_clunk tag (le32 fid)) s w =
     (Done (), frame RCLUNK tag [], s\<lparr>fids := (fids s)(fid := None)\<rparr>,
      (case fids s fid of None \<Rightarrow> w | Some e \<Rightarrow> snd (rt w Release (fe_path e) [])))"
  by (simp add: handle_clunk_def wire_simps io_simps Let_def split: option.split)

subsection \<open>Walking\<close>

text \<open>
  What a walk does to the qid table: one allocation per name, for the paths on the way.
\<close>

fun walk_alloc :: "env \<Rightarrow> string \<Rightarrow> string list \<Rightarrow> shared \<Rightarrow> qid list \<times> shared" where
  "walk_alloc env cur [] s = ([], s)"
| "walk_alloc env cur (c # cs) s =
     (let full = child_path cur c;
          (q, s1) = alloc_qid env full (is_dot_name c) s;
          (qs, s2) = walk_alloc env full cs s1 in
      (\<lparr>qid_ty = dir_type (is_dot_name c), qid_version = 0, qid_path = q\<rparr> # qs, s2))"

definition name_ok :: "string \<Rightarrow> bool" where
  "name_ok c = (length c < 65536 \<and> utf8_ok (as_bytes c))"

lemma length_wname [simp, wire_simps]: "length (wname c) = 2 + length c"
  by (simp add: wname_def)

lemma wname_parse:
  assumes "name_ok c"
  shows "need_u16 (pre @ wname c @ rest) (length pre) k = k (word_of_nat (length c))"
    and "unat (word_of_nat (length c) :: u16) = length c"
    and "from_utf8_lossy (sub_bytes (pre @ wname c @ rest) (length pre + 2) (length pre + 2 + length c)) = c"
  using assms
  by (simp_all add: name_ok_def need_skip wname_def need_here unat_word16 sub_bytes_def
      from_utf8_lossy_as_bytes)

lemma walk_loop_step:
  assumes "name_ok c"
  shows "walk_loop env (pre @ wname c @ rest) (Suc m) (length pre) cur q d wqids k =
    (let full = child_path cur c; d = is_dot_name c;
         next = locked (alloc_qid env full d) (\<lambda>q'.
           walk_loop env ((pre @ wname c) @ rest) m (length (pre @ wname c)) full q' d
             (wqids @ [\<lparr>qid_ty = dir_type d, qid_version = 0, qid_path = q'\<rparr>]) k)
     in if m = 0 then ask Lookup full [] ''lookup'' (\<lambda>_. next) else next)"
proof -
  let ?body = "pre @ wname c @ rest"
  have "\<not> length ?body < length pre + 2" "\<not> length ?body < length pre + 2 + length c"
    and "length (pre @ wname c) = length pre + 2 + length c"
    by simp_all
  then show ?thesis
    by (simp only: walk_loop.simps if_False wname_parse [OF assms] Let_def append_assoc)
qed

lemma walk_alloc_last:
  "cs \<noteq> [] \<Longrightarrow> walk_alloc env cur cs s = (qs, s') \<Longrightarrow> qs \<noteq> []"
  by (cases cs) (auto simp: Let_def split: prod.splits)

lemma run_walk_loop:
  assumes "comps \<noteq> []" and "\<forall>c \<in> set comps. name_ok c"
    and "rt w Lookup (foldl child_path cur comps) [] = (Replied (Inr resp), w')"
  shows "run rt (walk_loop env (pre @ concat (map wname comps)) (length comps) (length pre) cur q d wqids k) s w =
    (case walk_alloc env cur comps s of
       (qs, s') \<Rightarrow> run rt (k (foldl child_path cur comps) (qid_path (last qs))
                       (is_dot_name (last comps)) (wqids @ qs)) s' w')"
  using assms
proof (induction comps arbitrary: pre cur q d wqids s)
  case Nil
  then show ?case by simp
next
  case (Cons c cs)
  let ?full = "child_path cur c"
  obtain q1 s1 where q1: "alloc_qid env ?full (is_dot_name c) s = (q1, s1)"
    by (cases "alloc_qid env ?full (is_dot_name c) s")
  have c: "name_ok c"
    using Cons.prems by simp
  note step = walk_loop_step [OF c, of env pre "concat (map wname cs)" "length cs"]
  show ?case
  proof (cases "cs = []")
    case True
    then show ?thesis
      using Cons.prems(3) q1
      by (simp only: True list.map concat.simps list.size add_Suc_right add_0_right
          walk_loop_step [OF c, of env pre "[]" 0])
        (simp add: io_simps Let_def)
  next
    case False
    with Cons.prems have "\<And>pre q d wqids s.
      run rt (walk_loop env (pre @ concat (map wname cs)) (length cs) (length pre) ?full q d wqids k) s w =
        (case walk_alloc env ?full cs s of
           (qs, s') \<Rightarrow> run rt (k (foldl child_path ?full cs) (qid_path (last qs))
                           (is_dot_name (last cs)) (wqids @ qs)) s' w')"
      by (intro Cons.IH) auto
    note tail = this [of "pre @ wname c"]
    have "run rt (walk_loop env (pre @ concat (map wname (c # cs))) (length (c # cs)) (length pre) cur q d wqids k) s w =
      run rt (walk_loop env ((pre @ wname c) @ concat (map wname cs)) (length cs) (length (pre @ wname c)) ?full
        q1 (is_dot_name c) (wqids @ [\<lparr>qid_ty = dir_type (is_dot_name c), qid_version = 0, qid_path = q1\<rparr>]) k) s1 w"
      using False q1 by (simp only: list.map concat.simps list.size(4) add_Suc_right add_0_right step)
        (simp add: io_simps Let_def)
    then show ?thesis
      using False q1 by (simp only: tail) (auto simp: Let_def dest: walk_alloc_last split: prod.splits)
  qed
qed

definition walked :: "env \<Rightarrow> u32 \<Rightarrow> string \<Rightarrow> string list \<Rightarrow> shared \<Rightarrow> shared" where
  "walked env new_fid cur comps s =
     (case walk_alloc env cur comps s of
        (qs, s') \<Rightarrow> set_fid new_fid (qid_path (last qs)) (foldl child_path cur comps)
                     (is_dot_name (last comps)) s')"

lemma run_walk:
  assumes "fids s fid = Some e" and "comps \<noteq> []" and "\<forall>c \<in> set comps. name_ok c"
    and "length comps < 65536"
    and "rt w Lookup (foldl child_path (fe_path e) comps) [] = (Replied (Inr resp), w')"
  shows "run rt (handle_walk env tag (walk_body fid new_fid comps)) s w =
     (Done (), frame RWALK tag (le16 (word_of_nat (length comps)) @
        concat (map encode_qid (fst (walk_alloc env (fe_path e) comps s)))),
      walked env new_fid (fe_path e) comps s, w')"
proof -
  let ?pre = "le32 fid @ le32 new_fid @ le16 (word_of_nat (length comps))"
  have body: "walk_body fid new_fid comps = ?pre @ concat (map wname comps)"
    by (simp add: walk_body_def)
  have parse: "need_u32 (walk_body fid new_fid comps) 0 k = k fid"
    "need_u32 (walk_body fid new_fid comps) 4 k = k new_fid"
    "need_u16 (walk_body fid new_fid comps) 8 k' = k' (word_of_nat (length comps))"
    "\<not> length (walk_body fid new_fid comps) < 9" for k :: "u32 \<Rightarrow> unit prog" and k' :: "u16 \<Rightarrow> unit prog"
    by (simp_all add: walk_body_def wire_simps)
  have n: "unat (word_of_nat (length comps) :: u16) = length comps"
    using assms(4) by (rule unat_word16)
  have loop: "run rt (walk_loop env (walk_body fid new_fid comps) (length comps) 10 (fe_path e) q d [] k) s w =
    (case walk_alloc env (fe_path e) comps s of
       (qs, s') \<Rightarrow> run rt (k (foldl child_path (fe_path e) comps) (qid_path (last qs))
                       (is_dot_name (last comps)) qs) s' w')" for q d k
    using run_walk_loop [of comps rt w "fe_path e" resp w' env ?pre q d "[]" k s] assms(2,3,5) by (simp add: body)
  show ?thesis
    unfolding handle_walk_def
    by (simp add: parse n io_simps assms(1) loop walked_def split: prod.split)
qed

lemma alloc_qid_frame: "alloc_qid env path d s = (q, s') \<Longrightarrow> fids s' = fids s \<and> msize s' = msize s"
  by (auto simp: alloc_qid_def split: option.splits)

lemma walk_alloc_frame:
  "walk_alloc env cur comps s = (qs, s') \<Longrightarrow>
    fids s' = fids s \<and> msize s' = msize s \<and> length qs = length comps"
  by (induction env cur comps s arbitrary: qs s' rule: walk_alloc.induct)
    (fastforce simp: Let_def dest: alloc_qid_frame split: prod.splits)+

lemma walked_frame:
  "fids (walked env nf cur comps s) = (fids s)(nf \<mapsto>
     \<lparr>fe_qid = qid_path (last (fst (walk_alloc env cur comps s))),
      fe_path = foldl child_path cur comps, fe_open = False, fe_is_dir = is_dot_name (last comps)\<rparr>)"
  "msize (walked env nf cur comps s) = msize s"
  by (auto simp: walked_def set_fid_def dest: walk_alloc_frame split: prod.splits)

subsection \<open>Paths\<close>

definition abs_path :: "string list \<Rightarrow> string" where
  "abs_path comps = ''/'' @ join_with ''/'' comps"

text \<open>The names of a path that fits into one walk message and ends in a proper name.\<close>

definition walkable :: "string list \<Rightarrow> bool" where
  "walkable comps =
     (comps \<noteq> [] \<and> (\<forall>c \<in> set comps. c \<noteq> [] \<and> CHR ''/'' \<notin> set c \<and> utf8_ok (as_bytes c)) \<and>
      \<not> is_dot_name (last comps) \<and> length (concat (map wname comps)) \<le> 65526)"

lemma walkable_names:
  assumes "walkable comps"
  shows "\<forall>c \<in> set comps. name_ok c" and "length comps < 65536"
    and "length (walk_body fid nf comps) \<le> 65536"
proof -
  have sum: "length (concat (map wname comps)) = 2 * length comps + sum_list (map length comps)"
    for comps :: "string list"
    by (induction comps) auto
  then have le: "2 * length comps + sum_list (map length comps) \<le> 65526"
    using assms by (simp add: walkable_def)
  then show "length comps < 65536"
    by simp
  have "length c \<le> sum_list (map length comps)" if "c \<in> set comps" for c
    using that by (simp add: member_le_sum_list)
  with le assms show "\<forall>c \<in> set comps. name_ok c"
    by (fastforce simp: walkable_def name_ok_def)
  show "length (walk_body fid nf comps) \<le> 65536"
    using le by (simp add: walk_body_def sum)
qed

lemma foldl_child_path:
  "cur \<noteq> [] \<Longrightarrow> \<not> ends_with_char (CHR ''/'') cur \<Longrightarrow>
   \<forall>c \<in> set comps. c \<noteq> [] \<and> CHR ''/'' \<notin> set c \<Longrightarrow>
   foldl child_path cur comps = join_with ''/'' (cur # comps)"
proof (induction comps arbitrary: cur)
  case (Cons c cs)
  have "\<not> ends_with_char (CHR ''/'') (cur @ ''/'' @ c)"
    using Cons.prems by (simp add: ends_with_char_def last_neq_notin)
  with Cons.IH [of "cur @ ''/'' @ c"] Cons.prems have
    "foldl child_path (cur @ ''/'' @ c) cs = join_with ''/'' ((cur @ ''/'' @ c) # cs)"
    by simp
  moreover have "child_path cur c = cur @ ''/'' @ c"
    using Cons.prems by (simp add: child_path_def)
  ultimately show ?case
    by (simp add: join_with_merge del: append_Cons)
qed simp

lemma walkable_path:
  assumes "walkable comps"
  shows "foldl child_path ''/'' comps = abs_path comps"
    and "components (abs_path comps) = comps"
proof -
  obtain c cs where comps: "comps = c # cs"
    using assms by (cases comps) (auto simp: walkable_def)
  have ok: "\<forall>x \<in> set comps. x \<noteq> [] \<and> CHR ''/'' \<notin> set x"
    using assms by (simp add: walkable_def)
  then have "last c \<noteq> CHR ''/''"
    using comps by (simp add: last_neq_notin)
  with ok comps have "foldl child_path (''/'' @ c) cs = join_with ''/'' ((''/'' @ c) # cs)"
    by (intro foldl_child_path) (auto simp: ends_with_char_def)
  then show "foldl child_path ''/'' comps = abs_path comps"
    by (cases cs) (simp_all add: comps abs_path_def child_path_def ends_with_char_def)
  have hd: "join_with ''/'' comps \<noteq> []" "hd (join_with ''/'' comps) \<noteq> CHR ''/''"
    using ok comps by (cases cs; cases c; auto)+
  have last: "last (join_with ''/'' comps) \<noteq> CHR ''/''"
    using ok comps(1)
  proof (induction "''/''" comps arbitrary: c cs rule: join_with.induct)
    case (2 w)
    then show ?case by (simp add: last_neq_notin)
  next
    case (3 w v ws)
    have "join_with ''/'' (v # ws) \<noteq> []"
      using "3.prems" by (cases ws) auto
    with 3 show ?case by auto
  qed simp
  have "trim_end_char (CHR ''/'') (abs_path comps) = abs_path comps"
    using hd last by (intro trim_end_char_id) (simp_all add: abs_path_def)
  moreover have "trim_start_char (CHR ''/'') (abs_path comps) = join_with ''/'' comps"
    using hd by (cases "join_with ''/'' comps") (auto simp: trim_start_char_def abs_path_def)
  ultimately show "components (abs_path comps) = comps"
    using ok comps by (simp add: components_def split_on_join del: join_with.simps)
qed

subsection \<open>Client operations against the server\<close>

lemma log_router_ok:
  "ok_reply (ans calls op p d) \<Longrightarrow>
   \<exists>resp. log_router ans calls op p d = (Replied (Inr resp), calls @ [(op, p, d)])"
  by (auto simp: log_router_def ok_reply_def split: router_result.splits sum.splits)

lemma client_walk_ok:
  assumes "walkable comps" and "fids s fid = Some e" and "fe_path e = ''/''"
    and "ok_reply (ans calls Lookup (abs_path comps) [])"
  shows "client_walk (peer_transport (log_router ans) env) fid new_fid (abs_path comps)
      (client_at s calls ms nf) =
    (Done (), client_at (walked env new_fid ''/'' comps s)
                (calls @ [(Lookup, abs_path comps, [])]) ms nf)"
proof -
  note names = walkable_names [OF assms(1)] and path = walkable_path [OF assms(1)]
  obtain resp where "log_router ans calls Lookup (abs_path comps) [] =
      (Replied (Inr resp), calls @ [(Lookup, abs_path comps, [])])"
    using log_router_ok [of ans] assms(4) by blast
  with run_walk [OF assms(2) _ names(1,2), of "log_router ans" calls resp _ env 0 new_fid] assms(1,3) path
  have run: "run (log_router ans) (handle_message env TWALK 0 (walk_body fid new_fid comps)) s calls =
     (Done (), frame RWALK 0 (le16 (word_of_nat (length comps)) @
        concat (map encode_qid (fst (walk_alloc env ''/'' comps s)))),
      walked env new_fid ''/'' comps s, calls @ [(Lookup, abs_path comps, [])])"
    by (simp add: walkable_def)
  have q: "length (concat (map encode_qid qs)) = 13 * length qs" for qs
    by (induction qs) (simp_all add: encode_qid_def)
  have l: "length (fst (walk_alloc env ''/'' comps s)) = length comps"
    using walk_alloc_frame [of env "''/''" comps s] by (cases "walk_alloc env ''/'' comps s") auto
  have sr: "send_recv (peer_transport (log_router ans) env) TWALK (walk_body fid new_fid comps) (client_at s calls ms nf) =
     (Done (le16 (word_of_nat (length comps)) @
        concat (map encode_qid (fst (walk_alloc env ''/'' comps s)))),
      client_at (walked env new_fid ''/'' comps s) (calls @ [(Lookup, abs_path comps, [])]) ms nf)"
    using names(2,3) l by (intro send_recv_done [OF _ _ _ run]) (simp_all add: q)
  show ?thesis
    using names(2)
    by (simp add: client_walk_def path c_bind_def sr c_int_def sub_bytes_def unat_word16)
qed

lemma client_open_ok:
  assumes "fids s fid = Some e" and "\<not> fe_is_dir e" and "ok_reply (ans calls Open (fe_path e) [])"
  shows "client_open (peer_transport (log_router ans) env) fid mode (client_at s calls ms nf) =
    (Done (), client_at (modify_fid fid (\<lambda>e. e\<lparr>fe_open := True\<rparr>) s)
                (calls @ [(Open, fe_path e, [])]) ms nf)"
proof -
  obtain resp where "log_router ans calls Open (fe_path e) [] =
      (Replied (Inr resp), calls @ [(Open, fe_path e, [])])"
    using log_router_ok [of ans] assms(3) by blast
  with run_open [of s fid e "log_router ans" calls resp _ 0 mode] assms(1,2)
  have run: "run (log_router ans) (handle_message env TOPEN 0 (le32 fid @ [mode])) s calls =
     (Done (), frame ROPEN 0 (encode_qid \<lparr>qid_ty = 0, qid_version = 0, qid_path = 0\<rparr> @ le32 (msize s)),
      modify_fid fid (\<lambda>e. e\<lparr>fe_open := True\<rparr>) s, calls @ [(Open, fe_path e, [])])"
    by simp
  have "send_recv (peer_transport (log_router ans) env) TOPEN (le32 fid @ [mode]) (client_at s calls ms nf) =
     (Done (encode_qid \<lparr>qid_ty = 0, qid_version = 0, qid_path = 0\<rparr> @ le32 (msize s)),
      client_at (modify_fid fid (\<lambda>e. e\<lparr>fe_open := True\<rparr>) s) (calls @ [(Open, fe_path e, [])]) ms nf)"
    by (rule send_recv_done [OF _ _ _ run]) (simp_all add: encode_qid_def)
  then show ?thesis
    by (simp add: client_open_def c_bind_def c_ret_def)
qed

lemma client_clunk_ok:
  assumes "fids s fid = Some e"
  shows "client_clunk (peer_transport (log_router ans) env) fid (client_at s calls ms nf) =
    (Done (), client_at (s\<lparr>fids := (fids s)(fid := None)\<rparr>) (calls @ [(Release, fe_path e, [])]) ms nf)"
proof -
  have run: "run (log_router ans) (handle_message env TCLUNK 0 (le32 fid)) s calls =
     (Done (), frame RCLUNK 0 [], s\<lparr>fids := (fids s)(fid := None)\<rparr>, calls @ [(Release, fe_path e, [])])"
    using assms by (simp add: run_clunk log_router_def)
  have "send_recv (peer_transport (log_router ans) env) TCLUNK (le32 fid) (client_at s calls ms nf) =
     (Done [], client_at (s\<lparr>fids := (fids s)(fid := None)\<rparr>) (calls @ [(Release, fe_path e, [])]) ms nf)"
    by (rule send_recv_done [OF _ _ _ run]) simp_all
  then show ?thesis
    by (simp add: client_clunk_def c_bind_def c_ret_def)
qed

text \<open>\<open>open_path\<close>: the walk, the open and the state they leave.\<close>

lemma open_path_ok:
  assumes "walkable comps" and "fids s 1 = Some e" and "fe_path e = ''/''"
    and "\<And>calls. ok_reply (ans calls Lookup (abs_path comps) [])"
    and "\<And>calls. ok_reply (ans calls Open (abs_path comps) [])"
  obtains s' e' where
    "open_path (peer_transport (log_router ans) env) (abs_path comps) mode (client_at s calls ms nf) =
      (Done nf, client_at s' (calls @ [(Lookup, abs_path comps, []), (Open, abs_path comps, [])]) ms (nf + 1))"
    and "fids s' = (fids s)(nf \<mapsto> e')" and "fe_path e' = abs_path comps" and "\<not> fe_is_dir e'"
proof -
  let ?s1 = "walked env nf ''/'' comps s"
  let ?s2 = "modify_fid nf (\<lambda>e. e\<lparr>fe_open := True\<rparr>) ?s1"
  define e1 where "e1 = the (fids ?s1 nf)"
  have e1: "fids ?s1 = (fids s)(nf \<mapsto> e1)" "fe_path e1 = abs_path comps" "\<not> fe_is_dir e1"
    using assms(1) by (simp_all add: e1_def walked_frame walkable_path walkable_def)
  have s2: "fids ?s2 = (fids s)(nf \<mapsto> e1\<lparr>fe_open := True\<rparr>)"
    by (simp add: modify_fid_def e1)
  have w: "client_walk (peer_transport (log_router ans) env) 1 nf (abs_path comps) (client_at s calls ms (nf + 1)) =
      (Done (), client_at ?s1 (calls @ [(Lookup, abs_path comps, [])]) ms (nf + 1))"
    by (rule client_walk_ok [OF assms(1-3)]) (rule assms(4))
  have o: "client_open (peer_transport (log_router ans) env) nf mode
      (client_at ?s1 (calls @ [(Lookup, abs_path comps, [])]) ms (nf + 1)) =
      (Done (), client_at ?s2 ((calls @ [(Lookup, abs_path comps, [])]) @ [(Open, fe_path e1, [])]) ms (nf + 1))"
    using e1 assms(5) by (intro client_open_ok) simp_all
  show thesis
    by (rule that [of ?s2 "e1\<lparr>fe_open := True\<rparr>"])
      (simp_all add: open_path_def c_bind_def alloc_fid_def w o c_ret_def e1 s2)
qed

subsection \<open>Reading a file\<close>

definition serves :: "(call_log \<Rightarrow> fs_operation \<Rightarrow> string \<Rightarrow> bytes \<Rightarrow> router_result) \<Rightarrow> string \<Rightarrow> bytes \<Rightarrow> bool"
  where
  "serves ans p content =
     (\<forall>calls. ok_reply (ans calls Lookup p []) \<and> ok_reply (ans calls Open p []) \<and>
        (\<exists>resp. ans calls Read p [] = Replied (Inr resp) \<and> resp_data resp = content))"

lemma send_recv_read:
  assumes "fids s fid = Some e" and "\<not> fe_is_dir e" and "serves ans (fe_path e) content"
    and "length content < 4294967285"
  shows "send_recv (peer_transport (log_router ans) env) TREAD (read_body fid offset n) (client_at s calls ms nf) =
    (let chunk = read_chunk offset content in
     (Done (le32 (word_of_nat (length chunk)) @ chunk),
      client_at s (calls @ [(Read, fe_path e, [])]) ms nf))"
proof -
  let ?chunk = "read_chunk offset content"
  obtain resp where "log_router ans calls Read (fe_path e) [] =
      (Replied (Inr resp), calls @ [(Read, fe_path e, [])])" and "resp_data resp = content"
    using assms(3) by (auto simp: serves_def log_router_def)
  with run_read_file [OF assms(1,2), of "log_router ans" calls resp _ env 0 offset n]
  have run: "run (log_router ans) (handle_message env TREAD 0 (read_body fid offset n)) s calls =
     (Done (), frame RREAD 0 (le32 (word_of_nat (length ?chunk)) @ ?chunk), s,
      calls @ [(Read, fe_path e, [])])"
    by (simp add: Let_def)
  have "length ?chunk \<le> length content"
    by (simp add: read_chunk_def)
  with assms(4) show ?thesis
    unfolding Let_def by (intro send_recv_done [OF _ _ _ run]) (simp_all add: read_body_def)
qed

lemma read_loop_step:
  assumes "fids s fid = Some e" and "\<not> fe_is_dir e" and "serves ans (fe_path e) content"
    and "length content < 4294967285"
  shows "read_loop (Suc fuel) (peer_transport (log_router ans) env) fid offset result (client_at s calls ms nf) =
    (let chunk = read_chunk offset content; cl' = client_at s (calls @ [(Read, fe_path e, [])]) ms nf in
     if chunk = [] then Some (Done result, cl')
     else read_loop fuel (peer_transport (log_router ans) env) fid (offset + word_of_nat (length chunk))
            (result @ chunk) cl')"
proof -
  let ?chunk = "read_chunk offset content"
  have "length ?chunk < 4294967285"
    using assms(4) by (auto simp: read_chunk_def)
  then have "unat (word_of_nat (length ?chunk) :: u32) = length ?chunk"
    by (intro unat_word32) simp
  then show ?thesis
    by (simp add: send_recv_read [OF assms] Let_def c_bind_def c_int_def c_slice_def c_ret_def
        sub_bytes_def)
qed

text \<open>One read gets everything; a second one, at the end, gets nothing.\<close>

lemma read_loop_file:
  assumes "fids s fid = Some e" and "\<not> fe_is_dir e" and "serves ans (fe_path e) content"
    and "length content < 4294967285" and "2 \<le> fuel"
  shows "read_loop fuel (peer_transport (log_router ans) env) fid 0 [] (client_at s calls ms nf) =
    Some (Done content, client_at s
      (calls @ replicate (if content = [] then 1 else 2) (Read, fe_path e, [])) ms nf)"
proof -
  from assms(5) obtain k where fuel: "fuel = Suc (Suc k)"
    by (metis add_2_eq_Suc le_Suc_ex)
  have "unat (word_of_nat (length content) :: u64) = length content"
    using assms(4) by (intro unat_word64) simp
  then have chunks: "read_chunk 0 content = content"
    "read_chunk (word_of_nat (length content)) content = []"
    by (simp_all add: read_chunk_def)
  show ?thesis
    unfolding fuel by (simp only: read_loop_step [OF assms(1-4)] Let_def chunks) (simp add: chunks numeral_2_eq_2)
qed

subsection \<open>Writing a file\<close>

definition accepts :: "(call_log \<Rightarrow> fs_operation \<Rightarrow> string \<Rightarrow> bytes \<Rightarrow> router_result) \<Rightarrow> string \<Rightarrow> bool"
  where
  "accepts ans p =
     (\<forall>calls. ok_reply (ans calls Lookup p []) \<and> ok_reply (ans calls Open p []) \<and>
        (\<forall>d. ok_reply (ans calls Write p d)))"

lemma send_recv_write:
  assumes "fids s fid = Some e" and "accepts ans (fe_path e)" and "length chunk \<le> 65520"
  shows "send_recv (peer_transport (log_router ans) env) TWRITE (write_body fid offset chunk) (client_at s calls ms nf) =
    (Done (le32 (word_of_nat (length chunk))),
     client_at s (calls @ [(Write, fe_path e, chunk)]) ms nf)"
proof -
  obtain resp where "log_router ans calls Write (fe_path e) chunk =
      (Replied (Inr resp), calls @ [(Write, fe_path e, chunk)])"
    using log_router_ok [of ans calls Write "fe_path e" chunk] assms(2) by (auto simp: accepts_def)
  with run_write [OF assms(1), of chunk "log_router ans" calls resp _ 0 offset] assms(3)
  have run: "run (log_router ans) (handle_message env TWRITE 0 (write_body fid offset chunk)) s calls =
     (Done (), frame RWRITE 0 (le32 (word_of_nat (length chunk))), s,
      calls @ [(Write, fe_path e, chunk)])"
    by simp
  show ?thesis
    using assms(3) by (intro send_recv_done [OF _ _ _ run]) (simp_all add: write_body_def)
qed

text \<open>The chunk arithmetic does not wrap once the message size exceeds the header.\<close>

lemma chunk_len_nat:
  assumes "off \<le> n" and "n < 18446744073709551616" and "24 \<le> ms"
  shows "unat (chunk_len ms n (word_of_nat off)) = min (n - off) (unat ms - 24)"
proof -
  have "unat (word_of_nat n - word_of_nat off :: u64) = n - off"
  proof -
    have "(word_of_nat n - word_of_nat off :: u64) = word_of_nat (n - off)"
      using assms(1) by (simp add: of_nat_diff)
    then show ?thesis
      using assms(2) by (simp add: unat_word64)
  qed
  moreover have "unat (ucast ms - 24 :: u64) = unat ms - 24"
  proof -
    have "(24 :: u64) \<le> ucast ms"
      using assms(3) by (simp add: word_le_nat_alt unat_u32_u64)
    then show ?thesis
      by (simp add: unat_sub unat_u32_u64)
  qed
  ultimately show ?thesis
    by (simp add: chunk_len_def min_def word_le_nat_alt)
qed

lemma write_loop_blocks:
  assumes "fids s fid = Some e" and "accepts ans (fe_path e)"
    and "24 < ms" and "ms \<le> 65536" and "length data < 18446744073709551616"
  shows "off \<le> length data \<Longrightarrow> length (blocks (unat ms - 24) (drop off data)) < fuel \<Longrightarrow>
    write_loop fuel (peer_transport (log_router ans) env) fid (word_of_nat off) data (client_at s calls ms nf) =
    Some (Done (), client_at s
      (calls @ map (\<lambda>b. (Write, fe_path e, b)) (blocks (unat ms - 24) (drop off data))) ms nf)"
proof (induction fuel arbitrary: off calls)
  case 0
  then show ?case by simp
next
  case (Suc fuel)
  let ?n = "unat ms - 24"
  let ?k = "min (length data - off) ?n"
  have n: "0 < ?n" "?n \<le> 65512"
    using assms(3,4) by (simp_all add: word_less_nat_alt word_le_nat_alt)
  have u: "unat (word_of_nat off :: u64) = off" "unat (word_of_nat (length data) :: u64) = length data"
    using Suc.prems(1) assms(5) by (simp_all add: unat_word64)
  have k: "unat (chunk_len ms (length data) (word_of_nat off)) = ?k"
    using Suc.prems(1) assms(3,5) by (intro chunk_len_nat) auto
  then have kw: "chunk_len ms (length data) (word_of_nat off) = word_of_nat ?k"
    by (simp flip: k)
  show ?case
  proof (cases "off < length data")
    case False
    with Suc.prems(1) show ?thesis
      by (simp add: word_less_nat_alt u blocks.simps)
  next
    case True
    let ?chunk = "sub_bytes data off (off + ?k)"
    have chunk: "?chunk = take ?n (drop off data)"
      by (simp add: sub_bytes_def min_def)
    have send: "send_recv (peer_transport (log_router ans) env) TWRITE (write_body fid (word_of_nat off) ?chunk) (client_at s calls ms nf) =
      (Done (le32 (word_of_nat (length ?chunk))), client_at s (calls @ [(Write, fe_path e, ?chunk)]) ms nf)"
      using n(2) by (intro send_recv_write assms(1,2)) (simp add: sub_bytes_def)
    have bl: "blocks ?n (drop off data) = ?chunk # blocks ?n (drop (off + ?k) data)"
    proof -
      have "drop ?n (drop off data) = drop (off + ?k) data"
        by (auto simp: min_def add.commute)
      moreover have "\<not> (?n = 0 \<or> drop off data = [])"
        using True n(1) by simp
      ultimately show ?thesis
        unfolding chunk by (subst blocks.simps) (simp only: if_False)
    qed
    have "write_loop fuel (peer_transport (log_router ans) env) fid (word_of_nat (off + ?k)) data
        (client_at s (calls @ [(Write, fe_path e, ?chunk)]) ms nf) =
      Some (Done (), client_at s ((calls @ [(Write, fe_path e, ?chunk)]) @
        map (\<lambda>b. (Write, fe_path e, b)) (blocks ?n (drop (off + ?k) data))) ms nf)"
      using Suc.prems(2) True by (intro Suc.IH) (auto simp: bl)
    then show ?thesis
      using True by (simp add: word_less_nat_alt u k send Let_def bl) (simp add: kw)
  qed
qed

subsection \<open>Properties\<close>

text \<open>
  Connecting. Whatever state the server is in, \<open>NinepClient::connect\<close> to it succeeds:
  both sides then agree on a message size of 65536, fid 1 of the server is the root
  directory, no handler has been called, and the client hands out fids from 4 on.
\<close>

lemma client_connects:
  assumes "dial_address dial addr = Inr (idle s w)"
  shows "\<exists>s'. client_connect (peer_transport rt env) dial addr = Done (client_at s' w 65536 4) \<and>
    msize s' = 65536 \<and> paths s' = paths s \<and>
    fids s' = (fids s)(1 \<mapsto> \<lparr>fe_qid = 0, fe_path = ''/'', fe_open = False, fe_is_dir = True\<rparr>)"
proof -
  let ?tr = "peer_transport rt env"
  let ?s1 = "s\<lparr>msize := 65536\<rparr>"
  let ?rep = "le32 65536 @ le16 6 @ as_bytes ''9P2000''"
  have v: "send_recv ?tr TVERSION (version_body 65536) (client_at s w 65536 1) =
      (Done ?rep, client_at ?s1 w 65536 1)"
    by (rule send_recv_done [where rty = RVERSION])
      (use run_version [of rt 0 65536 s w] in \<open>simp_all add: clamp_msize_def version_body_def\<close>)
  have "client_version ?tr (client_at s w 65536 1) = (Done (), client_at ?s1 w 65536 1)"
    by (simp add: client_version_def c_bind_def v c_int_def sub_bytes_def)
  moreover have "send_recv ?tr TATTACH attach_body (client_at ?s1 w 65536 1) =
      (Done (encode_qid \<lparr>qid_ty = 0x80, qid_version = 0, qid_path = 0\<rparr>),
       client_at (set_fid 1 0 ''/'' True ?s1) w 65536 1)"
    by (rule send_recv_done [where rty = RATTACH])
      (use run_attach [of rt 0 ?s1 w] in \<open>simp_all add: encode_qid_def attach_body_def\<close>)
  ultimately have "client_connect ?tr dial addr = Done (client_at (set_fid 1 0 ''/'' True ?s1) w 65536 4)"
    by (simp add: client_connect_def assms c_bind_def client_attach_def c_ret_def)
  then show ?thesis
    by (simp add: set_fid_def)
qed

lemma client_reads_file:
  assumes "walkable comps" and "fids s 1 = Some root" and "fe_path root = ''/''"
    and "serves ans (abs_path comps) content" and "length content < 4294967285" and "2 \<le> fuel"
  shows "\<exists>s'. read_file fuel (peer_transport (log_router ans) env) (abs_path comps) (client_at s calls ms nf) =
      Some (Done (from_utf8_lossy content), client_at s'
        (calls @ [(Lookup, abs_path comps, []), (Open, abs_path comps, [])] @
         replicate (if content = [] then 1 else 2) (Read, abs_path comps, []) @
         [(Release, abs_path comps, [])]) ms (nf + 1)) \<and>
    fids s' = (fids s)(nf := None)"
proof -
  let ?tr = "peer_transport (log_router ans) env"
  have ok: "\<And>calls. ok_reply (ans calls Lookup (abs_path comps) [])"
    "\<And>calls. ok_reply (ans calls Open (abs_path comps) [])"
    using assms(4) by (simp_all add: serves_def)
  obtain s1 e where op: "open_path ?tr (abs_path comps) 0 (client_at s calls ms nf) =
      (Done nf, client_at s1 (calls @ [(Lookup, abs_path comps, []), (Open, abs_path comps, [])]) ms (nf + 1))"
    and e: "fids s1 = (fids s)(nf \<mapsto> e)" "fe_path e = abs_path comps" "\<not> fe_is_dir e"
    by (rule open_path_ok [OF assms(1-3), where ans = ans and mode = 0 and env = env and
          calls = calls and ms = ms and nf = nf, OF ok])
  have rd: "read_loop fuel ?tr nf 0 [] (client_at s1 cs ms nf') = Some (Done content, client_at s1
      (cs @ replicate (if content = [] then 1 else 2) (Read, fe_path e, [])) ms nf')" for cs nf'
    using e assms(4-6) by (intro read_loop_file) simp_all
  have cl: "client_clunk ?tr nf (client_at s1 cs ms nf') =
      (Done (), client_at (s1\<lparr>fids := (fids s1)(nf := None)\<rparr>) (cs @ [(Release, fe_path e, [])]) ms nf')"
    for cs nf'
    using e by (intro client_clunk_ok) simp
  show ?thesis
    by (rule exI [of _ "s1\<lparr>fids := (fids s1)(nf := None)\<rparr>"])
      (simp add: read_file_def read_all_def op rd cl c_ignore_def c_ret_def e)
qed

text \<open>
  C1: Reading a file through the client and the server. If the handlers of the path answer
  \<open>lookup\<close> and \<open>open\<close>, and \<open>read\<close> with a fixed content (of any length that a 32-bit frame
  can carry), then \<open>read_file\<close> returns exactly that content after two rounds of its loop,
  the handlers of the path have been called in the order lookup, open, read (twice, once
  for an empty file), release, no other path has been touched, and every fid is as before.
\<close>

theorem ninep_client_reads_file:
  assumes "walkable comps" and "fids s 1 = Some root" and "fe_path root = ''/''"
    and "serves ans (abs_path comps) content" and "length content < 4294967285" and "2 \<le> fuel"
  shows "\<exists>s'. read_file fuel (peer_transport (log_router ans) env) (abs_path comps) (client_at s calls ms nf) =
      Some (Done (from_utf8_lossy content), client_at s'
        (calls @ [(Lookup, abs_path comps, []), (Open, abs_path comps, [])] @
         replicate (if content = [] then 1 else 2) (Read, abs_path comps, []) @
         [(Release, abs_path comps, [])]) ms (nf + 1)) \<and>
    fids s' = (fids s)(nf := None)"
  by (rule client_reads_file [OF assms])

text \<open>
  C3: Writing a file through the client and the server. If the handlers of the path accept
  \<open>lookup\<close>, \<open>open\<close> and every \<open>write\<close>, and the message size is above 24, then \<open>write_file\<close>
  terminates within \<open>length data div (msize - 24) + 2\<close> rounds and the handlers have been
  called with lookup, open, one write per block and release, where the blocks are not
  empty, not longer than the message size minus 24, and concatenate to the data.
\<close>

theorem ninep_client_writes_file:
  assumes "walkable comps" and "fids s 1 = Some root" and "fe_path root = ''/''"
    and "accepts ans (abs_path comps)" and "24 < ms" and "ms \<le> 65536"
    and "length data < 18446744073709551616" and "length data div (unat ms - 24) + 2 \<le> fuel"
  shows "\<exists>s' chunks. write_file fuel (peer_transport (log_router ans) env) (abs_path comps) data (client_at s calls ms nf) =
      Some (Done [], client_at s'
        (calls @ [(Lookup, abs_path comps, []), (Open, abs_path comps, [])] @
         map (\<lambda>b. (Write, abs_path comps, b)) chunks @ [(Release, abs_path comps, [])]) ms (nf + 1)) \<and>
    concat chunks = as_bytes data \<and> (\<forall>b \<in> set chunks. b \<noteq> [] \<and> length b \<le> unat ms - 24) \<and>
    fids s' = (fids s)(nf := None)"
proof -
  let ?tr = "peer_transport (log_router ans) env"
  let ?chunks = "blocks (unat ms - 24) (as_bytes data)"
  have ok: "\<And>calls. ok_reply (ans calls Lookup (abs_path comps) [])"
    "\<And>calls. ok_reply (ans calls Open (abs_path comps) [])"
    using assms(4) by (simp_all add: accepts_def)
  have n: "0 < unat ms - 24"
    using assms(5) by (simp add: word_less_nat_alt)
  obtain s1 e where op: "open_path ?tr (abs_path comps) 1 (client_at s calls ms nf) =
      (Done nf, client_at s1 (calls @ [(Lookup, abs_path comps, []), (Open, abs_path comps, [])]) ms (nf + 1))"
    and e: "fids s1 = (fids s)(nf \<mapsto> e)" "fe_path e = abs_path comps" "\<not> fe_is_dir e"
    by (rule open_path_ok [OF assms(1-3), where ans = ans and mode = 1 and env = env and
          calls = calls and ms = ms and nf = nf, OF ok])
  have wr: "write_loop fuel ?tr nf 0 (as_bytes data) (client_at s1 cs ms nf') =
      Some (Done (), client_at s1 (cs @ map (\<lambda>b. (Write, fe_path e, b)) ?chunks) ms nf')" for cs nf'
    using write_loop_blocks [of s1 nf e ans ms "as_bytes data" 0 fuel env cs nf']
      e assms(4-8) length_blocks [OF n, of "as_bytes data"] by simp
  have cl: "client_clunk ?tr nf (client_at s1 cs ms nf') =
      (Done (), client_at (s1\<lparr>fids := (fids s1)(nf := None)\<rparr>) (cs @ [(Release, fe_path e, [])]) ms nf')"
    for cs nf'
    using e by (intro client_clunk_ok) simp
  show ?thesis
    by (rule exI [of _ "s1\<lparr>fids := (fids s1)(nf := None)\<rparr>"], rule exI [of _ ?chunks])
      (use blocks_bound in \<open>auto simp: write_file_def op wr cl c_ignore_def c_ret_def e concat_blocks [OF n]\<close>)
qed

definition demo_state :: shared where
  "demo_state = set_fid 1 0 ''/'' True (ninep_new 65536)"

definition demo_answers :: "bytes \<Rightarrow> call_log \<Rightarrow> fs_operation \<Rightarrow> string \<Rightarrow> bytes \<Rightarrow> router_result" where
  "demo_answers content calls op p d =
     Replied (Inr \<lparr>resp_data = content, resp_matched_pattern = None, resp_has_children = False\<rparr>)"

lemma walkable_demo:
  "walkable [''etc'', ''motd'']" "walkable [''tmp'', ''x'']" "walkable [''a'']"
proof -
  have "utf8_ok (as_bytes ''etc'')" "utf8_ok (as_bytes ''motd'')" "utf8_ok (as_bytes ''tmp'')"
    "utf8_ok (as_bytes ''x'')" "utf8_ok (as_bytes ''a'')"
    by (rule utf8_ok_ascii, simp add: as_bytes_def byte_of_char_def)+
  then show "walkable [''etc'', ''motd'']" "walkable [''tmp'', ''x'']" "walkable [''a'']"
    by (simp_all add: walkable_def is_dot_name_def)
qed

theorem ninep_client_reads_file_witness:
  "\<exists>s'. read_file 2 (peer_transport (log_router (demo_answers (as_bytes ''hello''))) \<lparr>iter_order = id, clock = (\<lambda>_. 0)\<rparr>)
      (abs_path [''etc'', ''motd'']) (client_at demo_state [] 65536 4) =
      Some (Done (from_utf8_lossy (as_bytes ''hello'')), client_at s'
        ([] @ [(Lookup, abs_path [''etc'', ''motd''], []), (Open, abs_path [''etc'', ''motd''], [])] @
         replicate (if as_bytes ''hello'' = [] then 1 else 2) (Read, abs_path [''etc'', ''motd''], []) @
         [(Release, abs_path [''etc'', ''motd''], [])]) 65536 (4 + 1)) \<and>
    fids s' = (fids demo_state)(4 := None)"
  by (rule ninep_client_reads_file [where root = "\<lparr>fe_qid = 0, fe_path = ''/'', fe_open = False, fe_is_dir = True\<rparr>"])
    (simp_all add: walkable_demo demo_state_def set_fid_def serves_def demo_answers_def ok_reply_def)

theorem ninep_client_writes_file_witness:
  "\<exists>s' chunks. write_file 3 (peer_transport (log_router (demo_answers [])) \<lparr>iter_order = id, clock = (\<lambda>_. 0)\<rparr>)
      (abs_path [''tmp'', ''x'']) ''0123456789'' (client_at demo_state [] 32 4) =
      Some (Done [], client_at s'
        ([] @ [(Lookup, abs_path [''tmp'', ''x''], []), (Open, abs_path [''tmp'', ''x''], [])] @
         map (\<lambda>b. (Write, abs_path [''tmp'', ''x''], b)) chunks @
         [(Release, abs_path [''tmp'', ''x''], [])]) 32 (4 + 1)) \<and>
    concat chunks = as_bytes ''0123456789'' \<and> (\<forall>b \<in> set chunks. b \<noteq> [] \<and> length b \<le> unat (32 :: u32) - 24) \<and>
    fids s' = (fids demo_state)(4 := None)"
  by (rule ninep_client_writes_file [where root = "\<lparr>fe_qid = 0, fe_path = ''/'', fe_open = False, fe_is_dir = True\<rparr>"])
    (simp_all add: walkable_demo demo_state_def set_fid_def accepts_def demo_answers_def ok_reply_def)

text \<open>
  C23: Errors reach the client. Whatever request the client sends, if the server's handler
  rejects it with an error text (an unknown fid, a handler that failed, a missing route),
  then the client's exchange fails with exactly that text behind \<open>9p error: \<close>, provided the
  text is valid UTF-8 of at most 65535 bytes, and the connection stays usable.
\<close>

theorem ninep_errors_reach_client:
  assumes "length body \<le> 65536" and "fst (run rt (handle_message env ty 0 body) s w) = Failed e"
    and "utf8_ok (as_bytes e)" and "length e \<le> 65535"
  shows "\<exists>s' w'. send_recv (peer_transport rt env) ty body (client_at s w ms nf) =
    (Failed (''9p error: '' @ e), client_at s' w' ms nf)"
proof -
  obtain out s' w' where run: "run rt (handle_message env ty 0 body) s w = (Failed e, out, s', w')"
    using assms(2) by (metis fst_conv prod.collapse)
  then have "out = []"
    using one_reply_run [OF handle_message_one_reply run] by simp
  moreover have "cut_error e = e"
    using assms(3,4) by (simp add: cut_error_def from_utf8_lossy_as_bytes)
  ultimately show ?thesis
    using send_recv_failed [OF assms(1)] run by fastforce
qed

theorem ninep_errors_reach_client_witness:
  "\<exists>s' w'. send_recv (peer_transport (log_router (demo_answers [])) \<lparr>iter_order = id, clock = (\<lambda>_. 0)\<rparr>)
      TSTAT (le32 9) (client_at demo_state [] 65536 4) =
    (Failed (''9p error: '' @ ''unknown fid''), client_at s' w' 65536 4)"
  by (rule ninep_errors_reach_client)
    (simp, simp add: handle_stat_def wire_simps io_simps demo_state_def set_fid_def ninep_new_def,
     code_simp, simp)

end
