(* ===== verification/Handle_Table.thy ===== *)
theory Handle_Table
  imports Rust_Strings
begin

text \<open>
  Tables that hand out identifiers: the open-file handles of an SFTP session
  (\<open>HandleState\<close> of \<open>sshfs.rs\<close>), the inode numbers of the FUSE frontend (\<open>ino_next\<close> and
  \<open>paths\<close> of \<open>fuse.rs\<close>) and the database handles of a script (\<open>DbRegistry\<close> of \<open>store.rs\<close>). The locale is the contract the frontends rely on: an identifier is
  never handed out twice, it means what it was handed out for until it is dropped, and
  operations on one identifier leave the others alone. The \<open>room\<close> is the number of
  allocations before the 64-bit counter wraps.
\<close>

datatype ('v, 'h) table_op = Add 'v | Drop 'h

fun table_run ::
    "('v \<Rightarrow> 't \<Rightarrow> 'h \<times> 't) \<Rightarrow> ('h \<Rightarrow> 't \<Rightarrow> 't) \<Rightarrow> ('v, 'h) table_op list \<Rightarrow> 't \<Rightarrow> 'h list \<times> 't" where
  "table_run add rem [] t = ([], t)"
| "table_run add rem (Add v # ops) t =
     (let (h, t1) = add v t; (hs, t2) = table_run add rem ops t1 in (h # hs, t2))"
| "table_run add rem (Drop h # ops) t = table_run add rem ops (rem h t)"

definition adds :: "('v, 'h) table_op list \<Rightarrow> nat" where
  "adds ops = length (filter (\<lambda>op. case op of Add _ \<Rightarrow> True | Drop _ \<Rightarrow> False) ops)"

lemma adds_simps [simp]: "adds [] = 0" "adds (Add v # ops) = Suc (adds ops)" "adds (Drop h # ops) = adds ops"
  by (simp_all add: adds_def)

locale handle_table =
  fixes add :: "'v \<Rightarrow> 't \<Rightarrow> 'h \<times> 't"
    and get :: "'t \<Rightarrow> 'h \<Rightarrow> 'v option"
    and rem :: "'h \<Rightarrow> 't \<Rightarrow> 't"
    and inv :: "'t \<Rightarrow> bool"
    and room :: "'t \<Rightarrow> nat"
    and used :: "'t \<Rightarrow> 'h set"
    and pinned :: "'h \<Rightarrow> bool"
  assumes add_inv: "inv t \<Longrightarrow> 0 < room t \<Longrightarrow> add v t = (h, t') \<Longrightarrow> inv t' \<and> room t = Suc (room t')"
    and add_fresh: "inv t \<Longrightarrow> 0 < room t \<Longrightarrow> add v t = (h, t') \<Longrightarrow> h \<notin> used t \<and> used t' = insert h (used t)"
    and add_get: "inv t \<Longrightarrow> 0 < room t \<Longrightarrow> add v t = (h, t') \<Longrightarrow> get t' = (get t)(h \<mapsto> v)"
    and rem_inv: "inv t \<Longrightarrow> inv (rem h t) \<and> room (rem h t) = room t \<and> used (rem h t) = used t"
    and rem_get: "inv t \<Longrightarrow> get (rem h t) = (if pinned h then get t else (get t)(h := None))"
    and get_used: "inv t \<Longrightarrow> get t h \<noteq> None \<Longrightarrow> h \<in> used t"
begin

lemma add_new: "inv t \<Longrightarrow> 0 < room t \<Longrightarrow> add v t = (h, t') \<Longrightarrow> get t h = None"
  using add_fresh [of t v h t'] get_used [of t h] by (cases "get t h") auto

lemma run_inv:
  "inv t \<Longrightarrow> adds ops \<le> room t \<Longrightarrow> table_run add rem ops t = (hs, t') \<Longrightarrow>
    inv t' \<and> length hs = adds ops \<and> distinct hs \<and> set hs \<inter> used t = {} \<and> used t' = used t \<union> set hs"
proof (induction ops arbitrary: t hs)
  case Nil
  then show ?case by simp
next
  case (Cons op ops)
  show ?case
  proof (cases op)
    case (Drop h)
    with Cons.prems Cons.IH [of "rem h t" hs] rem_inv [of t h] show ?thesis by simp
  next
    case (Add v)
    obtain h t1 where a: "add v t = (h, t1)"
      by (cases "add v t")
    with Cons.prems Add obtain hs1 where r: "table_run add rem ops t1 = (hs1, t')" "hs = h # hs1"
      by (auto split: prod.splits)
    have "0 < room t"
      using Cons.prems Add by simp
    note t1 = add_inv [OF Cons.prems(1) this a] add_fresh [OF Cons.prems(1) this a]
    with Cons.prems Add Cons.IH [of t1 hs1] r show ?thesis
      by auto
  qed
qed

lemma run_room:
  "inv t \<Longrightarrow> adds ops \<le> room t \<Longrightarrow> table_run add rem ops t = (hs, t') \<Longrightarrow> room t = room t' + adds ops"
proof (induction ops arbitrary: t hs)
  case (Cons op ops)
  show ?case
  proof (cases op)
    case (Drop h)
    with Cons.prems Cons.IH [of "rem h t" hs] rem_inv [of t h] show ?thesis by simp
  next
    case (Add v)
    obtain h t1 where a: "add v t = (h, t1)"
      by (cases "add v t")
    with Cons.prems Add obtain hs1 where "table_run add rem ops t1 = (hs1, t')"
      by (auto split: prod.splits)
    with add_inv [OF Cons.prems(1) _ a] Cons.prems Add Cons.IH [of t1 hs1] show ?thesis
      by simp
  qed
qed simp

lemma run_keeps:
  "inv t \<Longrightarrow> adds ops \<le> room t \<Longrightarrow> table_run add rem ops t = (hs, t') \<Longrightarrow>
    get t h = Some v \<Longrightarrow> Drop h \<notin> set ops \<or> pinned h \<Longrightarrow> get t' h = Some v"
proof (induction ops arbitrary: t hs)
  case Nil
  then show ?case by simp
next
  case (Cons op ops)
  show ?case
  proof (cases op)
    case (Drop k)
    then have "get (rem k t) h = Some v"
      using Cons.prems rem_get [of t k] by auto
    with Drop Cons.prems Cons.IH [of "rem k t" hs] rem_inv [of t k] show ?thesis by auto
  next
    case (Add u)
    obtain k t1 where a: "add u t = (k, t1)"
      by (cases "add u t")
    with Cons.prems Add obtain hs1 where r: "table_run add rem ops t1 = (hs1, t')" "hs = k # hs1"
      by (auto split: prod.splits)
    have room: "0 < room t"
      using Cons.prems Add by simp
    have "k \<noteq> h"
      using add_new [OF Cons.prems(1) room a] Cons.prems(4) by auto
    with add_inv [OF Cons.prems(1) room a] add_get [OF Cons.prems(1) room a] Cons Add r show ?thesis
      by auto
  qed
qed

lemma run_adds:
  "inv t \<Longrightarrow> length vs \<le> room t \<Longrightarrow> table_run add rem (map Add vs) t = (hs, t') \<Longrightarrow>
    length hs = length vs \<and> (\<forall>k < length vs. get t' (hs ! k) = Some (vs ! k))"
proof (induction vs arbitrary: t hs)
  case (Cons v vs)
  obtain h t1 where a: "add v t = (h, t1)"
    by (cases "add v t")
  with Cons.prems obtain hs1 where r: "table_run add rem (map Add vs) t1 = (hs1, t')" "hs = h # hs1"
    by (auto split: prod.splits)
  have room: "0 < room t"
    using Cons.prems by simp
  note t1 = add_inv [OF Cons.prems(1) room a] add_get [OF Cons.prems(1) room a]
  have "adds (map Add vs) \<le> room t1"
    using t1 Cons.prems(2) by (simp add: adds_def comp_def)
  with t1 have "get t' h = Some v"
    by (intro run_keeps [OF _ _ r(1), of h v]) auto
  with Cons.IH [of t1 hs1] t1 r Cons.prems(2) show ?case
    by (auto simp: nth_Cons split: nat.split)
qed simp

lemma run_absent:
  "inv t \<Longrightarrow> adds ops \<le> room t \<Longrightarrow> table_run add rem ops t = (hs, t') \<Longrightarrow>
    get t h = None \<Longrightarrow> h \<in> used t \<Longrightarrow> get t' h = None"
proof (induction ops arbitrary: t hs)
  case (Cons op ops)
  show ?case
  proof (cases op)
    case (Drop k)
    then show ?thesis
      using Cons.prems Cons.IH [of "rem k t" hs] rem_inv [of t k] rem_get [of t k] by auto
  next
    case (Add v)
    obtain k t1 where a: "add v t = (k, t1)"
      by (cases "add v t")
    with Cons.prems Add obtain hs1 where r: "table_run add rem ops t1 = (hs1, t')"
      by (auto split: prod.splits)
    have room: "0 < room t"
      using Cons.prems Add by simp
    note t1 = add_inv [OF Cons.prems(1) room a] add_fresh [OF Cons.prems(1) room a]
      add_get [OF Cons.prems(1) room a]
    then have "h \<noteq> k"
      using Cons.prems by auto
    with t1 show ?thesis
      using Cons.IH [of t1 hs1] Cons.prems Add r by simp
  qed
qed simp

text \<open>What the frontends rely on: an identifier keeps its meaning until it is dropped.\<close>

lemma live_until_dropped:
  assumes "inv t" and "Suc (adds ops) \<le> room t" and "add v t = (h, t1)"
    and "table_run add rem ops t1 = (hs, t')" and "Drop h \<notin> set ops"
  shows "get t' h = Some v \<and> h \<notin> set hs"
proof -
  have room: "0 < room t"
    using assms(2) by simp
  note t1 = add_inv [OF assms(1) room assms(3)] add_get [OF assms(1) room assms(3)]
    add_fresh [OF assms(1) room assms(3)]
  then show ?thesis
    using run_keeps [of t1 ops hs t' h v] run_inv [of t1 ops hs t'] assms by auto
qed

end

end
