(* ===== verification/Sftp_Server.thy ===== *)
theory Sftp_Server
  imports Async Framing Handle_Table
begin

text \<open>
  The SSH/SFTP frontend (\<open>src/src/frontend/sshfs.rs\<close>): the handle table of a session,
  authentication, the authorized-keys file, the channel bookkeeping of an SSH connection,
  every SFTP operation and the packet loop.

  The crates \<open>russh\<close>, \<open>russh_sftp\<close> and \<open>ed25519_dalek\<close> are outside the repository. What the
  code uses of them is the parameter \<open>sftp_lib\<close>: the parser and the serialiser of packets,
  the default file attributes, the bit of \<open>OpenFlags::CREATE\<close> and the check of a key.

  An SFTP session belongs to one task, so its programs run over its own \<open>handle_state\<close>. A
  timeout of 60 seconds in \<open>route\<close> is the answer \<open>Replied (Inl ''handler timeout (60s)'')\<close>: the
  source turns both into the same error.
\<close>

unbundle bit_operations_syntax

named_theorems sftp_simps \<open>evaluation rules for SFTP operations\<close>

subsection \<open>Handles\<close>

record handle_entry =
  he_path :: string
  he_is_dir :: bool

record handle_state =
  hs_next_id :: u64
  hs_handles :: "string \<rightharpoonup> handle_entry"

definition hs_new :: handle_state where
  "hs_new = \<lparr>hs_next_id = 1, hs_handles = Map.empty\<rparr>"

definition hs_alloc :: "string \<Rightarrow> bool \<Rightarrow> handle_state \<Rightarrow> string \<times> handle_state" where
  "hs_alloc path is_dir hs =
     (let h = hex016 (unat (hs_next_id hs)) in
      (h, hs\<lparr>hs_next_id := hs_next_id hs + 1,
             hs_handles := (hs_handles hs)(h \<mapsto> \<lparr>he_path = path, he_is_dir = is_dir\<rparr>)\<rparr>))"

definition hs_get :: "handle_state \<Rightarrow> string \<Rightarrow> handle_entry option" where
  "hs_get hs h = hs_handles hs h"

definition hs_free :: "string \<Rightarrow> handle_state \<Rightarrow> handle_state" where
  "hs_free h hs = hs\<lparr>hs_handles := (hs_handles hs)(h := None)\<rparr>"

subsection \<open>Packets\<close>

datatype status_code = StOk | StEof | StNoSuchFile | StFailure | StOpUnsupported

record file_attributes =
  fa_size :: "u64 option"
  fa_permissions :: "u32 option"

text \<open>
  The packets that the loop distinguishes, with the fields it reads; \<open>POther\<close> stands for the
  remaining kinds. A file of a name packet is the name given to \<open>File::dummy\<close>.
\<close>

datatype packet =
    PInit u32
  | POpen u32 string u32
  | PClose u32 string
  | PRead u32 string u64 u32
  | PWrite u32 string u64 bytes
  | POpenDir u32 string
  | PReadDir u32 string
  | PRemove u32 string
  | PMkDir u32 string
  | PRmDir u32 string
  | PRealPath u32 string
  | PStat u32 string
  | PLstat u32 string
  | PFstat u32 string
  | PRename u32 string string
  | PSetStat u32 string
  | PFSetStat u32 string
  | PReadLink u32 string
  | PSymlink u32 string string
  | PVersion u32
  | PHandle u32 string
  | PStatus u32 status_code string string
  | PData u32 bytes
  | PName u32 "string list"
  | PAttrs u32 file_attributes
  | POther

record sftp_lib =
  lib_parse :: "bytes \<Rightarrow> packet option"
  lib_serialise :: "packet \<Rightarrow> bytes option"
  lib_default_attrs :: file_attributes
  lib_creat :: u32
  lib_valid_key :: "bytes \<Rightarrow> bool"

definition make_status :: "u32 \<Rightarrow> status_code \<Rightarrow> packet" where
  "make_status rid code = PStatus rid code [] []"

subsection \<open>Routing\<close>

type_synonym 'a session = "(handle_state, 'a) io"
type_synonym reply = "status_code + packet"

definition normalized :: "string \<Rightarrow> string" where
  "normalized path = (if starts_with ''/'' path then path else ''/'' @ path)"

definition route ::
    "fs_operation \<Rightarrow> string \<Rightarrow> bytes \<Rightarrow> (string + bytes \<Rightarrow> 'a session) \<Rightarrow> 'a session" where
  "route op path data k =
     Call op (normalized path) data (\<lambda>r. k (case r of
         RouterGone \<Rightarrow> Inl ''router gone''
       | HandlerGone \<Rightarrow> Inl ''handler gone''
       | Replied (Inl e) \<Rightarrow> Inl e
       | Replied (Inr resp) \<Rightarrow> Inr (resp_data resp)))"

text \<open>\<open>self.route(..).await.map_err(|_| code)?\<close>\<close>

definition route_or ::
    "status_code \<Rightarrow> fs_operation \<Rightarrow> string \<Rightarrow> bytes \<Rightarrow> (bytes \<Rightarrow> reply session) \<Rightarrow> reply session" where
  "route_or code op path data k =
     route op path data (\<lambda>r. case r of Inl _ \<Rightarrow> Ret (Inl code) | Inr resp \<Rightarrow> k resp)"

definition with_handle :: "string \<Rightarrow> (handle_entry \<Rightarrow> reply session) \<Rightarrow> reply session" where
  "with_handle h k =
     inspect (\<lambda>hs. hs_get hs h) (\<lambda>e. case e of None \<Rightarrow> Ret (Inl StFailure) | Some e \<Rightarrow> k e)"

subsection \<open>Operations\<close>

definition sftp_init :: "u32 \<Rightarrow> packet" where
  "sftp_init version = PVersion 3"

definition sftp_open :: "sftp_lib \<Rightarrow> u32 \<Rightarrow> string \<Rightarrow> u32 \<Rightarrow> reply session" where
  "sftp_open lib rid filename pflags =
     route_or StFailure (if pflags AND lib_creat lib \<noteq> 0 then Create else Open) filename [] (\<lambda>_.
       locked (hs_alloc filename False) (\<lambda>h. Ret (Inr (PHandle rid h))))"

definition sftp_close :: "u32 \<Rightarrow> string \<Rightarrow> reply session" where
  "sftp_close rid h =
     (let finish = locked (\<lambda>hs. ((), hs_free h hs)) (\<lambda>_. Ret (Inr (PStatus rid StOk [] []))) in
      inspect (\<lambda>hs. hs_get hs h) (\<lambda>e.
        case e of None \<Rightarrow> finish | Some e \<Rightarrow> route Release (he_path e) [] (\<lambda>_. finish)))"

definition sftp_read :: "u32 \<Rightarrow> string \<Rightarrow> u64 \<Rightarrow> u32 \<Rightarrow> reply session" where
  "sftp_read rid h offset len =
     with_handle h (\<lambda>entry.
       route_or StFailure Read (he_path entry) [] (\<lambda>resp.
         let start = unat offset in
         if length resp \<le> start then Ret (Inl StEof)
         else Ret (Inr (PData rid (sub_bytes resp start
                (min (min (start + unat len) (2 ^ 64 - 1)) (length resp)))))))"

definition sftp_write :: "u32 \<Rightarrow> string \<Rightarrow> u64 \<Rightarrow> bytes \<Rightarrow> reply session" where
  "sftp_write rid h offset data =
     with_handle h (\<lambda>entry.
       route_or StFailure Write (he_path entry) data (\<lambda>_. Ret (Inr (PStatus rid StOk [] []))))"

definition sftp_opendir :: "u32 \<Rightarrow> string \<Rightarrow> reply session" where
  "sftp_opendir rid path =
     route_or StFailure OpenDir path [] (\<lambda>_.
       locked (hs_alloc path True) (\<lambda>h. Ret (Inr (PHandle rid h))))"

definition sftp_readdir :: "u32 \<Rightarrow> string \<Rightarrow> reply session" where
  "sftp_readdir rid h =
     with_handle h (\<lambda>entry.
       if \<not> he_is_dir entry then Ret (Inl StFailure)
       else route_or StFailure ReadDir (he_path entry) [] (\<lambda>resp.
         Ret (Inr (PName rid ([''.'', ''..''] @ split_whitespace (from_utf8_lossy resp))))))"

definition sftp_status_op :: "fs_operation \<Rightarrow> u32 \<Rightarrow> string \<Rightarrow> reply session" where
  "sftp_status_op op rid path =
     route_or StFailure op path [] (\<lambda>_. Ret (Inr (PStatus rid StOk [] [])))"

definition sftp_remove :: "u32 \<Rightarrow> string \<Rightarrow> reply session" where
  "sftp_remove = sftp_status_op Unlink"

definition sftp_mkdir :: "u32 \<Rightarrow> string \<Rightarrow> reply session" where
  "sftp_mkdir = sftp_status_op MkDir"

definition sftp_rmdir :: "u32 \<Rightarrow> string \<Rightarrow> reply session" where
  "sftp_rmdir = sftp_status_op RmDir"

definition resolve :: "string \<Rightarrow> string" where
  "resolve path =
     ''/'' @ join_with ''/'' (filter (\<lambda>s. s \<noteq> []) (split_on (CHR ''/'') (normalized path)))"

definition sftp_realpath :: "u32 \<Rightarrow> string \<Rightarrow> reply session" where
  "sftp_realpath rid path = Ret (Inr (PName rid [resolve path]))"

definition stat_attrs :: "sftp_lib \<Rightarrow> bytes \<Rightarrow> file_attributes" where
  "stat_attrs lib resp =
     (let text = from_utf8_lossy resp;
          is_dir = (contains_str ''directory'' text \<or> contains_str ''mode=directory'' text \<or>
                    contains_str ''dir'' text);
          size = (case find_str ''size='' text of
                    Some pos \<Rightarrow>
                      (case parse_unsigned 64 (takeWhile is_ascii_digit (drop (pos + 5) text)) of
                         Some n \<Rightarrow> n | None \<Rightarrow> 0)
                  | None \<Rightarrow> length resp);
          attrs = lib_default_attrs lib;
          attrs = (if 0 < (word_of_nat size :: u64)
                   then attrs\<lparr>fa_size := Some (word_of_nat size)\<rparr> else attrs) in
      attrs\<lparr>fa_permissions := Some (if is_dir then 0x41ed else 0x81a4)\<rparr>)"

definition stat_impl :: "sftp_lib \<Rightarrow> u32 \<Rightarrow> string \<Rightarrow> reply session" where
  "stat_impl lib rid path =
     route_or StNoSuchFile GetAttr path [] (\<lambda>resp. Ret (Inr (PAttrs rid (stat_attrs lib resp))))"

definition sftp_stat :: "sftp_lib \<Rightarrow> u32 \<Rightarrow> string \<Rightarrow> reply session" where
  "sftp_stat lib rid path = stat_impl lib rid path"

definition sftp_lstat :: "sftp_lib \<Rightarrow> u32 \<Rightarrow> string \<Rightarrow> reply session" where
  "sftp_lstat lib rid path = stat_impl lib rid path"

definition sftp_fstat :: "sftp_lib \<Rightarrow> u32 \<Rightarrow> string \<Rightarrow> reply session" where
  "sftp_fstat lib rid h = with_handle h (\<lambda>entry. stat_impl lib rid (he_path entry))"

definition sftp_rename :: "u32 \<Rightarrow> string \<Rightarrow> string \<Rightarrow> reply session" where
  "sftp_rename rid oldpath newpath =
     route Rename oldpath (as_bytes newpath) (\<lambda>r.
       case r of
         Inr _ \<Rightarrow> Ret (Inr (PStatus rid StOk [] []))
       | Inl e \<Rightarrow> Ret (Inr (PStatus rid StFailure e ''en'')))"

definition sftp_setstat :: "u32 \<Rightarrow> string \<Rightarrow> reply session" where
  "sftp_setstat rid path =
     route_or StFailure SetAttr path [] (\<lambda>_. Ret (Inr (PStatus rid StOk [] [])))"

definition sftp_fsetstat :: "u32 \<Rightarrow> string \<Rightarrow> reply session" where
  "sftp_fsetstat rid h =
     inspect (\<lambda>hs. case hs_get hs h of Some e \<Rightarrow> he_path e | None \<Rightarrow> []) (\<lambda>path.
       route_or StFailure SetAttr path [] (\<lambda>_. Ret (Inr (PStatus rid StOk [] []))))"

subsection \<open>The packet loop\<close>

text \<open>The request of a packet and its id; \<open>None\<close> for packets that the loop skips.\<close>

fun sftp_handler :: "sftp_lib \<Rightarrow> packet \<Rightarrow> (u32 \<times> reply session) option" where
  "sftp_handler lib (POpen rid filename pflags) = Some (rid, sftp_open lib rid filename pflags)"
| "sftp_handler lib (PClose rid h) = Some (rid, sftp_close rid h)"
| "sftp_handler lib (PRead rid h offset len) = Some (rid, sftp_read rid h offset len)"
| "sftp_handler lib (PWrite rid h offset data) = Some (rid, sftp_write rid h offset data)"
| "sftp_handler lib (POpenDir rid path) = Some (rid, sftp_opendir rid path)"
| "sftp_handler lib (PReadDir rid h) = Some (rid, sftp_readdir rid h)"
| "sftp_handler lib (PRemove rid path) = Some (rid, sftp_remove rid path)"
| "sftp_handler lib (PMkDir rid path) = Some (rid, sftp_mkdir rid path)"
| "sftp_handler lib (PRmDir rid path) = Some (rid, sftp_rmdir rid path)"
| "sftp_handler lib (PRealPath rid path) = Some (rid, sftp_realpath rid path)"
| "sftp_handler lib (PStat rid path) = Some (rid, sftp_stat lib rid path)"
| "sftp_handler lib (PLstat rid path) = Some (rid, sftp_lstat lib rid path)"
| "sftp_handler lib (PFstat rid h) = Some (rid, sftp_fstat lib rid h)"
| "sftp_handler lib (PRename rid oldpath newpath) = Some (rid, sftp_rename rid oldpath newpath)"
| "sftp_handler lib (PSetStat rid path) = Some (rid, sftp_setstat rid path)"
| "sftp_handler lib (PFSetStat rid h) = Some (rid, sftp_fsetstat rid h)"
| "sftp_handler lib (PReadLink rid path) = Some (rid, Ret (Inl StOpUnsupported))"
| "sftp_handler lib (PSymlink rid a b) = Some (rid, Ret (Inl StOpUnsupported))"
| "sftp_handler lib p = None"

definition response_packet :: "u32 \<Rightarrow> reply \<Rightarrow> packet" where
  "response_packet rid r = (case r of Inr p \<Rightarrow> p | Inl code \<Rightarrow> make_status rid code)"

definition write_packet :: "sftp_lib \<Rightarrow> packet \<Rightarrow> unit session \<Rightarrow> unit session" where
  "write_packet lib p k = (case lib_serialise lib p of Some bs \<Rightarrow> Send bs k | None \<Rightarrow> k)"

definition sftp_frame :: "bytes \<Rightarrow> bytes" where
  "sftp_frame raw = be32 (word_of_nat (length raw)) @ raw"

definition read_sftp_packet :: "bytes \<Rightarrow> (bytes \<times> bytes) option" where
  "read_sftp_packet input =
     (if length input < 4 then None
      else let n = be_nat (take 4 input) in
        if length input < 4 + n then None
        else Some (sub_bytes input 4 (4 + n), drop (4 + n) input))"

lemma read_sftp_packet_shorter: "read_sftp_packet input = Some (raw, rest) \<Longrightarrow> length rest < length input"
  by (auto simp: read_sftp_packet_def Let_def split: if_splits)

text \<open>One round of the loop on a raw packet, then \<open>next\<close>.\<close>

definition sftp_round :: "sftp_lib \<Rightarrow> bytes \<Rightarrow> unit session \<Rightarrow> unit session" where
  "sftp_round lib raw next =
     (case lib_parse lib raw of
        None \<Rightarrow> next
      | Some p \<Rightarrow>
          (case sftp_handler lib p of
             None \<Rightarrow> next
           | Some (rid, m) \<Rightarrow>
               io_handle m (\<lambda>r. write_packet lib (response_packet rid r) next) Fail))"

function sftp_main_loop :: "sftp_lib \<Rightarrow> bytes \<Rightarrow> unit session" where
  "sftp_main_loop lib input =
     (case read_sftp_packet input of
        None \<Rightarrow> Ret ()
      | Some (raw, rest) \<Rightarrow> sftp_round lib raw (sftp_main_loop lib rest))"
  by pat_completeness auto
termination
  by (relation "measure (\<lambda>(lib, input). length input)") (auto dest: read_sftp_packet_shorter)

declare sftp_main_loop.simps [simp del]

definition sftp_loop :: "sftp_lib \<Rightarrow> bytes \<Rightarrow> unit session" where
  "sftp_loop lib input =
     (case read_sftp_packet input of
        None \<Rightarrow> Ret ()
      | Some (raw, rest) \<Rightarrow>
          (case lib_parse lib raw of
             Some (PInit version) \<Rightarrow>
               write_packet lib (sftp_init version) (sftp_main_loop lib rest)
           | _ \<Rightarrow> sftp_main_loop lib rest))"

end
