(* ===== verification/Ssh_Auth.thy ===== *)
theory Ssh_Auth
  imports Sftp_Server
begin

text \<open>
  Who may log in over SSH (\<open>src/src/frontend/sshfs.rs\<close>): the base64 decoder, the
  authorized-keys file, the three authentication methods, and the life of a connection
  (\<open>new_client\<close>, channels, the SFTP subsystem). A public key is seen as the 32 bytes of its
  ed25519 point if it has one.
\<close>

subsection \<open>Base64\<close>

definition b64_string :: string where
  "b64_string = ''ABCDEFGHIJKLMNOPQRSTUVWXYZabcdefghijklmnopqrstuvwxyz0123456789+/''"

definition b64_chars :: bytes where
  "b64_chars = as_bytes b64_string"

fun position :: "'a \<Rightarrow> 'a list \<Rightarrow> nat option" where
  "position x [] = None"
| "position x (y # ys) = (if y = x then Some 0 else map_option Suc (position x ys))"

fun b64_loop :: "u32 \<Rightarrow> nat \<Rightarrow> bytes \<Rightarrow> bytes \<Rightarrow> string + bytes" where
  "b64_loop buf bits result [] = Inr result"
| "b64_loop buf bits result (c # cs) =
     (if c = 61 then Inr result
      else case position c b64_chars of
        None \<Rightarrow> Inl ''invalid base64''
      | Some v \<Rightarrow>
          let buf = push_bit 6 buf OR word_of_nat v; bits = bits + 6 in
          if 8 \<le> bits then
            let bits = bits - 8 in
            b64_loop (buf AND (push_bit bits 1 - 1)) bits (result @ [ucast (drop_bit bits buf)]) cs
          else b64_loop buf bits result cs)"

definition simple_base64_decode :: "string \<Rightarrow> string + bytes" where
  "simple_base64_decode input = b64_loop 0 0 [] (as_bytes input)"

subsection \<open>Authorized keys\<close>

definition parse_key_line :: "sftp_lib \<Rightarrow> string \<Rightarrow> bytes option" where
  "parse_key_line lib line =
     (let line = trim line in
      if line = [] \<or> starts_with ''#'' line then None
      else
        let parts = split_whitespace line in
        if length parts < 2 \<or> parts ! 0 \<noteq> ''ssh-ed25519'' then None
        else case simple_base64_decode (parts ! 1) of
            Inl _ \<Rightarrow> None
          | Inr key_bytes \<Rightarrow>
              if length key_bytes = 32 \<and> lib_valid_key lib key_bytes then Some key_bytes else None)"

text \<open>\<open>content\<close> is the result of reading the file at \<open>path\<close>.\<close>

definition load_authorized_keys :: "sftp_lib \<Rightarrow> string \<Rightarrow> string + string \<Rightarrow> string + bytes list" where
  "load_authorized_keys lib path content =
     (case content of
        Inl e \<Rightarrow> Inl (''cannot read '' @ path @ '': '' @ e)
      | Inr text \<Rightarrow> Inr (List.map_filter (parse_key_line lib) (str_lines text)))"

subsection \<open>Server and sessions\<close>

record sshfs_config =
  cfg_password :: "string option"
  cfg_authorized_keys_path :: "string option"
  cfg_userpasswds :: "(string \<times> string) list"
  cfg_max_conns :: "nat option"

text \<open>The semaphore is the number of free permits.\<close>

record ssh_server =
  srv_password :: "string option"
  srv_authorized_keys :: "bytes list"
  srv_userpasswds :: "(string \<times> string) list"
  srv_sem :: "nat option"

record ssh_session =
  ses_password :: "string option"
  ses_authorized_keys :: "bytes list"
  ses_userpasswds :: "(string \<times> string) list"
  ses_channels :: "u32 set"
  ses_permit :: bool

text \<open>The server that \<open>serve\<close> builds; \<open>read\<close> is \<open>std::fs::read_to_string\<close>.\<close>

definition ssh_server_new :: "sftp_lib \<Rightarrow> (string \<Rightarrow> string + string) \<Rightarrow> sshfs_config \<Rightarrow> ssh_server" where
  "ssh_server_new lib read cfg =
     \<lparr>srv_password = cfg_password cfg,
      srv_authorized_keys =
        (case cfg_authorized_keys_path cfg of
           Some path \<Rightarrow> (case load_authorized_keys lib path (read path) of
               Inl _ \<Rightarrow> [] | Inr keys \<Rightarrow> keys)
         | None \<Rightarrow> []),
      srv_userpasswds = cfg_userpasswds cfg,
      srv_sem = cfg_max_conns cfg\<rparr>"

definition new_client :: "ssh_server \<Rightarrow> ssh_session \<times> ssh_server" where
  "new_client srv =
     (let (permit, sem) =
        (case srv_sem srv of
           None \<Rightarrow> (False, None)
         | Some 0 \<Rightarrow> (False, Some 0)
         | Some (Suc n) \<Rightarrow> (True, Some n)) in
      (\<lparr>ses_password = srv_password srv, ses_authorized_keys = srv_authorized_keys srv,
        ses_userpasswds = srv_userpasswds srv, ses_channels = {}, ses_permit = permit\<rparr>,
       srv\<lparr>srv_sem := sem\<rparr>))"

definition auth_none :: "ssh_session \<Rightarrow> string \<Rightarrow> bool" where
  "auth_none ses user = False"

definition auth_password :: "ssh_session \<Rightarrow> string \<Rightarrow> string \<Rightarrow> bool" where
  "auth_password ses user password =
     (let ok = (case ses_password ses of
                  Some expected \<Rightarrow>
                    if password = expected then True
                    else \<exists>(u, p) \<in> set (ses_userpasswds ses). u = user \<and> p = password
                | None \<Rightarrow> \<exists>(u, p) \<in> set (ses_userpasswds ses). u = user \<and> p = password) in
      ok \<or> (ses_password ses = None \<and> ses_userpasswds ses = []))"

definition key_is_trusted :: "ssh_session \<Rightarrow> bytes option \<Rightarrow> bool" where
  "key_is_trusted ses key =
     (case key of None \<Rightarrow> False | Some pub_bytes \<Rightarrow> pub_bytes \<in> set (ses_authorized_keys ses))"

definition auth_publickey_offered :: "ssh_session \<Rightarrow> string \<Rightarrow> bytes option \<Rightarrow> bool" where
  "auth_publickey_offered ses user key = (key_is_trusted ses key \<or> ses_authorized_keys ses = [])"

definition auth_publickey :: "ssh_session \<Rightarrow> string \<Rightarrow> bytes option \<Rightarrow> bool" where
  "auth_publickey ses user key = (key_is_trusted ses key \<or> ses_authorized_keys ses = [])"

definition channel_open_session :: "u32 \<Rightarrow> ssh_session \<Rightarrow> bool \<times> ssh_session" where
  "channel_open_session channel ses = (True, ses\<lparr>ses_channels := insert channel (ses_channels ses)\<rparr>)"

text \<open>
  The state after a subsystem request, and the packet loop it starts on the bytes \<open>input\<close>
  that will arrive on the channel, with a fresh handle table.
\<close>

definition subsystem_request ::
    "sftp_lib \<Rightarrow> u32 \<Rightarrow> string \<Rightarrow> bytes \<Rightarrow> ssh_session \<Rightarrow> (handle_state \<times> unit session) option \<times> ssh_session"
  where
  "subsystem_request lib channel name input ses =
     (if name = ''sftp'' \<and> channel \<in> ses_channels ses
      then (Some (hs_new, sftp_loop lib input), ses\<lparr>ses_channels := ses_channels ses - {channel}\<rparr>)
      else (None, ses))"

definition channel_close :: "u32 \<Rightarrow> ssh_session \<Rightarrow> ssh_session" where
  "channel_close channel ses = ses\<lparr>ses_channels := ses_channels ses - {channel}\<rparr>"

subsection \<open>Reference definitions\<close>

text \<open>Standard base64 without padding.\<close>

definition b64_char :: "nat \<Rightarrow> char" where
  "b64_char v = char_of_byte (b64_chars ! v)"

fun b64_encode :: "bytes \<Rightarrow> string" where
  "b64_encode [] = []"
| "b64_encode [a] = map b64_char [unat a div 4, (unat a mod 4) * 16]"
| "b64_encode [a, b] =
     map b64_char [unat a div 4, (unat a mod 4) * 16 + unat b div 16, (unat b mod 16) * 4]"
| "b64_encode (a # b # c # bs) =
     map b64_char [unat a div 4, (unat a mod 4) * 16 + unat b div 16,
       (unat b mod 16) * 4 + unat c div 64, unat c mod 64] @ b64_encode bs"

text \<open>The key blob of an OpenSSH public key line: the key type, then the point.\<close>

definition openssh_blob :: "bytes \<Rightarrow> bytes" where
  "openssh_blob key = be32 11 @ as_bytes ''ssh-ed25519'' @ be32 32 @ key"

definition key_line :: "bytes \<Rightarrow> string \<Rightarrow> string" where
  "key_line blob comment = ''ssh-ed25519 '' @ b64_encode blob @ '' '' @ comment"

definition key_file :: "string list \<Rightarrow> string" where
  "key_file ls = concat (map (\<lambda>l. l @ [CHR 0x0A]) ls)"

subsection \<open>Lemmas: base64\<close>

lemma length_b64_chars: "length b64_chars = 64"
  by (simp add: b64_chars_def b64_string_def)

lemma position_nth: "distinct xs \<Longrightarrow> v < length xs \<Longrightarrow> position (xs ! v) xs = Some v"
  by (induction xs arbitrary: v) (auto simp: nth_Cons split: nat.splits)

lemma b64_string:
  "distinct b64_string" "CHR ''='' \<notin> set b64_string" "list_all is_graphic b64_string"
  by (simp_all add: b64_string_def is_graphic_def)

lemma length_b64_string: "length b64_string = 64"
  by (simp add: b64_string_def)

lemma b64_char_nth: "v < 64 \<Longrightarrow> b64_char v = b64_string ! v"
  by (simp add: b64_char_def b64_chars_def as_bytes_def length_b64_string)

lemma b64_char:
  assumes "v < 64"
  shows "position (byte_of_char (b64_char v)) b64_chars = Some v"
    and "byte_of_char (b64_char v) \<noteq> 61" and "is_graphic (b64_char v)"
proof -
  have inj: "inj byte_of_char"
    by (metis char_of_byte_of_char injI)
  have "distinct b64_chars"
    using b64_string(1) inj by (simp add: b64_chars_def as_bytes_def distinct_map inj_on_def)
  then show "position (byte_of_char (b64_char v)) b64_chars = Some v"
    using assms by (simp add: b64_char_def position_nth length_b64_chars)
  have mem: "b64_char v \<in> set b64_string"
    using assms by (simp add: b64_char_nth length_b64_string)
  then show "is_graphic (b64_char v)"
    using b64_string(3) by (simp add: list_all_iff)
  have "byte_of_char (CHR ''='') = 61"
    by (simp add: byte_of_char_def)
  then show "byte_of_char (b64_char v) \<noteq> 61"
    using mem b64_string(2) inj by (metis injD)
qed

text \<open>The bit operations of one round as arithmetic on the value of the buffer.\<close>

lemma nat_or_shifted:
  fixes v :: nat
  assumes "v < 2 ^ k"
  shows "or (push_bit k n) v = n * 2 ^ k + v"
proof -
  have "\<not> bit v i" if "k \<le> i" for i
    using assms that by (metis bit_take_bit_iff leD take_bit_nat_eq_self)
  then have "and (push_bit k n) v = 0"
    by (auto simp: bit_eq_iff bit_and_iff bit_push_bit_iff)
  from disjunctive_add_eq_or [OF this] show ?thesis
    by (simp add: push_bit_eq_mult)
qed

lemma b64_shift_in:
  "v < 64 \<Longrightarrow> push_bit 6 (word_of_nat n :: u32) OR word_of_nat v = word_of_nat (n * 64 + v)"
  using nat_or_shifted [of v 6 n] by (simp flip: of_nat_push_bit of_nat_or_eq)

lemma b64_mask: "(word_of_nat m :: u32) AND (push_bit k 1 - 1) = word_of_nat (m mod 2 ^ k)"
proof -
  have "(word_of_nat m :: u32) AND (push_bit k 1 - 1) = take_bit k (word_of_nat m)"
    by (simp add: take_bit_eq_mask mask_eq_exp_minus_1 push_bit_eq_mult)
  then show ?thesis
    by (simp flip: of_nat_take_bit take_bit_eq_mod)
qed

lemma b64_take_byte:
  assumes "m < 4294967296"
  shows "(ucast (drop_bit k (word_of_nat m :: u32)) :: u8) = word_of_nat (m div 2 ^ k)"
proof -
  have "unat (drop_bit k (word_of_nat m :: u32)) = m div 2 ^ k"
    using assms by (simp only: unsigned_drop_bit_eq unat_word32) (simp add: drop_bit_eq_div take_bit_nat_eq_self)
  then have "word_of_nat (unat (drop_bit k (word_of_nat m :: u32))) = (word_of_nat (m div 2 ^ k) :: u8)"
    by simp
  then show ?thesis
    by (simp only: of_nat_unat)
qed

lemma b64_step:
  assumes "v < 64" and "n < 64"
  shows "b64_loop (word_of_nat n) bits res (byte_of_char (b64_char v) # cs) =
    (let m = n * 64 + v; k = bits - 2 in
     if 2 \<le> bits then b64_loop (word_of_nat (m mod 2 ^ k)) k (res @ [word_of_nat (m div 2 ^ k)]) cs
     else b64_loop (word_of_nat m) (bits + 6) res cs)"
proof -
  have "n * 64 + v < 4294967296"
    using assms by simp
  note m = b64_take_byte [OF this] b64_mask [of "n * 64 + v"] b64_shift_in [OF assms(1), of n]
  have k: "bits + 6 - 8 = bits - 2" "8 \<le> bits + 6 \<longleftrightarrow> 2 \<le> bits"
    by auto
  show ?thesis
    using b64_char [OF assms(1)] by (simp only: b64_loop.simps if_False option.case Let_def k m)
qed

lemma b64_join:
  fixes a z :: nat
  shows "a div 4 * 64 + (a mod 4 * 16 + z) = 16 * a + z"
    and "a div 16 * 64 + (a mod 16 * 4 + z) = 4 * a + z"
    and "a div 64 * 64 + a mod 64 = a"
  using mult_div_mod_eq [of 4 a] mult_div_mod_eq [of 16 a] mult_div_mod_eq [of 64 a] by linarith+

lemma b64_bounds:
  fixes a b c :: u8
  shows "unat a div 4 < 64" and "unat a mod 4 * 16 + unat b div 16 < 64"
    and "unat b mod 16 * 4 + unat c div 64 < 64" and "unat b div 16 < 16" and "unat c div 64 < 4"
    and "unat a mod 4 * 16 < 64" and "unat b mod 16 * 4 < 64"
proof -
  have u: "unat a < 256" "unat b < 256" "unat c < 256"
    by (rule unat_byte_lt)+
  then show d: "unat a div 4 < 64" "unat b div 16 < 16" "unat c div 64 < 4"
    by (simp_all add: less_mult_imp_div_less)
  have "unat a mod 4 \<le> 3" "unat b mod 16 \<le> 15"
    by (simp_all add: less_Suc_eq_le [symmetric])
  with d show "unat a mod 4 * 16 + unat b div 16 < 64" "unat b mod 16 * 4 + unat c div 64 < 64"
    "unat a mod 4 * 16 < 64" "unat b mod 16 * 4 < 64"
    by linarith+
qed

lemma b64_first:
  assumes "v < 64"
  shows "b64_loop 0 0 res (byte_of_char (b64_char v) # cs) = b64_loop (word_of_nat v) 6 res cs"
  using b64_step [OF assms, of 0 0] by (simp del: b64_loop.simps)

lemma b64_second:
  assumes "z < 16"
  shows "b64_loop (word_of_nat (unat a div 4)) 6 res (byte_of_char (b64_char (unat a mod 4 * 16 + z)) # cs) =
    b64_loop (word_of_nat z) 4 (res @ [a]) cs"
proof -
  have "unat a mod 4 \<le> 3"
    by (simp add: less_Suc_eq_le [symmetric])
  with assms have "unat a mod 4 * 16 + z < 64"
    by linarith
  from b64_step [OF this b64_bounds(1) [of a], of 6] assms show ?thesis
    by (simp add: b64_join del: b64_loop.simps)
qed

lemma b64_third:
  assumes "z < 4"
  shows "b64_loop (word_of_nat (unat b div 16)) 4 res (byte_of_char (b64_char (unat b mod 16 * 4 + z)) # cs) =
    b64_loop (word_of_nat z) 2 (res @ [b]) cs"
proof -
  have "unat b mod 16 \<le> 15"
    by (simp add: less_Suc_eq_le [symmetric])
  with assms have 1: "unat b mod 16 * 4 + z < 64"
    by linarith
  have "unat b div 16 < 64"
    using b64_bounds(4) [of b] by simp
  from b64_step [OF 1 this, of 4] assms show ?thesis
    by (simp add: b64_join del: b64_loop.simps)
qed

lemma b64_fourth:
  "b64_loop (word_of_nat (unat c div 64)) 2 res (byte_of_char (b64_char (unat c mod 64)) # cs) =
    b64_loop 0 0 (res @ [c]) cs"
  using b64_step [of "unat c mod 64" "unat c div 64" 2] b64_bounds(5) [of c]
  by (simp add: b64_join del: b64_loop.simps)

lemma b64_loop_encode: "b64_loop 0 0 res (as_bytes (b64_encode bs)) = Inr (res @ bs)"
proof (induction bs arbitrary: res rule: b64_encode.induct)
  case 1
  then show ?case by (simp add: as_bytes_def)
next
  case (2 a)
  then show ?case
    using b64_second [of 0 a]
    by (simp add: as_bytes_def b64_first b64_bounds del: b64_loop.simps(2))
next
  case (3 a b)
  then show ?case
    using b64_third [of 0 b]
    by (simp add: as_bytes_def b64_first b64_second b64_bounds del: b64_loop.simps(2))
next
  case (4 a b c bs)
  then show ?case
    by (simp add: as_bytes_def b64_first b64_second b64_third b64_fourth b64_bounds del: b64_loop.simps(2))
qed

lemma simple_base64_decode_encode: "simple_base64_decode (b64_encode bs) = Inr bs"
  using b64_loop_encode [of "[]" bs] by (simp add: simple_base64_decode_def)

lemma b64_encode_graphic: "c \<in> set (b64_encode bs) \<Longrightarrow> is_graphic c"
  by (induction bs rule: b64_encode.induct) (auto intro!: b64_char(3) b64_bounds)

lemma b64_encode_Nil_iff: "b64_encode bs = [] \<longleftrightarrow> bs = []"
  by (cases bs rule: b64_encode.cases) auto

subsection \<open>Lemmas: key lines\<close>

definition comment_ok :: "string \<Rightarrow> bool" where
  "comment_ok comment = (comment \<noteq> [] \<and> is_graphic (last comment) \<and> CHR 0x0A \<notin> set comment)"

lemma graphic_facts:
  "\<not> is_graphic (CHR 0x0A)" "\<not> is_graphic (CHR 0x0D)" "is_graphic (CHR ''s'')"
  "\<forall>c \<in> set ''ssh-ed25519''. is_graphic c"
  by (simp_all add: is_graphic_def)

lemma parse_key_line:
  assumes "blob \<noteq> []" and "comment_ok comment"
  shows "parse_key_line lib (key_line blob comment) =
    (if length blob = 32 \<and> lib_valid_key lib blob then Some blob else None)"
proof -
  have "trim (key_line blob comment) = key_line blob comment"
    using assms(2) by (intro trim_graphic) (simp_all add: key_line_def comment_ok_def graphic_facts)
  moreover have "split_whitespace (key_line blob comment) =
      ''ssh-ed25519'' # b64_encode blob # split_whitespace comment"
  proof -
    have "split_whitespace (''ssh-ed25519'' @ '' '' @ b64_encode blob @ '' '' @ comment) =
        ''ssh-ed25519'' # split_whitespace (b64_encode blob @ '' '' @ comment)"
      by (rule split_whitespace_word) (simp, rule graphic_facts(4))
    also have "split_whitespace (b64_encode blob @ '' '' @ comment) = b64_encode blob # split_whitespace comment"
      using assms(1) by (intro split_whitespace_word) (auto simp: b64_encode_Nil_iff b64_encode_graphic)
    finally show ?thesis
      by (simp add: key_line_def)
  qed
  moreover have "key_line blob comment \<noteq> []" "\<not> starts_with ''#'' (key_line blob comment)"
    by (simp_all add: key_line_def starts_with_def)
  ultimately show ?thesis
    by (simp add: parse_key_line_def simple_base64_decode_encode Let_def)
qed

lemma key_line_is_line:
  assumes "comment_ok comment"
  shows "CHR 0x0A \<notin> set (key_line blob comment) \<and> \<not> ends_with_char (CHR 0x0D) (key_line blob comment)"
proof -
  have "CHR 0x0A \<notin> set (b64_encode blob)"
    using b64_encode_graphic graphic_facts(1) by blast
  moreover have "last comment \<noteq> CHR 0x0D"
    using assms graphic_facts(2) by (metis comment_ok_def)
  ultimately show ?thesis
    using assms by (simp add: key_line_def comment_ok_def ends_with_char_def)
qed

lemma load_key_file:
  assumes "\<forall>(blob, comment) \<in> set ls. blob \<noteq> [] \<and> comment_ok comment"
  shows "load_authorized_keys lib path (Inr (key_file (map (\<lambda>(blob, comment). key_line blob comment) ls))) =
    Inr (filter (\<lambda>blob. length blob = 32 \<and> lib_valid_key lib blob) (map fst ls))"
proof -
  have "str_lines (key_file (map (\<lambda>(blob, comment). key_line blob comment) ls)) =
      map (\<lambda>(blob, comment). key_line blob comment) ls"
    unfolding key_file_def using assms key_line_is_line by (intro str_lines_concat) fastforce
  moreover have "List.map_filter (parse_key_line lib) (map (\<lambda>(blob, comment). key_line blob comment) ls) =
      filter (\<lambda>blob. length blob = 32 \<and> lib_valid_key lib blob) (map fst ls)"
    using assms by (induction ls) (auto simp: map_filter_simps parse_key_line)
  ultimately show ?thesis
    by (simp add: load_authorized_keys_def)
qed

text \<open>A library and a configuration to evaluate the properties with.\<close>

definition demo_lib :: sftp_lib where
  "demo_lib = \<lparr>lib_parse = (\<lambda>_. None), lib_serialise = (\<lambda>_. None),
     lib_default_attrs = \<lparr>fa_size = None, fa_permissions = None\<rparr>, lib_creat = 8,
     lib_valid_key = (\<lambda>_. True)\<rparr>"

definition demo_config :: "string option \<Rightarrow> sshfs_config" where
  "demo_config path = \<lparr>cfg_password = None, cfg_authorized_keys_path = path,
     cfg_userpasswds = [], cfg_max_conns = None\<rparr>"

subsection \<open>Properties\<close>


text \<open>
  C24: Who is let in by a public key. If the authorized-keys file lists base64 keys of 32
  bytes (one per line, with a comment), at least one of them a valid point, then a session
  accepts exactly the ed25519 keys that are listed and valid, in both phases of the protocol.
\<close>

theorem publickey_accepts_exactly_listed:
  assumes "\<forall>(blob, comment) \<in> set ls. length blob = 32 \<and> comment_ok comment"
    and "cfg_authorized_keys_path cfg = Some path"
    and "read path = Inr (key_file (map (\<lambda>(blob, comment). key_line blob comment) ls))"
    and "\<exists>blob \<in> fst ` set ls. lib_valid_key lib blob"
  shows "auth_publickey (fst (new_client (ssh_server_new lib read cfg))) user key =
      (\<exists>k. key = Some k \<and> k \<in> fst ` set ls \<and> lib_valid_key lib k) \<and>
    auth_publickey_offered (fst (new_client (ssh_server_new lib read cfg))) user key =
      (\<exists>k. key = Some k \<and> k \<in> fst ` set ls \<and> lib_valid_key lib k)"
proof -
  let ?keys = "filter (\<lambda>blob. length blob = 32 \<and> lib_valid_key lib blob) (map fst ls)"
  have "\<forall>(blob, comment) \<in> set ls. blob \<noteq> [] \<and> comment_ok comment"
    using assms(1) by fastforce
  from load_key_file [OF this] assms(2,3)
  have keys: "ses_authorized_keys (fst (new_client (ssh_server_new lib read cfg))) = ?keys"
    by (simp add: new_client_def ssh_server_new_def Let_def split: prod.split)
  have "set ?keys = {k \<in> fst ` set ls. lib_valid_key lib k}"
    using assms(1) by auto
  moreover from this assms(4) have "?keys \<noteq> []"
    by (metis (mono_tags, lifting) empty_iff empty_set mem_Collect_eq)
  ultimately show ?thesis
    by (auto simp: auth_publickey_def auth_publickey_offered_def key_is_trusted_def keys
        simp del: set_filter split: option.splits)
qed

theorem publickey_accepts_exactly_listed_witness:
  "(let ses = fst (new_client (ssh_server_new demo_lib
        (\<lambda>_. Inr (key_file (map (\<lambda>(blob, comment). key_line blob comment) [(replicate 32 7, ''me@host'')])))
        (demo_config (Some ''/keys'')))) in
    auth_publickey ses ''me'' (Some (replicate 32 7)) \<and> \<not> auth_publickey ses ''me'' (Some (replicate 32 8)) \<and>
    \<not> auth_publickey ses ''me'' None)"
  using publickey_accepts_exactly_listed [of "[(replicate 32 7, ''me@host'')]" "demo_config (Some ''/keys'')" "''/keys''"
      "\<lambda>_. Inr (key_file (map (\<lambda>(blob, comment). key_line blob comment) [(replicate 32 7, ''me@host'')]))"
      demo_lib "''me''"]
  by (simp add: comment_ok_def is_graphic_def demo_config_def demo_lib_def Let_def replicate_eq_replicate)

text \<open>
  C25: A standard OpenSSH file opens the server. If every line of the authorized-keys file
  is an OpenSSH public key line (whose base64 holds the key type and the 32 bytes), no line
  yields a key, the list of keys is empty, and the session accepts every public key of
  every user: the decoder keeps the 51-byte blob, which is not 32 bytes long.
\<close>

theorem openssh_authorized_keys_admit_everyone:
  assumes "\<forall>(k, comment) \<in> set ls. length k = 32 \<and> comment_ok comment"
    and "cfg_authorized_keys_path cfg = Some path"
    and "read path = Inr (key_file (map (\<lambda>(k, comment). key_line (openssh_blob k) comment) ls))"
  shows "auth_publickey (fst (new_client (ssh_server_new lib read cfg))) user key"
proof -
  let ?ls = "map (\<lambda>(k, comment). (openssh_blob k, comment)) ls"
  have blob: "length (openssh_blob k) = 19 + length k" for k
    by (simp add: openssh_blob_def)
  have "\<forall>(blob, comment) \<in> set ?ls. blob \<noteq> [] \<and> comment_ok comment"
    using assms(1) by (auto simp: openssh_blob_def)
  from load_key_file [OF this, of lib path] assms(3)
  have "load_authorized_keys lib path (read path) =
      Inr (filter (\<lambda>blob. length blob = 32 \<and> lib_valid_key lib blob) (map fst ?ls))"
    by (simp add: comp_def case_prod_unfold)
  also have "filter (\<lambda>blob. length blob = 32 \<and> lib_valid_key lib blob) (map fst ?ls) = []"
    using assms(1) by (auto simp: filter_empty_conv blob)
  finally have "ses_authorized_keys (fst (new_client (ssh_server_new lib read cfg))) = []"
    using assms(2) by (simp add: new_client_def ssh_server_new_def Let_def split: prod.split)
  then show ?thesis
    by (simp add: auth_publickey_def)
qed

theorem openssh_authorized_keys_admit_everyone_witness:
  "auth_publickey (fst (new_client (ssh_server_new demo_lib
        (\<lambda>_. Inr (key_file (map (\<lambda>(k, comment). key_line (openssh_blob k) comment) [(replicate 32 7, ''me@host'')])))
        (demo_config (Some ''/keys''))))) ''mallory'' (Some (replicate 32 8))"
  by (rule openssh_authorized_keys_admit_everyone [where path = "''/keys''" and
        ls = "[(replicate 32 7, ''me@host'')]"])
    (simp_all add: comment_ok_def is_graphic_def demo_config_def)

end
