(* ===== verification/Lua_Values.thy ===== *)
theory Lua_Values
  imports Rust_Strings
begin

text \<open>
  The values that cross the border between Rust and the Lua scripts (\<open>mlua::Value\<close>), as the
  glue code of \<open>handler.rs\<close>, \<open>serialize.rs\<close> and \<open>store.rs\<close> sees them. An integer is 64 bits
  wide, a float is its 64-bit pattern, a string is a list of bytes. A table is the list of its
  entries in the order in which \<open>pairs\<close> yields them: the glue code reads and writes tables,
  it never compares their identities. \<open>LOther\<close> stands for functions, threads and user data.
\<close>

named_theorems lua_simps \<open>evaluation rules for Lua values\<close>

type_synonym i64 = "64 word"
type_synonym f64 = "64 word"

datatype lua_value =
    LNil
  | LBool bool
  | LInt i64
  | LNum f64
  | LStr bytes
  | LTable "(lua_value \<times> lua_value) list"
  | LOther

type_synonym lua_table = "(lua_value \<times> lua_value) list"

subsection \<open>Tables\<close>

definition tget :: "lua_table \<Rightarrow> lua_value \<Rightarrow> lua_value" where
  "tget t k = (case map_of t k of Some v \<Rightarrow> v | None \<Rightarrow> LNil)"

text \<open>Assigning nil removes an entry; an entry of a new key may come to stand anywhere in the order.\<close>

definition tset :: "lua_value \<Rightarrow> lua_value \<Rightarrow> lua_table \<Rightarrow> lua_table" where
  "tset k v t = (if v = LNil then filter (\<lambda>(k', _). k' \<noteq> k) t else hm_insert k v t)"

definition lua_index :: "nat \<Rightarrow> lua_value" where
  "lua_index n = LInt (word_of_nat n)"

definition lua_string :: "string \<Rightarrow> lua_value" where
  "lua_string s = LStr (as_bytes s)"

text \<open>Well-formed tables: no key twice, no nil among keys and values.\<close>

definition table_ok :: "lua_table \<Rightarrow> bool" where
  "table_ok t = (distinct (map fst t) \<and> (\<forall>(k, v) \<in> set t. k \<noteq> LNil \<and> v \<noteq> LNil))"

text \<open>
  A border of a table in the sense of the Lua manual, the value of the length operator. A
  table may have several; which of them \<open>raw_len\<close> returns is a parameter of the model.
\<close>

definition is_border :: "lua_table \<Rightarrow> nat \<Rightarrow> bool" where
  "is_border t n =
     ((n = 0 \<or> tget t (lua_index n) \<noteq> LNil) \<and> tget t (lua_index (Suc n)) = LNil)"

subsection \<open>Lemmas on tables\<close>

lemma tget_Nil [simp, lua_simps]: "tget [] k = LNil"
  by (simp add: tget_def)

lemma tget_tset [simp, lua_simps]: "tget (tset k v t) j = (if j = k then v else tget t j)"
proof -
  have "map_of (filter (\<lambda>(k', _). k' \<noteq> k) t) = (map_of t)(k := None)"
    by (induction t) (auto simp: fun_eq_iff)
  then show ?thesis
    by (simp add: tget_def tset_def)
qed

lemma table_ok_Nil [simp]: "table_ok []"
  by (simp add: table_ok_def)

lemma set_hm_insert: "set (hm_insert k v t) \<subseteq> insert (k, v) (set t)"
  by (induction k v t rule: hm_insert.induct) auto

lemma table_ok_tset: "table_ok t \<Longrightarrow> k \<noteq> LNil \<Longrightarrow> table_ok (tset k v t)"
  using set_hm_insert [of k v t] by (auto simp: table_ok_def tset_def distinct_map_filter)

lemma lua_index_inject:
  assumes "m < 2 ^ 64" and "n < 2 ^ 64"
  shows "lua_index m = lua_index n \<longleftrightarrow> m = n"
proof -
  have "unat (word_of_nat m :: 64 word) = m" "unat (word_of_nat n :: 64 word) = n"
    using assms by (simp_all add: unat_word64)
  then show ?thesis
    unfolding lua_index_def lua_value.inject by metis
qed

lemma lua_string_inject [simp]: "lua_string a = lua_string b \<longleftrightarrow> a = b"
  by (simp add: lua_string_def)

lemma lua_string_neq [simp]: "lua_string s \<noteq> lua_index n" "lua_index n \<noteq> lua_string s" "lua_string s \<noteq> LNil"
    "lua_index n \<noteq> LNil"
  by (simp_all add: lua_string_def lua_index_def)

end
