(* ===== verification/Script_Setup.thy ===== *)
theory Script_Setup
  imports Router Lua_Values
begin

text \<open>
  How a script configures the program (\<open>src/src/handler.rs\<close>): the tables \<open>route\<close>, \<open>fuse\<close>, \<open>ninep\<close>,
  \<open>sshfs\<close> and \<open>worker\<close>, the bundles such as \<open>route.read\<close>, \<open>HandlerRuntime::compile\<close> that runs
  the script once to collect the configuration, \<open>from_bytecodes\<close> that runs it again in every
  worker to get the functions, and \<open>call_lua\<close> that calls one of them.

  The Lua interpreter is a parameter: for a script it gives the sequence of calls that the
  script makes to these tables, and its error message if it does not end normally. All
  of these functions return nothing to the script, so a script makes the same calls in
  \<open>compile\<close> and in a worker. Lua functions are values of a type \<open>'f\<close>.
\<close>

named_theorems setup_simps \<open>evaluation rules for setup calls\<close>

subsection \<open>State\<close>

record config =
  fuse_mounts :: "string list"
  ninep_listeners :: "string list"
  sshfs_listeners :: "string list"
  sshfs_password :: "string option"
  sshfs_authorized_keys_path :: "string option"
  sshfs_userpasswds :: "(string \<times> string) list"
  tls_cert_path :: "string option"
  tls_key_path :: "string option"
  ninep_max_conns :: "nat option"
  sshfs_max_conns :: "nat option"

record worker_config =
  min_workers :: nat
  max_workers :: nat
  ttl_secs :: nat

definition config_default :: config where
  "config_default = \<lparr>fuse_mounts = [], ninep_listeners = [], sshfs_listeners = [], sshfs_password = None,
     sshfs_authorized_keys_path = None, sshfs_userpasswds = [], tls_cert_path = None, tls_key_path = None,
     ninep_max_conns = None, sshfs_max_conns = None\<rparr>"

definition worker_config_default :: worker_config where
  "worker_config_default = \<lparr>min_workers = 1, max_workers = 4, ttl_secs = 60\<rparr>"

record 'f setup_state =
  ss_routes :: "route_registration list"
  ss_funcs :: "string \<rightharpoonup> 'f"
  ss_default :: "'f option"
  ss_config :: config
  ss_worker :: worker_config

definition setup_new :: "'f setup_state" where
  "setup_new = \<lparr>ss_routes = [], ss_funcs = Map.empty, ss_default = None, ss_config = config_default,
     ss_worker = worker_config_default\<rparr>"

subsection \<open>The route table\<close>

text \<open>\<open>format!("__route_{}", routes.len())\<close>\<close>

definition route_name :: "nat \<Rightarrow> string" where
  "route_name n = ''__route_'' @ show_nat n"

datatype setup_error = OpsNotText | OpsBadType | ScriptError string

definition lua_text :: "bytes \<Rightarrow> setup_error + string" where
  "lua_text bs = (if utf8_ok bs then Inr (str_of_bytes bs) else Inl OpsNotText)"

fun table_ops :: "(lua_value \<times> lua_value) list \<Rightarrow> setup_error + string list" where
  "table_ops [] = Inr []"
| "table_ops ((k, LStr s) # ps) =
     (case lua_text s of
        Inl e \<Rightarrow> Inl e
      | Inr op \<Rightarrow> (case table_ops ps of Inl e \<Rightarrow> Inl e | Inr ops \<Rightarrow> Inr (op # ops)))"
| "table_ops (p # ps) = table_ops ps"

fun parse_ops :: "lua_value \<Rightarrow> setup_error + string list" where
  "parse_ops LNil = Inr []"
| "parse_ops (LBool True) = Inr []"
| "parse_ops (LStr s) = (case lua_text s of Inl e \<Rightarrow> Inl e | Inr op \<Rightarrow> Inr [op])"
| "parse_ops (LTable t) = table_ops t"
| "parse_ops v = Inl OpsBadType"

definition push_route :: "string \<Rightarrow> string list \<Rightarrow> 'f \<Rightarrow> 'f setup_state \<Rightarrow> 'f setup_state" where
  "push_route pattern ops f s =
     (let name = route_name (length (ss_routes s)) in
      s\<lparr>ss_routes := ss_routes s @ [\<lparr>rr_pattern = pattern, rr_handler_name = name, rr_ops = ops\<rparr>],
        ss_funcs := (ss_funcs s)(name \<mapsto> f)\<rparr>)"

definition route_register :: "string \<Rightarrow> lua_value \<Rightarrow> 'f \<Rightarrow> 'f setup_state \<Rightarrow> setup_error + 'f setup_state" where
  "route_register pattern ops_val f s =
     (case parse_ops ops_val of Inl e \<Rightarrow> Inl e | Inr ops \<Rightarrow> Inr (push_route pattern ops f s))"

definition route_default :: "'f \<Rightarrow> 'f setup_state \<Rightarrow> 'f setup_state" where
  "route_default f s = s\<lparr>ss_default := Some f\<rparr>"

text \<open>The bundles that \<open>register_route_convenience\<close> installs.\<close>

datatype route_bundle =
    BRead | BWrite | BReaddir | BCreate | BUnlink | BLookup | BGetattr | BOpen | BRelease | BMkdir | BAll

fun bundle_ops :: "route_bundle \<Rightarrow> string list" where
  "bundle_ops BRead = [''lookup'', ''getattr'', ''open'', ''read'', ''release'', ''flush'']"
| "bundle_ops BWrite = [''lookup'', ''getattr'', ''open'', ''read'', ''write'', ''release'', ''flush'', ''fsync'', ''create'']"
| "bundle_ops BReaddir = [''lookup'', ''getattr'', ''opendir'', ''readdir'', ''releasedir'']"
| "bundle_ops BCreate = [''lookup'', ''getattr'', ''create'', ''open'', ''read'', ''write'', ''release'', ''flush'']"
| "bundle_ops BUnlink = [''unlink'', ''lookup'', ''getattr'']"
| "bundle_ops BLookup = [''lookup'']"
| "bundle_ops BGetattr = [''getattr'']"
| "bundle_ops BOpen = [''open'']"
| "bundle_ops BRelease = [''release'']"
| "bundle_ops BMkdir = [''mkdir'', ''lookup'', ''getattr'', ''opendir'', ''readdir'', ''releasedir'']"
| "bundle_ops BAll = []"

definition bundle_call :: "route_bundle \<Rightarrow> string \<Rightarrow> 'f \<Rightarrow> 'f setup_state \<Rightarrow> 'f setup_state" where
  "bundle_call b pattern f s = push_route pattern (bundle_ops b) f s"

definition bundle_default :: "route_bundle \<Rightarrow> 'f \<Rightarrow> 'f setup_state \<Rightarrow> 'f setup_state" where
  "bundle_default b f s = push_route ''/{*path}'' (bundle_ops b) f s"

subsection \<open>The frontend and worker tables\<close>

definition fuse_mount :: "string \<Rightarrow> config \<Rightarrow> config" where
  "fuse_mount path c = c\<lparr>fuse_mounts := fuse_mounts c @ [path]\<rparr>"

definition fuse_unmount :: "string \<Rightarrow> config \<Rightarrow> config" where
  "fuse_unmount path c = c\<lparr>fuse_mounts := filter (\<lambda>p. p \<noteq> path) (fuse_mounts c)\<rparr>"

definition fuse_unmountall :: "config \<Rightarrow> config" where
  "fuse_unmountall c = c\<lparr>fuse_mounts := []\<rparr>"

definition ninep_listen :: "string \<Rightarrow> config \<Rightarrow> config" where
  "ninep_listen addr c = c\<lparr>ninep_listeners := ninep_listeners c @ [addr]\<rparr>"

definition ninep_kill :: "string \<Rightarrow> config \<Rightarrow> config" where
  "ninep_kill addr c = c\<lparr>ninep_listeners := filter (\<lambda>a. a \<noteq> addr) (ninep_listeners c)\<rparr>"

definition ninep_killall :: "config \<Rightarrow> config" where
  "ninep_killall c = c\<lparr>ninep_listeners := []\<rparr>"

definition ninep_tls_cert :: "string \<Rightarrow> config \<Rightarrow> config" where
  "ninep_tls_cert path c = c\<lparr>tls_cert_path := Some path\<rparr>"

definition ninep_tls_key :: "string \<Rightarrow> config \<Rightarrow> config" where
  "ninep_tls_key path c = c\<lparr>tls_key_path := Some path\<rparr>"

definition ninep_conn :: "nat \<Rightarrow> config \<Rightarrow> config" where
  "ninep_conn n c = c\<lparr>ninep_max_conns := Some n\<rparr>"

definition sshfs_listen :: "string \<Rightarrow> config \<Rightarrow> config" where
  "sshfs_listen addr c = c\<lparr>sshfs_listeners := sshfs_listeners c @ [addr]\<rparr>"

definition sshfs_kill :: "string \<Rightarrow> config \<Rightarrow> config" where
  "sshfs_kill addr c = c\<lparr>sshfs_listeners := filter (\<lambda>a. a \<noteq> addr) (sshfs_listeners c)\<rparr>"

definition sshfs_killall :: "config \<Rightarrow> config" where
  "sshfs_killall c = c\<lparr>sshfs_listeners := []\<rparr>"

definition sshfs_set_password :: "string \<Rightarrow> config \<Rightarrow> config" where
  "sshfs_set_password pw c = c\<lparr>sshfs_password := Some pw\<rparr>"

definition sshfs_authorized_keys :: "string \<Rightarrow> config \<Rightarrow> config" where
  "sshfs_authorized_keys path c = c\<lparr>sshfs_authorized_keys_path := Some path\<rparr>"

definition sshfs_userpasswd :: "string \<Rightarrow> string \<Rightarrow> config \<Rightarrow> config" where
  "sshfs_userpasswd user pw c = c\<lparr>sshfs_userpasswds := sshfs_userpasswds c @ [(user, pw)]\<rparr>"

definition sshfs_conn :: "nat \<Rightarrow> config \<Rightarrow> config" where
  "sshfs_conn n c = c\<lparr>sshfs_max_conns := Some n\<rparr>"

definition worker_min :: "nat \<Rightarrow> worker_config \<Rightarrow> worker_config" where
  "worker_min n wc = wc\<lparr>min_workers := n\<rparr>"

definition worker_max :: "nat \<Rightarrow> worker_config \<Rightarrow> worker_config" where
  "worker_max n wc = wc\<lparr>max_workers := n\<rparr>"

definition worker_ttl :: "nat \<Rightarrow> worker_config \<Rightarrow> worker_config" where
  "worker_ttl n wc = wc\<lparr>ttl_secs := n\<rparr>"

subsection \<open>Running a script\<close>

datatype 'f api_call =
    RouteRegister string lua_value 'f
  | RouteDefault 'f
  | BundleCall route_bundle string 'f
  | BundleDefault route_bundle 'f
  | FuseMount string
  | FuseUnmount string
  | FuseUnmountall
  | NinepListen string
  | NinepKill string
  | NinepKillall
  | NinepTlsCert string
  | NinepTlsKey string
  | NinepConn nat
  | SshfsListen string
  | SshfsKill string
  | SshfsKillall
  | SshfsPassword string
  | SshfsAuthorizedKeys string
  | SshfsUserpasswd string string
  | SshfsConn nat
  | WorkerMin nat
  | WorkerMax nat
  | WorkerTtl nat

text \<open>A call of one of the frontend or worker tables, on the configurations.\<close>

fun config_call :: "'f api_call \<Rightarrow> config \<Rightarrow> config" where
  "config_call (FuseMount p) = fuse_mount p"
| "config_call (FuseUnmount p) = fuse_unmount p"
| "config_call FuseUnmountall = fuse_unmountall"
| "config_call (NinepListen a) = ninep_listen a"
| "config_call (NinepKill a) = ninep_kill a"
| "config_call NinepKillall = ninep_killall"
| "config_call (NinepTlsCert p) = ninep_tls_cert p"
| "config_call (NinepTlsKey p) = ninep_tls_key p"
| "config_call (NinepConn n) = ninep_conn n"
| "config_call (SshfsListen a) = sshfs_listen a"
| "config_call (SshfsKill a) = sshfs_kill a"
| "config_call SshfsKillall = sshfs_killall"
| "config_call (SshfsPassword p) = sshfs_set_password p"
| "config_call (SshfsAuthorizedKeys p) = sshfs_authorized_keys p"
| "config_call (SshfsUserpasswd u p) = sshfs_userpasswd u p"
| "config_call (SshfsConn n) = sshfs_conn n"
| "config_call c = (\<lambda>x. x)"

fun worker_call :: "'f api_call \<Rightarrow> worker_config \<Rightarrow> worker_config" where
  "worker_call (WorkerMin n) = worker_min n"
| "worker_call (WorkerMax n) = worker_max n"
| "worker_call (WorkerTtl n) = worker_ttl n"
| "worker_call c = (\<lambda>x. x)"

text \<open>
  One call. While a script is compiled the frontend and worker tables are the real ones; in a
  worker they are stubs that do nothing.
\<close>

fun setup_call :: "bool \<Rightarrow> 'f api_call \<Rightarrow> 'f setup_state \<Rightarrow> setup_error + 'f setup_state" where
  "setup_call stubs (RouteRegister pattern ops f) s = route_register pattern ops f s"
| "setup_call stubs (RouteDefault f) s = Inr (route_default f s)"
| "setup_call stubs (BundleCall b pattern f) s = Inr (bundle_call b pattern f s)"
| "setup_call stubs (BundleDefault b f) s = Inr (bundle_default b f s)"
| "setup_call stubs c s =
     Inr (if stubs then s
          else s\<lparr>ss_config := config_call c (ss_config s), ss_worker := worker_call c (ss_worker s)\<rparr>)"

fun setup_calls :: "bool \<Rightarrow> 'f api_call list \<Rightarrow> 'f setup_state \<Rightarrow> setup_error + 'f setup_state" where
  "setup_calls stubs [] s = Inr s"
| "setup_calls stubs (c # cs) s =
     (case setup_call stubs c s of Inl e \<Rightarrow> Inl e | Inr s' \<Rightarrow> setup_calls stubs cs s')"

text \<open>The interpreter: the calls of a script and, if it fails by itself, the error.\<close>

type_synonym 'f interpreter = "string \<Rightarrow> 'f api_call list \<times> string option"

definition exec_script :: "'f interpreter \<Rightarrow> bool \<Rightarrow> string \<Rightarrow> setup_error + 'f setup_state" where
  "exec_script interp stubs script =
     (case interp script of (calls, failure) \<Rightarrow>
        case setup_calls stubs calls setup_new of
          Inl e \<Rightarrow> Inl e
        | Inr s \<Rightarrow> (case failure of Some e \<Rightarrow> Inl (ScriptError e) | None \<Rightarrow> Inr s))"

text \<open>\<open>HandlerRuntime::compile\<close>; the script itself stands for \<open>SharedBytecodes\<close>.\<close>

definition compile ::
    "'f interpreter \<Rightarrow> string \<Rightarrow> setup_error + config \<times> route_registration list \<times> string \<times> worker_config" where
  "compile interp script =
     (case exec_script interp False script of
        Inl e \<Rightarrow> Inl e
      | Inr s \<Rightarrow> Inr (ss_config s, ss_routes s, script, ss_worker s))"

record 'f handler_runtime =
  rt_funcs :: "string \<rightharpoonup> 'f"
  rt_default :: "'f option"

definition from_bytecodes :: "'f interpreter \<Rightarrow> string \<Rightarrow> setup_error + 'f handler_runtime" where
  "from_bytecodes interp script =
     (case exec_script interp True script of
        Inl e \<Rightarrow> Inl e
      | Inr s \<Rightarrow> Inr \<lparr>rt_funcs = ss_funcs s, rt_default = ss_default s\<rparr>)"

subsection \<open>Calling a handler\<close>

text \<open>
  \<open>call\<close> is the interpreter's call of a function with the captured parameters and the payload
  (nil when it is empty), on the state of the Lua virtual machine; it returns an error
  message or the bytes of a string, and the new state.
\<close>

type_synonym ('f, 'l) lua_call = "'l \<Rightarrow> 'f \<Rightarrow> (string \<rightharpoonup> string) \<Rightarrow> lua_value \<Rightarrow> (string + bytes) \<times> 'l"

definition lua_response :: "string + bytes \<Rightarrow> string + handler_response" where
  "lua_response r =
     (case r of
        Inl e \<Rightarrow> Inl (''Lua handler error: '' @ e)
      | Inr d \<Rightarrow> Inr \<lparr>resp_data = d, resp_matched_pattern = None, resp_has_children = False\<rparr>)"

definition call_lua ::
    "('f, 'l) lua_call \<Rightarrow> 'f handler_runtime \<Rightarrow> handler_request \<Rightarrow> 'l \<Rightarrow> (string + handler_response) \<times> 'l" where
  "call_lua call rt req l =
     (case (case rt_funcs rt (hr_handler_name req) of Some f \<Rightarrow> Some f | None \<Rightarrow> rt_default rt) of
        None \<Rightarrow> (Inl (''no handler for `'' @ hr_handler_name req @ ''` and no default handler''), l)
      | Some f \<Rightarrow>
          (let (result, l') = call l f (hr_params req) (if hr_data req = [] then LNil else LStr (hr_data req)) in
           (lua_response result, l')))"

text \<open>\<open>to_lua_result\<close> and \<open>to_lua_str_result\<close>: errors reach a script as a table with the key \<open>error\<close>.\<close>

definition to_lua_result :: "string + lua_value \<Rightarrow> lua_value" where
  "to_lua_result r = (case r of Inr v \<Rightarrow> v | Inl e \<Rightarrow> LTable (tset (lua_string ''error'') (lua_string e) []))"

definition to_lua_str_result :: "string + string \<Rightarrow> lua_value" where
  "to_lua_str_result r =
     (case r of Inr s \<Rightarrow> lua_string s | Inl e \<Rightarrow> LTable (tset (lua_string ''error'') (lua_string e) []))"

subsection \<open>Lemmas on registration\<close>

text \<open>The registration that a call makes, if it makes one: pattern, operations, function.\<close>

fun registers :: "'f api_call \<Rightarrow> (string \<times> string list \<times> 'f) option" where
  "registers (RouteRegister pattern ops_val f) =
     (case parse_ops ops_val of Inl e \<Rightarrow> None | Inr ops \<Rightarrow> Some (pattern, ops, f))"
| "registers (BundleCall b pattern f) = Some (pattern, bundle_ops b, f)"
| "registers (BundleDefault b f) = Some (''/{*path}'', bundle_ops b, f)"
| "registers c = None"

definition registrations :: "'f api_call list \<Rightarrow> (string \<times> string list \<times> 'f) list" where
  "registrations calls = List.map_filter registers calls"

text \<open>A call that the route table rejects.\<close>

fun rejected :: "'f api_call \<Rightarrow> setup_error option" where
  "rejected (RouteRegister pattern ops_val f) = (case parse_ops ops_val of Inl e \<Rightarrow> Some e | Inr _ \<Rightarrow> None)"
| "rejected c = None"

definition named_routes :: "nat \<Rightarrow> (string \<times> string list \<times> 'f) list \<Rightarrow> route_registration list" where
  "named_routes k rs =
     map (\<lambda>(n, pattern, ops, f). \<lparr>rr_pattern = pattern, rr_handler_name = route_name n, rr_ops = ops\<rparr>) (enumerate k rs)"

definition named_funcs :: "nat \<Rightarrow> (string \<times> string list \<times> 'f) list \<Rightarrow> (string \<times> 'f) list" where
  "named_funcs k rs = map (\<lambda>(n, pattern, ops, f). (route_name n, f)) (enumerate k rs)"

lemma named_simps [simp]:
  "named_routes k [] = []" "named_funcs k [] = []"
  "named_routes k ((p, ops, f) # rs) =
     \<lparr>rr_pattern = p, rr_handler_name = route_name k, rr_ops = ops\<rparr> # named_routes (Suc k) rs"
  "named_funcs k ((p, ops, f) # rs) = (route_name k, f) # named_funcs (Suc k) rs"
  by (simp_all add: named_routes_def named_funcs_def)

lemma route_name_inject [simp]: "route_name m = route_name n \<longleftrightarrow> m = n"
proof -
  have "show_base 10 m = show_base 10 n \<Longrightarrow> m = n"
    using digits_value_show_nat [of m] digits_value_show_nat [of n] by (metis option.inject)
  then show ?thesis
    by (auto simp: route_name_def show_nat_def simp del: show_base.simps)
qed

lemma setup_call_cases:
  "case rejected c of
     Some e \<Rightarrow> setup_call stubs c s = Inl e
   | None \<Rightarrow> (\<exists>s'. setup_call stubs c s = Inr s' \<and>
       ss_routes s' = ss_routes s @ named_routes (length (ss_routes s)) (registrations [c]) \<and>
       ss_funcs s' = ss_funcs s ++ map_of (named_funcs (length (ss_routes s)) (registrations [c])))"
  by (cases c)
    (auto simp: registrations_def map_filter_simps route_register_def route_default_def bundle_call_def
      bundle_default_def push_route_def Let_def split: sum.splits)

lemma registrations_Cons: "registrations (c # cs) = registrations [c] @ registrations cs"
  by (simp add: registrations_def map_filter_simps split: option.split)

lemma named_append:
  "named_routes k (xs @ ys) = named_routes k xs @ named_routes (k + length xs) ys"
  "named_funcs k (xs @ ys) = named_funcs k xs @ named_funcs (k + length xs) ys"
  by (simp_all add: named_routes_def named_funcs_def enumerate_append_eq)

lemma length_named_routes [simp]: "length (named_routes k rs) = length rs"
  by (simp add: named_routes_def)

lemma named_funcs_keys: "fst ` set (named_funcs k rs) = route_name ` {k..<k + length rs}"
proof -
  have "map fst (named_funcs k rs) = map route_name (map fst (enumerate k rs))"
    unfolding named_funcs_def map_map comp_def case_prod_unfold by simp
  then have "set (map fst (named_funcs k rs)) = set (map route_name (map fst (enumerate k rs)))"
    by (simp only:)
  then show ?thesis
    by (simp add: map_fst_enumerate del: map_map)
qed

definition first_rejected :: "'f api_call list \<Rightarrow> setup_error option" where
  "first_rejected calls = (case List.map_filter rejected calls of [] \<Rightarrow> None | e # _ \<Rightarrow> Some e)"

lemma first_rejected_simps [simp]:
  "first_rejected [] = None"
  "first_rejected (c # cs) = (case rejected c of Some e \<Rightarrow> Some e | None \<Rightarrow> first_rejected cs)"
  by (simp_all add: first_rejected_def map_filter_simps split: option.split)

lemma setup_calls_rejected: "first_rejected calls = Some e \<Longrightarrow> setup_calls stubs calls s = Inl e"
proof (induction calls arbitrary: s)
  case (Cons c calls)
  then show ?case
    using setup_call_cases [where c = c and stubs = stubs and s = s] by (auto split: option.splits sum.split)
qed simp

lemma setup_calls_accepted:
  assumes "first_rejected calls = None"
  shows "\<exists>s'. setup_calls stubs calls s = Inr s' \<and>
    ss_routes s' = ss_routes s @ named_routes (length (ss_routes s)) (registrations calls) \<and>
    ss_funcs s' = ss_funcs s ++ map_of (named_funcs (length (ss_routes s)) (registrations calls))"
  using assms
proof (induction calls arbitrary: s)
  case Nil
  then show ?case by (simp add: registrations_def map_filter_simps)
next
  case (Cons c calls)
  then have "rejected c = None" "first_rejected calls = None"
    by (simp_all split: option.splits)
  then obtain s1 where s1: "setup_call stubs c s = Inr s1"
    "ss_routes s1 = ss_routes s @ named_routes (length (ss_routes s)) (registrations [c])"
    "ss_funcs s1 = ss_funcs s ++ map_of (named_funcs (length (ss_routes s)) (registrations [c]))"
    using setup_call_cases [where c = c and stubs = stubs and s = s] by auto
  let ?k = "length (ss_routes s)" and ?j = "length (ss_routes s) + length (registrations [c])"
  have "dom (map_of (named_funcs ?k (registrations [c]))) \<inter> dom (map_of (named_funcs ?j (registrations calls))) = {}"
    by (auto simp: dom_map_of_conv_image_fst named_funcs_keys)
  then have "map_of (named_funcs ?k (registrations [c])) ++ map_of (named_funcs ?j (registrations calls)) =
      map_of (named_funcs ?k (registrations (c # calls)))"
    by (simp add: registrations_Cons [of c calls] named_append) (rule map_add_comm)
  moreover obtain s' where "setup_calls stubs calls s1 = Inr s'"
    "ss_routes s' = ss_routes s1 @ named_routes (length (ss_routes s1)) (registrations calls)"
    "ss_funcs s' = ss_funcs s1 ++ map_of (named_funcs (length (ss_routes s1)) (registrations calls))"
    using Cons.IH [OF \<open>first_rejected calls = None\<close>] by blast
  ultimately show ?case
    using s1 by (simp add: registrations_Cons [of c calls] named_append del: map_add_assoc flip: map_add_assoc)
qed

lemma setup_calls_config:
  "setup_calls False calls s = Inr s' \<Longrightarrow>
    ss_config s' = fold config_call calls (ss_config s) \<and> ss_worker s' = fold worker_call calls (ss_worker s)"
proof (induction calls arbitrary: s)
  case (Cons c calls)
  obtain s1 where s1: "setup_call False c s = Inr s1" "setup_calls False calls s1 = Inr s'"
    using Cons.prems by (auto split: sum.splits)
  then have "ss_config s1 = config_call c (ss_config s)" "ss_worker s1 = worker_call c (ss_worker s)"
    by (cases c; auto simp: route_register_def route_default_def bundle_call_def bundle_default_def
        push_route_def Let_def split: sum.splits)+
  with Cons.IH [OF s1(2)] show ?case by simp
qed simp

text \<open>The function of the last registration for a pattern and an operation.\<close>

definition last_func :: "(string \<times> string list \<times> 'f) list \<Rightarrow> string \<Rightarrow> string \<Rightarrow> 'f option" where
  "last_func rs pat op =
     map_option (\<lambda>(p, ops, f). f)
       (find (\<lambda>(p, ops, f). p = pat \<and> (if ops = [] then op = ''*'' else op \<in> set ops)) (rev rs))"

lemma last_claim_named:
  "case last_claim (named_routes k rs) pat op of
     None \<Rightarrow> last_func rs pat op = None
   | Some n \<Rightarrow> \<exists>f. last_func rs pat op = Some f \<and> map_of (named_funcs k rs) n = Some f"
proof (induction rs rule: rev_induct)
  case Nil
  then show ?case by (simp add: last_claim_def last_func_def)
next
  case (snoc r rs)
  obtain p ops f where r: "r = (p, ops, f)" by (cases r)
  have fresh: "map_of (named_funcs k rs) (route_name (k + length rs)) = None"
    by (auto simp: map_of_eq_None_iff named_funcs_keys)
  have claims: "claims_op \<lparr>rr_pattern = p, rr_handler_name = n, rr_ops = ops\<rparr> op =
      (if ops = [] then op = ''*'' else op \<in> set ops)" for n
    by (simp add: claims_op_def)
  show ?case
    using snoc fresh
    by (auto simp: r named_append last_claim_snoc claims last_func_def map_add_def split: option.splits if_splits)
qed

lemma exec_script_accepted:
  assumes "exec_script interp False script = Inr s" and "interp script = (calls, failure)"
  shows "failure = None \<and> first_rejected calls = None \<and> ss_routes s = named_routes 0 (registrations calls) \<and>
    (\<exists>t. exec_script interp True script = Inr t \<and> ss_funcs t = map_of (named_funcs 0 (registrations calls)))"
proof -
  have ok: "first_rejected calls = None" "failure = None" "setup_calls False calls setup_new = Inr s"
    using assms setup_calls_rejected [of calls _ False setup_new]
    by (auto simp: exec_script_def split: sum.splits option.splits, cases "first_rejected calls", auto)
  have new: "ss_routes (setup_new :: 'a setup_state) = []" "ss_funcs (setup_new :: 'a setup_state) = Map.empty"
    by (simp_all add: setup_new_def)
  from setup_calls_accepted [OF ok(1), of False setup_new] setup_calls_accepted [OF ok(1), of True setup_new]
  show ?thesis
    using ok assms(2) by (auto simp: exec_script_def new)
qed


definition demo_interp :: "nat interpreter" where
  "demo_interp script =
     ([BundleCall BRead ''/a'' 1, RouteRegister ''/a'' (LStr (as_bytes ''read'')) 2, RouteDefault 3,
       NinepListen ''sock:/x'', NinepListen ''sock:/y'', NinepKill ''sock:/x''], None)"

lemma demo_text: "lua_text (as_bytes ''read'') = Inr ''read''"
proof -
  have "utf8_ok (as_bytes ''read'')"
    by (rule utf8_ok_ascii) (simp add: as_bytes_def byte_of_char_def)
  then show ?thesis by (simp add: lua_text_def)
qed

lemma demo_last_func: "last_func (registrations (fst (demo_interp []))) ''/a'' ''read'' = Some 2"
  by (simp add: demo_interp_def registrations_def map_filter_simps last_func_def demo_text)

lemma demo_compile:
  "compile demo_interp [] =
     Inr (config_default\<lparr>ninep_listeners := [''sock:/y'']\<rparr>,
       named_routes 0 [(''/a'', bundle_ops BRead, 1), (''/a'', [''read''], 2)], [], worker_config_default)"
    by (simp add: Let_def demo_text compile_def exec_script_def demo_interp_def setup_new_def bundle_call_def push_route_def
        route_register_def route_default_def ninep_listen_def ninep_kill_def config_default_def)


text \<open>What the configuration should be, read off the calls: an address is served unless it is killed later.\<close>

fun killed :: "string \<Rightarrow> 'f api_call list \<Rightarrow> bool" where
  "killed a cs = (NinepKill a \<in> set cs \<or> NinepKillall \<in> set cs)"

fun live_listeners :: "'f api_call list \<Rightarrow> string list" where
  "live_listeners [] = []"
| "live_listeners (NinepListen a # cs) = (if killed a cs then [] else [a]) @ live_listeners cs"
| "live_listeners (c # cs) = live_listeners cs"

definition last_password :: "'f api_call list \<Rightarrow> string option" where
  "last_password cs = (case List.map_filter (\<lambda>c. case c of SshfsPassword p \<Rightarrow> Some p | _ \<Rightarrow> None) (rev cs) of
     [] \<Rightarrow> None | p # _ \<Rightarrow> Some p)"

lemma fold_listeners:
  "ninep_listeners (fold config_call cs c) = filter (\<lambda>a. \<not> killed a cs) (ninep_listeners c) @ live_listeners cs"
proof (induction cs arbitrary: c)
  case (Cons x cs)
  then show ?case
    by (cases x) (auto simp: fuse_mount_def fuse_unmount_def fuse_unmountall_def ninep_listen_def ninep_kill_def
        ninep_killall_def ninep_tls_cert_def ninep_tls_key_def ninep_conn_def sshfs_listen_def sshfs_kill_def
        sshfs_killall_def sshfs_set_password_def sshfs_authorized_keys_def sshfs_userpasswd_def sshfs_conn_def
        intro!: filter_cong)
qed simp

lemma fold_password:
  "sshfs_password (fold config_call cs c) =
     (case last_password cs of Some p \<Rightarrow> Some p | None \<Rightarrow> sshfs_password c)"
proof (induction cs arbitrary: c rule: rev_induct)
  case (snoc x cs)
  then show ?case
    by (cases x) (simp_all add: last_password_def map_filter_simps fuse_mount_def fuse_unmount_def fuse_unmountall_def
        ninep_listen_def ninep_kill_def ninep_killall_def ninep_tls_cert_def ninep_tls_key_def ninep_conn_def
        sshfs_listen_def sshfs_kill_def sshfs_killall_def sshfs_set_password_def sshfs_authorized_keys_def
        sshfs_userpasswd_def sshfs_conn_def)
qed (simp add: last_password_def map_filter_simps)



end
