(* ===== verification/Worker_Pool.thy ===== *)
theory Worker_Pool
  imports Script_Setup "HOL-Library.Multiset"
begin

text \<open>
  The worker pool (\<open>src/src/worker.rs\<close>): the dispatcher that hands requests to workers in turn,
  grows the pool when its queue is long and replaces finished workers every half second, and
  the workers, each with a runtime of its own, that answer the requests of their channel until
  they have been idle for too long.

  Dispatcher and workers run concurrently: \<open>pool_event\<close> is one step of one of them, in any
  order. A worker may stop at any moment (idle timeout, a runtime that cannot be built, a
  panic); the requests left in its channel are dropped then, which their senders see as a
  closed reply channel.
\<close>

named_theorems worker_simps \<open>evaluation rules for the dispatcher\<close>

subsection \<open>State\<close>

text \<open>A job is a request with the identity of its reply channel.\<close>

type_synonym job = "nat \<times> handler_request"

datatype job_outcome =
    Answered "string + handler_response"
  | Dropped

record 'l worker =
  wk_queue :: "job list"
  wk_open :: bool
  wk_finished :: bool
  wk_lua :: 'l

record 'l dispatcher =
  ds_workers :: "'l worker list"
  ds_next :: nat
  ds_done :: "(job \<times> job_outcome) list"

subsection \<open>The dispatcher\<close>

definition spawn_worker :: "'l \<Rightarrow> 'l worker list \<Rightarrow> 'l worker list" where
  "spawn_worker lua0 ws = ws @ [\<lparr>wk_queue = [], wk_open = True, wk_finished = False, wk_lua = lua0\<rparr>]"

definition dispatcher_new :: "worker_config \<Rightarrow> 'l \<Rightarrow> 'l dispatcher" where
  "dispatcher_new cfg lua0 =
     \<lparr>ds_workers = ((spawn_worker lua0) ^^ (min_workers cfg)) [], ds_next = 0, ds_done = []\<rparr>"

text \<open>\<open>Vec::swap_remove\<close>: the last element takes the place of the removed one.\<close>

definition swap_remove :: "nat \<Rightarrow> 'a list \<Rightarrow> 'a list" where
  "swap_remove i xs = (if i = length xs - 1 then butlast xs else butlast (xs[i := last xs]))"

text \<open>\<open>req.reply.send(Err("no workers available"))\<close> and a reply channel that is dropped unused.\<close>

definition finish :: "job \<Rightarrow> job_outcome \<Rightarrow> 'l dispatcher \<Rightarrow> 'l dispatcher" where
  "finish j r d = d\<lparr>ds_done := ds_done d @ [(j, r)]\<rparr>"

definition enqueue :: "job \<Rightarrow> 'l worker \<Rightarrow> 'l worker" where
  "enqueue j w = w\<lparr>wk_queue := wk_queue w @ [j]\<rparr>"

text \<open>The branch of the loop for a request; \<open>waiting\<close> is \<open>rx.len()\<close>, the requests behind it.\<close>

definition dispatch_job :: "worker_config \<Rightarrow> 'l \<Rightarrow> nat \<Rightarrow> job \<Rightarrow> 'l dispatcher \<Rightarrow> 'l dispatcher" where
  "dispatch_job cfg lua0 waiting j d =
     (let ws = (if 5 < waiting \<and> length (ds_workers d) < max_workers cfg
                then spawn_worker lua0 (ds_workers d) else ds_workers d);
          d = d\<lparr>ds_workers := ws\<rparr> in
      if ws = [] then finish j (Answered (Inl ''no workers available'')) d
      else
        let next = ds_next d mod length ws in
        if wk_open (ws ! next)
        then d\<lparr>ds_workers := ws[next := enqueue j (ws ! next)], ds_next := next + 1\<rparr>
        else finish j Dropped (d\<lparr>ds_workers := swap_remove next ws, ds_next := next\<rparr>))"

text \<open>The branch for the cleanup tick.\<close>

function replenish :: "worker_config \<Rightarrow> 'l \<Rightarrow> 'l worker list \<Rightarrow> 'l worker list" where
  "replenish cfg lua0 ws =
     (if length ws < min_workers cfg \<and> length ws < max_workers cfg
      then replenish cfg lua0 (spawn_worker lua0 ws) else ws)"
  by pat_completeness auto
termination
  by (relation "measure (\<lambda>(cfg, lua0, ws). min_workers cfg - length ws)") (auto simp: spawn_worker_def)

declare replenish.simps [simp del]

definition cleanup_tick :: "worker_config \<Rightarrow> 'l \<Rightarrow> 'l dispatcher \<Rightarrow> 'l dispatcher" where
  "cleanup_tick cfg lua0 d =
     d\<lparr>ds_workers := replenish cfg lua0 (filter (\<lambda>w. \<not> wk_finished w) (ds_workers d))\<rparr>"

subsection \<open>The workers\<close>

text \<open>A worker answers the request at the front of its channel.\<close>

definition worker_serve ::
    "('f, 'l) lua_call \<Rightarrow> 'f handler_runtime \<Rightarrow> nat \<Rightarrow> 'l dispatcher \<Rightarrow> 'l dispatcher" where
  "worker_serve call rt i d =
     (let w = ds_workers d ! i in
      case wk_queue w of
        [] \<Rightarrow> d
      | j # js \<Rightarrow>
          (let (result, lua) = call_lua call rt (snd j) (wk_lua w) in
           finish j (Answered result) (d\<lparr>ds_workers := (ds_workers d)[i := w\<lparr>wk_queue := js, wk_lua := lua\<rparr>]\<rparr>)))"

text \<open>A worker stops: its channel closes and what is left in it is dropped; then its task is finished.\<close>

definition worker_stop :: "nat \<Rightarrow> 'l dispatcher \<Rightarrow> 'l dispatcher" where
  "worker_stop i d =
     (let w = ds_workers d ! i in
      d\<lparr>ds_workers := (ds_workers d)[i := w\<lparr>wk_queue := [], wk_open := False\<rparr>],
        ds_done := ds_done d @ map (\<lambda>j. (j, Dropped)) (wk_queue w)\<rparr>)"

definition worker_finish :: "nat \<Rightarrow> 'l dispatcher \<Rightarrow> 'l dispatcher" where
  "worker_finish i d = d\<lparr>ds_workers := (ds_workers d)[i := (ds_workers d ! i)\<lparr>wk_finished := True\<rparr>]\<rparr>"

subsection \<open>Steps\<close>

text \<open>
  \<open>pool_event cfg call rt lua0 rcv d rcv' d'\<close>: one step of the dispatcher or a worker; \<open>rcv\<close> is the list
  of the jobs received so far. \<open>rt\<close> is the result of \<open>build_runtime\<close>: a worker without a
  runtime answers nothing and can only stop.
\<close>

inductive pool_event ::
    "worker_config \<Rightarrow> ('f, 'l) lua_call \<Rightarrow> setup_error + 'f handler_runtime \<Rightarrow> 'l
      \<Rightarrow> job list \<times> 'l dispatcher \<Rightarrow> job list \<times> 'l dispatcher \<Rightarrow> bool"
  for cfg call rt lua0 where
  receive: "pool_event cfg call rt lua0 (rcv, d) (rcv @ [j], dispatch_job cfg lua0 waiting j d)"
| tick: "pool_event cfg call rt lua0 (rcv, d) (rcv, cleanup_tick cfg lua0 d)"
| serve: "rt = Inr r \<Longrightarrow> i < length (ds_workers d) \<Longrightarrow> wk_open (ds_workers d ! i) \<Longrightarrow>
    pool_event cfg call rt lua0 (rcv, d) (rcv, worker_serve call r i d)"
| stop: "i < length (ds_workers d) \<Longrightarrow> wk_open (ds_workers d ! i) \<Longrightarrow>
    pool_event cfg call rt lua0 (rcv, d) (rcv, worker_stop i d)"
| finish: "i < length (ds_workers d) \<Longrightarrow> \<not> wk_open (ds_workers d ! i) \<Longrightarrow>
    pool_event cfg call rt lua0 (rcv, d) (rcv, worker_finish i d)"

inductive pool_run ::
    "worker_config \<Rightarrow> ('f, 'l) lua_call \<Rightarrow> setup_error + 'f handler_runtime \<Rightarrow> 'l
      \<Rightarrow> job list \<times> 'l dispatcher \<Rightarrow> bool"
  for cfg call rt lua0 where
  init: "pool_run cfg call rt lua0 ([], dispatcher_new cfg lua0)"
| step: "pool_run cfg call rt lua0 c \<Longrightarrow> pool_event cfg call rt lua0 c c' \<Longrightarrow> pool_run cfg call rt lua0 c'"

inductive_cases pool_event_E: "pool_event cfg call rt lua0 (rcv, d) c'"

subsection \<open>Where a request is\<close>

definition queued :: "'l worker list \<Rightarrow> job multiset" where
  "queued ws = (\<Sum>w\<leftarrow>ws. mset (wk_queue w))"

definition settled :: "'l dispatcher \<Rightarrow> job multiset" where
  "settled d = mset (map fst (ds_done d))"

text \<open>The invariant: closed channels are empty, finished workers are closed, every job is in one place.\<close>

definition pool_ok :: "job list \<Rightarrow> 'l dispatcher \<Rightarrow> bool" where
  "pool_ok rcv d =
     (mset rcv = queued (ds_workers d) + settled d \<and>
      (\<forall>w \<in> set (ds_workers d). \<not> wk_open w \<longrightarrow> wk_queue w = []) \<and>
      (\<forall>w \<in> set (ds_workers d). wk_finished w \<longrightarrow> \<not> wk_open w))"

lemma queued_simps [simp]:
  "queued [] = {#}" "queued (w # ws) = mset (wk_queue w) + queued ws" "queued (ws @ vs) = queued ws + queued vs"
  by (simp_all add: queued_def)

lemma queued_spawn [simp]: "queued (spawn_worker lua0 ws) = queued ws"
  by (simp add: spawn_worker_def)

lemma queued_update:
  "i < length ws \<Longrightarrow> queued (ws[i := w]) + mset (wk_queue (ws ! i)) = queued ws + mset (wk_queue w)"
  by (induction ws arbitrary: i) (auto split: nat.split simp: ac_simps)

lemma queued_mset: "queued ws = \<Sum>\<^sub># (image_mset (\<lambda>w. mset (wk_queue w)) (mset ws))"
  by (induction ws) simp_all

lemma mset_swap_remove:
  assumes "i < length xs"
  shows "mset xs = add_mset (xs ! i) (mset (swap_remove i xs))"
proof -
  obtain ys z where xs: "xs = ys @ [z]"
    using assms by (cases xs rule: rev_cases) auto
  show ?thesis
  proof (cases "i = length ys")
    case True
    then show ?thesis by (simp add: xs swap_remove_def)
  next
    case False
    then have "i < length ys"
      using assms xs by simp
    then show ?thesis
      by (simp add: xs swap_remove_def nth_append list_update_append mset_update)
  qed
qed

lemma queued_swap_remove:
  "i < length ws \<Longrightarrow> wk_queue (ws ! i) = [] \<Longrightarrow> queued (swap_remove i ws) = queued ws"
  using mset_swap_remove [of i ws] by (simp add: queued_mset)

lemma set_swap_remove: "i < length xs \<Longrightarrow> set (swap_remove i xs) \<subseteq> set xs"
  using mset_swap_remove [of i xs] by (metis mset_subset_eq_add_right set_mset_mono set_mset_mset add_mset_add_single
      union_mset_add_mset_right subset_mset.add_increasing2 subset_mset.order_refl subset_mset.zero_le)

lemma length_swap_remove: "i < length xs \<Longrightarrow> length (swap_remove i xs) = length xs - 1"
  by (auto simp: swap_remove_def)

lemma queued_filter_closed:
  "\<forall>w \<in> set ws. wk_finished w \<longrightarrow> wk_queue w = [] \<Longrightarrow> queued (filter (\<lambda>w. \<not> wk_finished w) ws) = queued ws"
  by (induction ws) auto

lemma replenish_induct:
  assumes "P ws" and "\<And>ws. P ws \<Longrightarrow> length ws < min_workers cfg \<Longrightarrow> length ws < max_workers cfg \<Longrightarrow> P (spawn_worker lua0 ws)"
  shows "P (replenish cfg lua0 ws)"
  using assms
proof (induction cfg lua0 ws rule: replenish.induct)
  case (1 cfg lua0 ws)
  show ?case
  proof (cases "length ws < min_workers cfg \<and> length ws < max_workers cfg")
    case True
    then have "P (spawn_worker lua0 ws)"
      using 1(2,3) by blast
    with 1(1) [OF True] 1(3) True show ?thesis
      by (subst replenish.simps) auto
  next
    case False
    with 1(2) show ?thesis
      by (subst replenish.simps) auto
  qed
qed

subsection \<open>The invariant is kept\<close>

lemma dispatch_job_ok:
  assumes "pool_ok rcv d"
  shows "pool_ok (rcv @ [j]) (dispatch_job cfg lua0 waiting j d)"
proof -
  define ws where "ws = (if 5 < waiting \<and> length (ds_workers d) < max_workers cfg
    then spawn_worker lua0 (ds_workers d) else ds_workers d)"
  have ws: "queued ws = queued (ds_workers d)" "\<forall>w \<in> set ws. \<not> wk_open w \<longrightarrow> wk_queue w = []"
    "\<forall>w \<in> set ws. wk_finished w \<longrightarrow> \<not> wk_open w"
    using assms by (auto simp: ws_def pool_ok_def spawn_worker_def)
  let ?n = "ds_next d mod length ws"
  have dj: "dispatch_job cfg lua0 waiting j d =
      (if ws = [] then finish j (Answered (Inl ''no workers available'')) (d\<lparr>ds_workers := ws\<rparr>)
       else if wk_open (ws ! ?n)
       then d\<lparr>ds_workers := ws[?n := enqueue j (ws ! ?n)], ds_next := ?n + 1\<rparr>
       else finish j Dropped (d\<lparr>ds_workers := swap_remove ?n ws, ds_next := ?n\<rparr>))"
    by (simp add: dispatch_job_def Let_def ws_def)
  show ?thesis
  proof (cases "ws = []")
    case True
    then show ?thesis
      using assms ws by (simp add: dj pool_ok_def finish_def settled_def)
  next
    case False
    then have n: "?n < length ws" by simp
    show ?thesis
    proof (cases "wk_open (ws ! ?n)")
      case True
      have "queued (ws[?n := enqueue j (ws ! ?n)]) = add_mset j (queued ws)"
        using queued_update [OF n, of "enqueue j (ws ! ?n)"] by (simp add: enqueue_def)
      moreover have "\<forall>w \<in> set (ws[?n := enqueue j (ws ! ?n)]).
          (\<not> wk_open w \<longrightarrow> wk_queue w = []) \<and> (wk_finished w \<longrightarrow> \<not> wk_open w)"
        using True ws n nth_mem [OF n] by (auto simp: enqueue_def dest!: set_update_subset_insert [THEN subsetD])
      ultimately show ?thesis
        using True False assms ws(1) by (simp add: dj pool_ok_def settled_def)
    next
      case closed: False
      then have "queued (swap_remove ?n ws) = queued ws"
        using ws(2) n by (intro queued_swap_remove) auto
      then show ?thesis
        using closed False assms ws set_swap_remove [OF n]
        by (auto simp: dj pool_ok_def finish_def settled_def)
    qed
  qed
qed

lemma cleanup_tick_ok:
  assumes "pool_ok rcv d"
  shows "pool_ok rcv (cleanup_tick cfg lua0 d)"
proof -
  let ?ws = "filter (\<lambda>w. \<not> wk_finished w) (ds_workers d)"
  let ?P = "\<lambda>ws. queued ws = queued (ds_workers d) \<and>
    (\<forall>w \<in> set ws. (\<not> wk_open w \<longrightarrow> wk_queue w = []) \<and> (wk_finished w \<longrightarrow> \<not> wk_open w))"
  have "?P ?ws"
    using assms queued_filter_closed [of "ds_workers d"] by (auto simp: pool_ok_def)
  then have "?P (replenish cfg lua0 ?ws)"
    by (rule replenish_induct [where P = ?P]) (auto simp: spawn_worker_def)
  then show ?thesis
    using assms by (auto simp: cleanup_tick_def pool_ok_def settled_def)
qed

lemma worker_steps_ok:
  assumes "pool_ok rcv d" and i: "i < length (ds_workers d)"
  shows "wk_open (ds_workers d ! i) \<Longrightarrow> pool_ok rcv (worker_serve call r i d)"
    and "pool_ok rcv (worker_stop i d)"
    and "\<not> wk_open (ds_workers d ! i) \<Longrightarrow> pool_ok rcv (worker_finish i d)"
proof -
  let ?w = "ds_workers d ! i"
  note w = nth_mem [OF i] and upd = set_update_subset_insert [THEN subsetD]
  show "pool_ok rcv (worker_serve call r i d)" if "wk_open ?w"
  proof (cases "wk_queue ?w")
    case Nil
    then show ?thesis
      using assms by (simp add: worker_serve_def)
  next
    case (Cons j js)
    obtain res l where "call_lua call r (snd j) (wk_lua ?w) = (res, l)"
      by (cases "call_lua call r (snd j) (wk_lua ?w)")
    then show ?thesis
      using Cons assms(1) that w queued_update [OF i, of "?w\<lparr>wk_queue := js, wk_lua := l\<rparr>"]
      by (auto simp: worker_serve_def pool_ok_def finish_def settled_def dest!: upd)
  qed
  show "pool_ok rcv (worker_stop i d)"
    using assms(1) w queued_update [OF i, of "?w\<lparr>wk_queue := [], wk_open := False\<rparr>"]
    by (auto simp: worker_stop_def Let_def pool_ok_def settled_def comp_def ac_simps dest!: upd)
  show "pool_ok rcv (worker_finish i d)" if "\<not> wk_open ?w"
    using assms(1) w that queued_update [OF i, of "?w\<lparr>wk_finished := True\<rparr>"]
    by (auto simp: worker_finish_def pool_ok_def settled_def dest!: upd)
qed

lemma dispatcher_new_workers:
  "set (ds_workers (dispatcher_new cfg lua0)) \<subseteq> {\<lparr>wk_queue = [], wk_open = True, wk_finished = False, wk_lua = lua0\<rparr>}"
  "length (ds_workers (dispatcher_new cfg lua0)) = min_workers cfg"
  "queued (ds_workers (dispatcher_new cfg lua0)) = {#}"
proof -
  have "set (((spawn_worker lua0) ^^ n) []) \<subseteq> {\<lparr>wk_queue = [], wk_open = True, wk_finished = False, wk_lua = lua0\<rparr>} \<and>
    length (((spawn_worker lua0) ^^ n) []) = n \<and> queued (((spawn_worker lua0) ^^ n) []) = {#}" for n
    by (induction n) (auto simp: spawn_worker_def)
  then show
    "set (ds_workers (dispatcher_new cfg lua0)) \<subseteq> {\<lparr>wk_queue = [], wk_open = True, wk_finished = False, wk_lua = lua0\<rparr>}"
    "length (ds_workers (dispatcher_new cfg lua0)) = min_workers cfg"
    "queued (ds_workers (dispatcher_new cfg lua0)) = {#}"
    by (simp_all add: dispatcher_new_def)
qed

lemma pool_run_ok: "pool_run cfg call rt lua0 (rcv, d) \<Longrightarrow> pool_ok rcv d"
proof (induction "(rcv, d)" arbitrary: rcv d rule: pool_run.induct)
  case init
  then show ?case
    using dispatcher_new_workers [of cfg lua0] by (auto simp: pool_ok_def settled_def dispatcher_new_def)
next
  case (step c)
  obtain rcv0 d0 where c: "c = (rcv0, d0)" by (cases c)
  with step have "pool_ok rcv0 d0" "pool_event cfg call rt lua0 (rcv0, d0) (rcv, d)" by auto
  then show ?case
    by (auto elim!: pool_event_E intro: dispatch_job_ok cleanup_tick_ok worker_steps_ok)
qed

subsection \<open>Sizes and round robin\<close>

lemma length_replenish:
  "length ws \<le> max (min_workers cfg) (max_workers cfg) \<Longrightarrow>
    length (replenish cfg lua0 ws) \<le> max (min_workers cfg) (max_workers cfg)"
  by (rule replenish_induct [where P = "\<lambda>ws. length ws \<le> max (min_workers cfg) (max_workers cfg)"])
    (auto simp: spawn_worker_def)

lemma replenish_enough: "min (min_workers cfg) (max_workers cfg) \<le> length (replenish cfg lua0 ws)"
proof (induction cfg lua0 ws rule: replenish.induct)
  case (1 cfg lua0 ws)
  then show ?case
    by (subst replenish.simps) auto
qed

lemma length_dispatch_job:
  "length (ds_workers d) \<le> max (min_workers cfg) (max_workers cfg) \<Longrightarrow>
    length (ds_workers (dispatch_job cfg lua0 waiting j d)) \<le> max (min_workers cfg) (max_workers cfg)"
  by (auto simp: dispatch_job_def Let_def finish_def spawn_worker_def length_swap_remove)

lemma pool_run_size:
  "pool_run cfg call rt lua0 (rcv, d) \<Longrightarrow> length (ds_workers d) \<le> max (min_workers cfg) (max_workers cfg)"
proof (induction "(rcv, d)" arbitrary: rcv d rule: pool_run.induct)
  case init
  then show ?case
    using dispatcher_new_workers(2) [of cfg lua0] by simp
next
  case (step c)
  obtain rcv0 d0 where c: "c = (rcv0, d0)" by (cases c)
  with step have len: "length (ds_workers d0) \<le> max (min_workers cfg) (max_workers cfg)"
    and "pool_event cfg call rt lua0 (rcv0, d0) (rcv, d)" by auto
  from this(2) show ?case
  proof (cases rule: pool_event.cases)
    case (receive j waiting)
    with length_dispatch_job [OF len] show ?thesis by simp
  next
    case tick
    have "length (filter (\<lambda>w. \<not> wk_finished w) (ds_workers d0)) \<le> max (min_workers cfg) (max_workers cfg)"
      using len length_filter_le le_trans by blast
    with tick show ?thesis
      by (simp add: cleanup_tick_def length_replenish)
  qed (use len in \<open>auto simp: worker_serve_def worker_stop_def worker_finish_def finish_def Let_def
      split: list.splits prod.splits\<close>)
qed

text \<open>
  C14: No request is lost or answered twice. After any steps of the dispatcher and the workers, in
  any order, the requests received are exactly those waiting in the channel of a worker that
  still reads it, each in one channel, and those settled: answered once, or dropped once.
\<close>

theorem worker_pool_conserves_requests:
  assumes "pool_run cfg call rt lua0 (rcv, d)"
  shows "mset rcv = queued (ds_workers d) + mset (map fst (ds_done d)) \<and>
    (\<forall>w \<in> set (ds_workers d). wk_queue w \<noteq> [] \<longrightarrow> wk_open w)"
  using pool_run_ok [OF assms] by (auto simp: pool_ok_def settled_def)

definition demo_job :: "nat \<Rightarrow> job" where
  "demo_job n = (n, \<lparr>hr_params = Map.empty, hr_data = [], hr_handler_name = ''h''\<rparr>)"

theorem worker_pool_conserves_requests_witness:
  "(let d1 = dispatch_job worker_config_default () 0 (demo_job 1) (dispatcher_new worker_config_default ());
        d2 = dispatch_job worker_config_default () 0 (demo_job 2) (worker_stop 0 d1) in
    mset [demo_job 1, demo_job 2] = queued (ds_workers d2) + mset (map fst (ds_done d2)) \<and>
    ds_done d2 = [(demo_job 1, Dropped), (demo_job 2, Dropped)])"
proof -
  let ?cfg = worker_config_default and ?rt = "Inl OpsBadType :: setup_error + nat handler_runtime"
  let ?call = "\<lambda>l f params data. (Inr [], l)"
  let ?d0 = "dispatcher_new ?cfg ()"
  let ?d1 = "dispatch_job ?cfg () 0 (demo_job 1) ?d0"
  let ?d2 = "dispatch_job ?cfg () 0 (demo_job 2) (worker_stop 0 ?d1)"
  have d1: "ds_workers ?d1 = [\<lparr>wk_queue = [demo_job 1], wk_open = True, wk_finished = False, wk_lua = ()\<rparr>]"
    by (simp add: dispatch_job_def dispatcher_new_def worker_config_default_def spawn_worker_def enqueue_def Let_def)
  have r0: "pool_run ?cfg ?call ?rt () ([], ?d0)"
    by (rule pool_run.init)
  from pool_run.step [OF r0 pool_event.receive] have "pool_run ?cfg ?call ?rt () ([demo_job 1], ?d1)"
    by (metis append_Nil)
  from pool_run.step [OF this pool_event.stop [of 0]] d1
  have "pool_run ?cfg ?call ?rt () ([demo_job 1], worker_stop 0 ?d1)"
    by simp
  from pool_run.step [OF this pool_event.receive]
  have "pool_run ?cfg ?call ?rt () ([demo_job 1] @ [demo_job 2], ?d2)" .
  from worker_pool_conserves_requests [OF this]
  have "mset [demo_job 1, demo_job 2] = queued (ds_workers ?d2) + mset (map fst (ds_done ?d2))"
    by simp
  moreover have "ds_done ?d2 = [(demo_job 1, Dropped), (demo_job 2, Dropped)]"
    by (simp add: dispatch_job_def dispatcher_new_def worker_config_default_def spawn_worker_def enqueue_def
        worker_stop_def finish_def Let_def)
  ultimately show ?thesis
    by (simp add: Let_def)
qed

text \<open>
  The size of the pool. There are never more workers than the larger of the two limits (the
  first workers are started without regard to the upper limit), and after every cleanup tick
  at least as many as the smaller of them.
\<close>

theorem worker_pool_size:
  assumes "pool_run cfg call rt lua0 (rcv, d)"
  shows "length (ds_workers d) \<le> max (min_workers cfg) (max_workers cfg) \<and>
    min (min_workers cfg) (max_workers cfg) \<le> length (ds_workers (cleanup_tick cfg lua0 d))"
  using pool_run_size [OF assms] by (simp add: cleanup_tick_def replenish_enough)

theorem worker_pool_size_witness:
  "length (ds_workers (dispatcher_new \<lparr>min_workers = 3, max_workers = 2, ttl_secs = 1\<rparr> ())) = 3 \<and>
   length (ds_workers (dispatcher_new \<lparr>min_workers = 3, max_workers = 2, ttl_secs = 1\<rparr> ())) \<le> 3"
  using worker_pool_size [OF pool_run.init [of "\<lparr>min_workers = 3, max_workers = 2, ttl_secs = 1\<rparr>"
      "\<lambda>l (f :: nat) params data. (Inr [], l)" "Inl OpsBadType" "()"]]
    dispatcher_new_workers(2) [of "\<lparr>min_workers = 3, max_workers = 2, ttl_secs = 1\<rparr>" "()"]
  by simp

lemma dispatch_job_open:
  assumes "ds_workers d \<noteq> []" and "\<forall>w \<in> set (ds_workers d). wk_open w" and "waiting \<le> 5"
  shows "dispatch_job cfg lua0 waiting j d =
    (let n = ds_next d mod length (ds_workers d) in
     d\<lparr>ds_workers := (ds_workers d)[n := enqueue j (ds_workers d ! n)], ds_next := n + 1\<rparr>)"
  using assms by (simp add: dispatch_job_def Let_def)

lemma round_robin_from:
  fixes cfg :: worker_config and lua0 :: 'l and d :: "'l dispatcher"
  assumes "ds_workers d \<noteq> []" and "\<forall>w \<in> set (ds_workers d). wk_open w" and "waiting \<le> 5"
  defines "n \<equiv> length (ds_workers d)" and "f \<equiv> dispatch_job cfg lua0 waiting"
  shows "length (ds_workers (fold f js d)) = n \<and> (\<forall>w \<in> set (ds_workers (fold f js d)). wk_open w) \<and>
    ds_next (fold f js d) mod n = (ds_next d + length js) mod n \<and> ds_done (fold f js d) = ds_done d \<and>
    (\<forall>i < n. wk_queue (ds_workers (fold f js d) ! i) = wk_queue (ds_workers d ! i) @
       map (nth js) (filter (\<lambda>k. (ds_next d + k) mod n = i) [0..<length js]))"
proof (induction js rule: rev_induct)
  case Nil
  then show ?case using assms(2) by (simp add: n_def)
next
  case (snoc j js)
  let ?d = "fold f js d" and ?m = "(ds_next d + length js) mod n"
  have n: "0 < n"
    using assms(1) by (simp add: n_def)
  have ne: "ds_workers ?d \<noteq> []" and len: "length (ds_workers ?d) = n"
    using snoc n by (metis list.size(3) less_irrefl, simp)
  have open_ws: "\<forall>w \<in> set (ds_workers ?d). wk_open w"
    using snoc by simp
  have d': "f j ?d = ?d\<lparr>ds_workers := (ds_workers ?d)[?m := enqueue j (ds_workers ?d ! ?m)], ds_next := ?m + 1\<rparr>"
    using dispatch_job_open [OF ne open_ws assms(3), of cfg lua0 j] snoc len by (simp add: f_def Let_def)
  have m: "?m < length (ds_workers ?d)"
    using n len by simp
  have "wk_open (ds_workers ?d ! ?m)"
    using open_ws nth_mem [OF m] by blast
  then have "\<forall>w \<in> set (ds_workers (f j ?d)). wk_open w"
    using open_ws by (auto simp: d' enqueue_def dest!: set_update_subset_insert [THEN subsetD])
  moreover have "(?m + 1) mod n = (ds_next d + length (js @ [j])) mod n"
    by (simp add: mod_Suc_eq)
  moreover have "wk_queue (ds_workers (f j ?d) ! i) = wk_queue (ds_workers d ! i) @
      map (nth (js @ [j])) (filter (\<lambda>k. (ds_next d + k) mod n = i) [0..<length (js @ [j])])" if "i < n" for i
  proof -
    have "map (nth (js @ [j])) (filter (\<lambda>k. (ds_next d + k) mod n = i) [0..<length js]) =
        map (nth js) (filter (\<lambda>k. (ds_next d + k) mod n = i) [0..<length js])"
      by (rule map_cong) (auto simp: nth_append)
    with snoc that len m show ?thesis
      by (auto simp: d' nth_list_update enqueue_def)
  qed
  ultimately show ?case
    using snoc len by (simp add: d')
qed

text \<open>
  Requests are spread evenly. While all workers read their channels and the queue of the
  dispatcher is short, the \<open>k\<close>-th of a list of requests goes to the worker \<open>next + k\<close> modulo the
  number of workers: every worker gets, in order, exactly the requests at its positions of
  the cycle, behind what it already had, and none is answered by the dispatcher itself.
\<close>

theorem worker_round_robin:
  assumes "ds_workers d \<noteq> []" and "\<forall>w \<in> set (ds_workers d). wk_open w" and "waiting \<le> 5"
    and "i < length (ds_workers d)"
  shows "wk_queue (ds_workers (fold (dispatch_job cfg lua0 waiting) js d) ! i) =
      wk_queue (ds_workers d ! i) @
      map (nth js) (filter (\<lambda>k. (ds_next d + k) mod length (ds_workers d) = i) [0..<length js]) \<and>
    ds_done (fold (dispatch_job cfg lua0 waiting) js d) = ds_done d"
  using round_robin_from [OF assms(1-3), of cfg lua0 js] assms(4) by blast

theorem worker_round_robin_witness:
  "wk_queue (ds_workers (fold (dispatch_job worker_config_default () 0) [demo_job 0, demo_job 1, demo_job 2]
      (dispatcher_new \<lparr>min_workers = 2, max_workers = 2, ttl_secs = 1\<rparr> ())) ! 0) = [demo_job 0, demo_job 2]"
proof -
  let ?d = "dispatcher_new \<lparr>min_workers = 2, max_workers = 2, ttl_secs = 1\<rparr> ()"
  have d: "ds_workers ?d = replicate 2 \<lparr>wk_queue = [], wk_open = True, wk_finished = False, wk_lua = ()\<rparr>" "ds_next ?d = 0"
    by (simp_all add: dispatcher_new_def spawn_worker_def numeral_2_eq_2)
  have "[0..<3] = [0, 1, 2 :: nat]"
    by (simp add: upt_rec)
  then show ?thesis
    using worker_round_robin [of ?d 0 0 worker_config_default "()" "[demo_job 0, demo_job 1, demo_job 2]"] d
    by simp
qed

text \<open>What the router sees of a settled job.\<close>

definition outcome_of :: "job_outcome \<Rightarrow> handler_outcome" where
  "outcome_of r = (case r of Answered a \<Rightarrow> HandlerReply a | Dropped \<Rightarrow> ReplyDropped)"

text \<open>
  A request that meets a dead worker is not retried. If the worker whose turn it is has
  stopped, the request is dropped although other workers may be alive: the worker is taken
  out of the pool, no channel gets the request, and a frontend that sent it through the
  router is told that the handler did not respond.
\<close>

theorem dead_worker_drops_request:
  assumes "ds_workers d \<noteq> []" and "waiting \<le> 5" and "n = ds_next d mod length (ds_workers d)"
    and "\<not> wk_open (ds_workers d ! n)"
  shows "dispatch_job cfg lua0 waiting j d =
      d\<lparr>ds_workers := swap_remove n (ds_workers d), ds_next := n, ds_done := ds_done d @ [(j, Dropped)]\<rparr> \<and>
    (\<forall>at req meta w. forwarded at req = Some (meta, snd j) \<longrightarrow>
      fst (dispatch at (\<lambda>w h. (outcome_of Dropped, w)) w req) = Some (Inl ''handler did not respond''))"
  using assms by (simp add: dispatch_job_def Let_def finish_def outcome_of_def dispatch_forwarded)

theorem dead_worker_drops_request_witness:
  "(let alive = \<lparr>wk_queue = [], wk_open = True, wk_finished = False, wk_lua = ()\<rparr>;
        dead = alive\<lparr>wk_open := False\<rparr>;
        d = \<lparr>ds_workers = [dead, alive], ds_next = 0, ds_done = []\<rparr> in
    dispatch_job worker_config_default () 0 (demo_job 7) d =
      \<lparr>ds_workers = [alive], ds_next = 0, ds_done = [(demo_job 7, Dropped)]\<rparr>)"
  using dead_worker_drops_request [of "\<lparr>ds_workers = [\<lparr>wk_queue = [], wk_open = False, wk_finished = False, wk_lua = ()\<rparr>,
      \<lparr>wk_queue = [], wk_open = True, wk_finished = False, wk_lua = ()\<rparr>], ds_next = 0, ds_done = []\<rparr>" 0 0
      worker_config_default "()" "demo_job 7"]
  by (auto simp: swap_remove_def Let_def)

end
