(* ===== verification/Program.thy ===== *)
theory Program
  imports Ninep_Session Ssh_Auth Worker_Pool
begin

text \<open>
  The program as \<open>main\<close> puts it together (\<open>src/src/main.rs\<close>): which script is loaded, which
  frontends are started from its configuration, and a whole request path: a 9P client, the 9P
  server, the router with the route table of the script, the dispatcher with its workers, and the
  Lua function.

  Reading files and standard input and starting tasks are left to parameters; the directory of
  the script, which only sets the search path of Lua modules, is left out.
\<close>

subsection \<open>Loading the script\<close>

definition strip_shebang :: "string \<Rightarrow> string" where
  "strip_shebang script =
     (if starts_with ''#!'' script then
        (case split_once (CHR 0x0A) script of Some (_, rest) \<Rightarrow> rest | None \<Rightarrow> [])
      else script)"

text \<open>
  \<open>args\<close> are the arguments behind the program name, \<open>read\<close> is \<open>std::fs::read_to_string\<close>, \<open>stdin\<close> is
  what standard input holds if it is not a terminal. \<open>None\<close>: the process exits with an error.
\<close>

definition load_script ::
    "string list \<Rightarrow> (string \<Rightarrow> string + string) \<Rightarrow> (string + string) option \<Rightarrow> string option" where
  "load_script args read stdin =
     (let piped =
        (case stdin of
           None \<Rightarrow> None
         | Some (Inl e) \<Rightarrow> None
         | Some (Inr s) \<Rightarrow> if 0 < length s then Some (strip_shebang s) else None) in
      case args of
        path # _ \<Rightarrow>
          if \<not> starts_with ''-'' path then
            (case read path of Inr s \<Rightarrow> Some (strip_shebang s) | Inl e \<Rightarrow> None)
          else piped
      | [] \<Rightarrow> piped)"

subsection \<open>Starting the frontends\<close>

datatype frontend =
    FuseMount string
  | NinepUnix string
  | NinepTcp string "nat option"
  | NinepTls string string string
  | NinepUdp string
  | Sshfs string sshfs_config

text \<open>The task for a 9P address; an address without a known prefix and TLS without its files start none.\<close>

definition ninep_frontend :: "config \<Rightarrow> string \<Rightarrow> frontend option" where
  "ninep_frontend cfg listener =
     (case strip_prefix ''sock:'' listener of
        Some path \<Rightarrow> Some (NinepUnix path)
      | None \<Rightarrow>
     (case strip_prefix ''tcp:'' listener of
        Some addr \<Rightarrow> Some (NinepTcp addr (ninep_max_conns cfg))
      | None \<Rightarrow>
     (case strip_prefix ''tls:'' listener of
        Some addr \<Rightarrow>
          (case (tls_cert_path cfg, tls_key_path cfg) of
             (Some c, Some k) \<Rightarrow> Some (NinepTls addr c k)
           | _ \<Rightarrow> None)
      | None \<Rightarrow>
     (case strip_prefix ''udp:'' listener of
        Some addr \<Rightarrow> Some (NinepUdp addr)
      | None \<Rightarrow> None))))"

definition sshfs_frontend :: "config \<Rightarrow> string \<Rightarrow> frontend" where
  "sshfs_frontend cfg listener =
     Sshfs listener \<lparr>cfg_password = sshfs_password cfg, cfg_authorized_keys_path = sshfs_authorized_keys_path cfg,
       cfg_userpasswds = sshfs_userpasswds cfg, cfg_max_conns = sshfs_max_conns cfg\<rparr>"

definition frontends :: "config \<Rightarrow> frontend list" where
  "frontends cfg =
     (let has_config = (fuse_mounts cfg \<noteq> [] \<or> ninep_listeners cfg \<noteq> [] \<or> sshfs_listeners cfg \<noteq> []) in
      if has_config then
        map FuseMount (fuse_mounts cfg) @ List.map_filter (ninep_frontend cfg) (ninep_listeners cfg) @
        map (sshfs_frontend cfg) (sshfs_listeners cfg)
      else [])"

lemma shebang_stripped: "CHR 0x0A \<notin> set line \<Longrightarrow> strip_shebang (''#!'' @ line @ CHR 0x0A # script) = script"
  by (simp add: strip_shebang_def starts_with_def split_once_def takeWhile_before dropWhile_before)

lemma ninep_frontend_iff:
  "ninep_frontend cfg a = Some f \<longleftrightarrow>
     (\<exists>x. a = ''sock:'' @ x \<and> f = NinepUnix x \<or> a = ''tcp:'' @ x \<and> f = NinepTcp x (ninep_max_conns cfg) \<or>
       a = ''udp:'' @ x \<and> f = NinepUdp x \<or>
       (\<exists>c k. a = ''tls:'' @ x \<and> tls_cert_path cfg = Some c \<and> tls_key_path cfg = Some k \<and> f = NinepTls x c k))"
proof -
  have none: "strip_prefix p s = None \<longleftrightarrow> (\<forall>r. s \<noteq> p @ r)" for p s
    using strip_prefix_iff [of p s] by (metis option.exhaust option.distinct(1))
  show ?thesis
    by (auto simp: ninep_frontend_def strip_prefix_iff none split: option.splits)
qed

lemma in_frontends_iff:
  "f \<in> set (frontends cfg) \<longleftrightarrow>
     f \<in> FuseMount ` set (fuse_mounts cfg) \<or> (\<exists>a \<in> set (ninep_listeners cfg). ninep_frontend cfg a = Some f) \<or>
     f \<in> sshfs_frontend cfg ` set (sshfs_listeners cfg)"
  by (auto simp: frontends_def Let_def map_filter_def) force+

lemma compiled_config:
  assumes "compile interp script = Inr (cfg, rs, code, wc)" and "interp script = (calls, failure)"
  shows "ninep_listeners cfg = live_listeners calls" and "sshfs_password cfg = last_password calls"
proof -
  have "setup_calls False calls setup_new = Inr s \<Longrightarrow> ss_config s = fold config_call calls config_default" for s
    using setup_calls_config [of calls setup_new s] by (simp add: setup_new_def)
  then have "cfg = fold config_call calls config_default"
    using assms by (auto simp: compile_def exec_script_def split: sum.splits option.splits)
  then show "ninep_listeners cfg = live_listeners calls" and "sshfs_password cfg = last_password calls"
    by (simp_all add: fold_listeners fold_password config_default_def split: option.split)
qed

text \<open>
  The frontends that run are the ones the script asked for: a 9P server on an address is
  started exactly if the script listens on it with that prefix and does not kill it
  afterwards (with TLS, only if certificate and key are set), and every SSH server checks
  the last password that the script set.
\<close>

theorem script_starts_frontends:
  assumes "compile interp script = Inr (cfg, rs, code, wc)" and "interp script = (calls, failure)"
  shows "(NinepUnix x \<in> set (frontends cfg) \<longleftrightarrow> ''sock:'' @ x \<in> set (live_listeners calls)) \<and>
    (NinepTcp x mc \<in> set (frontends cfg) \<longleftrightarrow> ''tcp:'' @ x \<in> set (live_listeners calls) \<and> mc = ninep_max_conns cfg) \<and>
    (NinepUdp x \<in> set (frontends cfg) \<longleftrightarrow> ''udp:'' @ x \<in> set (live_listeners calls)) \<and>
    (NinepTls x c k \<in> set (frontends cfg) \<longleftrightarrow> ''tls:'' @ x \<in> set (live_listeners calls) \<and>
      tls_cert_path cfg = Some c \<and> tls_key_path cfg = Some k) \<and>
    (Sshfs x sc \<in> set (frontends cfg) \<longrightarrow> cfg_password sc = last_password calls)"
  using compiled_config [OF assms] by (auto simp: in_frontends_iff ninep_frontend_iff sshfs_frontend_def)

subsection \<open>The handler side\<close>

text \<open>
  One request at a time: the dispatcher hands it to a worker, the workers run until their
  channels are empty, and the reply is what the request was settled with.
\<close>

definition pool_side ::
    "worker_config \<Rightarrow> ('f, 'l) lua_call \<Rightarrow> 'f handler_runtime \<Rightarrow> 'l \<Rightarrow> 'l dispatcher handler_side" where
  "pool_side cfg call rt lua0 d req =
     (let d1 = dispatch_job cfg lua0 0 (length (ds_done d), req) d;
          d2 = fold (worker_serve call rt) [0..<length (ds_workers d1)] d1 in
      (case drop (length (ds_done d)) (ds_done d2) of
         (_, Answered r) # _ \<Rightarrow> HandlerReply r
       | _ \<Rightarrow> ReplyDropped, d2))"

definition pool_idle :: "'l dispatcher \<Rightarrow> bool" where
  "pool_idle d \<longleftrightarrow> ds_workers d \<noteq> [] \<and> (\<forall>w \<in> set (ds_workers d). wk_open w \<and> wk_queue w = [])"

lemma serve_empty: "i < length (ds_workers d) \<Longrightarrow> wk_queue (ds_workers d ! i) = [] \<Longrightarrow> worker_serve call rt i d = d"
  by (simp add: worker_serve_def)

lemma serve_others:
  "\<forall>i \<in> set is. i < length (ds_workers d) \<and> wk_queue (ds_workers d ! i) = [] \<Longrightarrow>
    fold (worker_serve call rt) is d = d"
  by (induction "is") (auto simp: serve_empty)

lemma pool_side_idle:
  assumes "pool_idle d"
  shows "\<exists>l d'. pool_side cfg call rt lua0 d req = (HandlerReply (fst (call_lua call rt req l)), d') \<and> pool_idle d'"
proof -
  let ?ws = "ds_workers d" and ?j = "(length (ds_done d), req)"
  define i where "i = ds_next d mod length ?ws"
  have i: "i < length ?ws" "wk_open (?ws ! i)" "wk_queue (?ws ! i) = []"
    using assms by (auto simp: pool_idle_def i_def)
  let ?d1 = "d\<lparr>ds_workers := ?ws[i := enqueue ?j (?ws ! i)], ds_next := i + 1\<rparr>"
  let ?l = "wk_lua (?ws ! i)"
  let ?d2 = "d\<lparr>ds_next := i + 1, ds_workers := ?ws[i := (?ws ! i)\<lparr>wk_queue := [], wk_lua := snd (call_lua call rt req ?l)\<rparr>],
      ds_done := ds_done d @ [(?j, Answered (fst (call_lua call rt req ?l)))]\<rparr>"
  have d1: "dispatch_job cfg lua0 0 ?j d = ?d1"
    using assms i by (simp add: dispatch_job_def Let_def pool_idle_def i_def)
  have "[0..<length ?ws] = [0..<i] @ i # [Suc i..<length ?ws]"
    using upt_add_eq_append [of 0 i "length ?ws - i"] upt_conv_Cons [OF i(1)] i(1) by simp
  moreover have "fold (worker_serve call rt) [0..<i] ?d1 = ?d1"
    using assms i by (intro serve_others) (auto simp: pool_idle_def)
  moreover have "worker_serve call rt i ?d1 = ?d2"
    using i by (simp add: worker_serve_def enqueue_def finish_def case_prod_unfold Let_def)
  moreover have "fold (worker_serve call rt) [Suc i..<length ?ws] ?d2 = ?d2"
    using assms i by (intro serve_others) (auto simp: pool_idle_def)
  ultimately have d2: "fold (worker_serve call rt) [0..<length (ds_workers ?d1)] ?d1 = ?d2"
    by simp
  have "pool_idle ?d2"
    using assms i by (auto simp: pool_idle_def set_update_memI dest!: set_update_subset_insert [THEN subsetD])
  then show ?thesis
    using d1 d2 by (intro exI [of _ ?l] exI [of _ ?d2]) (simp add: pool_side_def Let_def)
qed

subsection \<open>The whole path\<close>

text \<open>
  The answer of a router that starts in a state \<open>w\<close>, as a function of the calls made before: its
  state is what those calls have made of \<open>w\<close>.
\<close>

fun after_calls :: "'w router \<Rightarrow> 'w \<Rightarrow> call_log \<Rightarrow> 'w" where
  "after_calls rt w [] = w"
| "after_calls rt w ((op, p, d) # calls) = after_calls rt (snd (rt w op p d)) calls"

definition history :: "'w router \<Rightarrow> 'w \<Rightarrow> call_log \<Rightarrow> fs_operation \<Rightarrow> string \<Rightarrow> bytes \<Rightarrow> router_result" where
  "history rt w calls op p d = fst (rt (after_calls rt w calls) op p d)"

lemma after_calls_append [simp]:
  "after_calls rt w (calls @ [(op, p, d)]) = snd (rt (after_calls rt w calls) op p d)"
  by (induction calls arbitrary: w) auto

text \<open>A task run against the log of the calls behaves as one run against the router itself.\<close>

lemma run_history:
  "run (log_router (history rt w0)) m s calls = (r, out, s', calls') \<Longrightarrow>
    run rt m s (after_calls rt w0 calls) = (r, out, s', after_calls rt w0 calls')"
proof (induction m arbitrary: s calls out)
  case (Call op p d c)
  let ?reply = "fst (rt (after_calls rt w0 calls) op p d)"
  have "log_router (history rt w0) calls op p d = (?reply, calls @ [(op, p, d)])"
    by (simp add: log_router_def history_def)
  then have "run (log_router (history rt w0)) (c ?reply) s (calls @ [(op, p, d)]) = (r, out, s', calls')"
    using Call.prems by simp
  from Call.IH [OF rangeI this] show ?case
    by simp
next
  case (Send bs m)
  obtain r' out1 s1 calls1 where m: "run (log_router (history rt w0)) m s calls = (r', out1, s1, calls1)"
    by (cases "run (log_router (history rt w0)) m s calls") auto
  then show ?case
    using Send.prems Send.IH [of s calls out1] by auto
qed simp_all

text \<open>The program behind a frontend: the router over the worker pool.\<close>

definition program_router ::
    "trie_at \<Rightarrow> worker_config \<Rightarrow> ('f, 'l) lua_call \<Rightarrow> 'f handler_runtime \<Rightarrow> 'l \<Rightarrow> 'l dispatcher router" where
  "program_router at wc call rt lua0 = route_request at (pool_side wc call rt lua0)"

lemma program_router_idle:
  assumes "pool_idle d"
  shows "pool_idle (snd (program_router at wc call rt lua0 d op p x))"
proof (cases "forwarded at \<lparr>rq_op = op, rq_path = p, rq_data = x\<rparr>")
  case None
  then show ?thesis
    using dispatch_rejected [OF None, of "pool_side wc call rt lua0" d] assms
    by (auto simp: program_router_def route_request_def)
next
  case (Some mh)
  obtain meta h where mh: "mh = (meta, h)"
    by (cases mh)
  obtain l d' where "pool_side wc call rt lua0 d h = (HandlerReply (fst (call_lua call rt h l)), d')" "pool_idle d'"
    using pool_side_idle [OF assms] by blast
  then show ?thesis
    using dispatch_forwarded [of at _ meta h "pool_side wc call rt lua0" d] Some mh
    by (auto simp: program_router_def route_request_def split: sum.splits)
qed

lemma after_calls_idle:
  "pool_idle d \<Longrightarrow> pool_idle (after_calls (program_router at wc call rt lua0) d calls)"
  by (induction "program_router at wc call rt lua0" d calls rule: after_calls.induct)
    (simp_all add: program_router_idle)

lemma dispatcher_new_idle: "0 < min_workers wc \<Longrightarrow> pool_idle (dispatcher_new wc lua0)"
  using dispatcher_new_workers [of wc lua0] by (auto simp: pool_idle_def)

text \<open>The function that a script gives to an operation on a pattern.\<close>

definition script_func :: "(string \<times> string list \<times> 'f) list \<Rightarrow> string \<Rightarrow> fs_operation \<Rightarrow> 'f option" where
  "script_func rs pat op =
     (case last_func rs pat (as_str op) of Some g \<Rightarrow> Some g | None \<Rightarrow> last_func rs pat ''*'')"

lemma script_func_installed:
  assumes "compile interp script = Inr (cfg, rs, code, wc)" and "from_bytecodes interp code = Inr rt"
    and "pattern_map rs pat = Some meta" and "script_func (registrations (fst (interp script))) pat op = Some f"
  shows "\<exists>name. select_handler meta op = Some name \<and> rt_funcs rt name = Some f"
proof -
  obtain calls failure where i: "interp script = (calls, failure)"
    by (cases "interp script")
  obtain s where s: "exec_script interp False script = Inr s" "rs = ss_routes s" "code = script"
    using assms(1) by (auto simp: compile_def split: sum.splits)
  let ?R = "registrations calls"
  have rs: "rs = named_routes 0 ?R" and "rt_funcs rt = map_of (named_funcs 0 ?R)"
    using exec_script_accepted [OF s(1) i] s assms(2) by (auto simp: from_bytecodes_def)
  then show ?thesis
    using select_handler_table [OF assms(3), of op] assms(4) i
      last_claim_named [where k = 0 and rs = ?R and pat = pat and op = "as_str op"]
      last_claim_named [where k = 0 and rs = ?R and pat = pat and op = "''*''"]
    by (auto simp: script_func_def split: option.splits)
qed

lemma program_answers:
  assumes "pool_idle d" and "at p = Inr (meta, params)" and "\<not> has_children at p (rm_pattern meta)"
    and "select_handler meta op = Some name" and "rt_funcs rt name = Some f"
    and "\<And>l. fst (call l f (map_of (rev params)) LNil) = Inr (content l)"
  shows "\<exists>resp l. fst (program_router at wc call rt lua0 d op p []) = Replied (Inr resp) \<and> resp_data resp = content l"
proof -
  let ?h = "\<lparr>hr_params = map_of (rev params), hr_data = [], hr_handler_name = name\<rparr>"
  have fwd: "forwarded at \<lparr>rq_op = op, rq_path = p, rq_data = []\<rparr> = Some (meta, ?h)"
    using assms(2-4) by (simp add: forwarded_def)
  obtain l d' where side: "pool_side wc call rt lua0 d ?h = (HandlerReply (fst (call_lua call rt ?h l)), d')"
    using pool_side_idle [OF assms(1)] by blast
  have "fst (call_lua call rt ?h l) =
      Inr \<lparr>resp_data = content l, resp_matched_pattern = None, resp_has_children = False\<rparr>"
    using assms(5,6) by (simp add: call_lua_def case_prod_unfold Let_def lua_response_def)
  then show ?thesis
    using dispatch_forwarded [OF fwd, of "pool_side wc call rt lua0" d] side
    by (intro exI [of _ "\<lparr>resp_data = content l, resp_matched_pattern = Some (rm_pattern meta),
        resp_has_children = has_children at p (rm_pattern meta)\<rparr>"] exI [of _ l])
      (simp add: program_router_def route_request_def)
qed

lemma script_answers:
  assumes "compile interp script = Inr (cfg, rs, code, wc)" and "from_bytecodes interp code = Inr rt"
    and "pattern_map rs pat = Some meta" and "at p = Inr (meta, params)" and "\<not> has_children at p (rm_pattern meta)"
    and "script_func (registrations (fst (interp script))) pat op = Some f"
    and "\<And>l. fst (call l f (map_of (rev params)) LNil) = Inr (content l)" and "pool_idle d"
  shows "\<exists>resp l. fst (program_router at wc' call rt lua0 d op p []) = Replied (Inr resp) \<and> resp_data resp = content l"
proof -
  obtain name where "select_handler meta op = Some name" "rt_funcs rt name = Some f"
    using script_func_installed [OF assms(1-3,6)] by blast
  from program_answers [where call = call and f = f and content = content, OF assms(8,4,5) this assms(7)] show ?thesis .
qed


definition demo_routes :: "route_registration list" where
  "demo_routes = named_routes 0 [(''/a'', bundle_ops BRead, 1), (''/a'', [''read''], 2 :: nat)]"

definition demo_meta :: route_meta where
  "demo_meta = the (pattern_map demo_routes ''/a'')"

definition demo_trie :: trie_at where
  "demo_trie p = (if p = ''/a'' then Inr (demo_meta, []) else Inl ''not found'')"

definition demo_call :: "(nat, nat) lua_call" where
  "demo_call l f params data = (Inr (if f = 2 then as_bytes ''hello'' else []), Suc l)"

lemma demo_meta: "pattern_map demo_routes ''/a'' = Some demo_meta"
  by (simp add: demo_meta_def demo_routes_def pattern_map_def)

lemma demo_funcs:
  "script_func (registrations (fst (demo_interp []))) ''/a'' Lookup = Some 1"
  "script_func (registrations (fst (demo_interp []))) ''/a'' Open = Some 1"
  "script_func (registrations (fst (demo_interp []))) ''/a'' Read = Some 2"
  by (simp_all add: script_func_def demo_interp_def registrations_def map_filter_simps last_func_def demo_text)

theorem script_starts_frontends_witness:
  "NinepUnix ''/y'' \<in> set (frontends (config_default\<lparr>ninep_listeners := [''sock:/y'']\<rparr>)) \<and>
   NinepUnix ''/x'' \<notin> set (frontends (config_default\<lparr>ninep_listeners := [''sock:/y'']\<rparr>))"
  using script_starts_frontends [OF demo_compile surjective_pairing, of "''/x''"]
    script_starts_frontends [OF demo_compile surjective_pairing, of "''/y''"]
  by (simp add: demo_interp_def)


end
