(* ===== verification/Fair_Runs.thy ===== *)
theory Fair_Runs
  imports Main
begin

text \<open>
  Concurrent components as labelled transition systems: a label names the task that makes the
  step. \<open>reach\<close> is the set of reachable states; a fair run is an infinite sequence of states in
  which every step is a step of a task or leaves the state alone, and in which a task of a given
  set that can make a step from some moment on without a break makes one (weak fairness: the
  scheduler does not starve a task that is ready).

  The locale \<open>invariant_system\<close> holds the proof rules that the concurrent components share:
  invariants of reachable states and of runs, and progress under fairness.
\<close>

inductive reach :: "('s \<Rightarrow> bool) \<Rightarrow> ('a \<Rightarrow> 's \<Rightarrow> 's \<Rightarrow> bool) \<Rightarrow> 's \<Rightarrow> bool" for init step where
  initial: "init s \<Longrightarrow> reach init step s"
| moved: "reach init step s \<Longrightarrow> step a s s' \<Longrightarrow> reach init step s'"

definition enabled :: "('a \<Rightarrow> 's \<Rightarrow> 's \<Rightarrow> bool) \<Rightarrow> 'a \<Rightarrow> 's \<Rightarrow> bool" where
  "enabled step a s \<longleftrightarrow> (\<exists>s'. step a s s')"

text \<open>A run: \<open>\<tau> n\<close> is the task that makes the step at \<open>n\<close>, \<open>None\<close> if no task does.\<close>

definition is_run :: "('s \<Rightarrow> bool) \<Rightarrow> ('a \<Rightarrow> 's \<Rightarrow> 's \<Rightarrow> bool) \<Rightarrow> (nat \<Rightarrow> 's) \<Rightarrow> (nat \<Rightarrow> 'a option) \<Rightarrow> bool" where
  "is_run init step \<sigma> \<tau> \<longleftrightarrow>
     init (\<sigma> 0) \<and> (\<forall>n. case \<tau> n of None \<Rightarrow> \<sigma> (Suc n) = \<sigma> n | Some a \<Rightarrow> step a (\<sigma> n) (\<sigma> (Suc n)))"

definition weakly_fair :: "'a set \<Rightarrow> ('a \<Rightarrow> 's \<Rightarrow> 's \<Rightarrow> bool) \<Rightarrow> (nat \<Rightarrow> 's) \<Rightarrow> (nat \<Rightarrow> 'a option) \<Rightarrow> bool" where
  "weakly_fair F step \<sigma> \<tau> \<longleftrightarrow>
     (\<forall>a k. a \<in> F \<longrightarrow> (\<forall>n \<ge> k. enabled step a (\<sigma> n)) \<longrightarrow> (\<exists>n \<ge> k. \<tau> n = Some a))"

definition fair_run ::
    "'a set \<Rightarrow> ('s \<Rightarrow> bool) \<Rightarrow> ('a \<Rightarrow> 's \<Rightarrow> 's \<Rightarrow> bool) \<Rightarrow> (nat \<Rightarrow> 's) \<Rightarrow> (nat \<Rightarrow> 'a option) \<Rightarrow> bool" where
  "fair_run F init step \<sigma> \<tau> \<longleftrightarrow> is_run init step \<sigma> \<tau> \<and> weakly_fair F step \<sigma> \<tau>"

lemma is_run_step: "is_run init step \<sigma> \<tau> \<Longrightarrow> \<tau> n = Some a \<Longrightarrow> step a (\<sigma> n) (\<sigma> (Suc n))"
  by (auto simp: is_run_def dest!: spec [of _ n])

lemma is_run_cases: "is_run init step \<sigma> \<tau> \<Longrightarrow> \<sigma> (Suc n) = \<sigma> n \<or> (\<exists>a. step a (\<sigma> n) (\<sigma> (Suc n)))"
  by (auto simp: is_run_def split: option.splits dest!: spec [of _ n])

lemma is_run_reach: "is_run init step \<sigma> \<tau> \<Longrightarrow> reach init step (\<sigma> n)"
proof (induction n)
  case 0
  then show ?case by (auto simp: is_run_def intro: reach.initial)
next
  case (Suc n)
  then show ?case using is_run_cases [of init step \<sigma> \<tau> n] by (metis reach.moved)
qed

text \<open>A run that makes finitely many steps, given as the list of its labels and states, and then rests.\<close>

definition finite_run :: "('a \<times> 's) list \<Rightarrow> 's \<Rightarrow> (nat \<Rightarrow> 's) \<times> (nat \<Rightarrow> 'a option)" where
  "finite_run xs s0 =
     (\<lambda>n. (s0 # map snd xs) ! min n (length xs), \<lambda>n. if n < length xs then Some (fst (xs ! n)) else None)"

fun follows :: "('a \<Rightarrow> 's \<Rightarrow> 's \<Rightarrow> bool) \<Rightarrow> 's \<Rightarrow> ('a \<times> 's) list \<Rightarrow> bool" where
  "follows step s [] = True"
| "follows step s ((a, s') # xs) = (step a s s' \<and> follows step s' xs)"

lemma follows_nth:
  "follows step s0 xs \<Longrightarrow> n < length xs \<Longrightarrow>
    step (fst (xs ! n)) ((s0 # map snd xs) ! n) (snd (xs ! n))"
  by (induction step s0 xs arbitrary: n rule: follows.induct) (auto simp: nth_Cons split: nat.splits)

lemma follows_append:
  "follows step s (xs @ ys) \<longleftrightarrow> follows step s xs \<and> follows step (last (s # map snd xs)) ys"
  by (induction step s xs rule: follows.induct) auto

lemma finite_run_fair:
  assumes "init s0" and "follows step s0 xs" and "\<And>a. a \<in> F \<Longrightarrow> \<not> enabled step a (last (s0 # map snd xs))"
  shows "fair_run F init step (fst (finite_run xs s0)) (snd (finite_run xs s0))"
proof -
  let ?\<sigma> = "fst (finite_run xs s0)" and ?\<tau> = "snd (finite_run xs s0)"
  have "step (fst (xs ! n)) (?\<sigma> n) (?\<sigma> (Suc n))" if "n < length xs" for n
    using follows_nth [OF assms(2) that] that by (simp add: finite_run_def min_def)
  then have "is_run init step ?\<sigma> ?\<tau>"
    using assms(1) by (auto simp: is_run_def finite_run_def)
  moreover have "?\<sigma> (length xs + k) = last (s0 # map snd xs)" for k
    by (simp add: finite_run_def last_conv_nth del: last.simps)
  then have "\<exists>n \<ge> k. ?\<sigma> n = last (s0 # map snd xs)" for k
    by (metis le_add2)
  then have "weakly_fair F step ?\<sigma> ?\<tau>"
    using assms(3) unfolding weakly_fair_def by metis
  ultimately show ?thesis
    by (simp add: fair_run_def)
qed

subsection \<open>Proof rules\<close>

locale invariant_system =
  fixes init :: "'s \<Rightarrow> bool" and step :: "'a \<Rightarrow> 's \<Rightarrow> 's \<Rightarrow> bool" and inv :: "'s \<Rightarrow> bool"
  assumes inv_init: "init s \<Longrightarrow> inv s"
    and inv_step: "inv s \<Longrightarrow> step a s s' \<Longrightarrow> inv s'"
begin

lemma reach_inv: "reach init step s \<Longrightarrow> inv s"
  by (induction rule: reach.induct) (auto intro: inv_init inv_step)

lemma run_inv: "fair_run F init step \<sigma> \<tau> \<Longrightarrow> inv (\<sigma> n)"
  by (auto simp: fair_run_def intro: reach_inv is_run_reach)

text \<open>What holds until something happens: every step keeps \<open>P\<close> or brings \<open>Q\<close>.\<close>

lemma unless:
  assumes run: "fair_run F init step \<sigma> \<tau>" and "P (\<sigma> k)"
    and stays: "\<And>b s s'. inv s \<Longrightarrow> P s \<Longrightarrow> step b s s' \<Longrightarrow> P s' \<or> Q s'"
    and "\<And>m. k \<le> m \<Longrightarrow> \<not> Q (\<sigma> m)" and "k \<le> n"
  shows "P (\<sigma> n)"
  using \<open>k \<le> n\<close>
proof (induction n rule: dec_induct)
  case base
  show ?case by fact
next
  case (step n)
  have "is_run init step \<sigma> \<tau>"
    using run by (simp add: fair_run_def)
  from is_run_cases [OF this, of n] show ?case
    using step stays [OF run_inv [OF run]] assms(4) [of "Suc n"] by (metis le_SucI)
qed

text \<open>Progress by one task: it can act as long as \<open>P\<close> holds, and when it acts, \<open>Q\<close> holds.\<close>

lemma ensures:
  assumes run: "fair_run F init step \<sigma> \<tau>" and "a \<in> F" and "P (\<sigma> k)"
    and stays: "\<And>b s s'. inv s \<Longrightarrow> P s \<Longrightarrow> step b s s' \<Longrightarrow> P s' \<or> Q s'"
    and ready: "\<And>s. inv s \<Longrightarrow> P s \<Longrightarrow> enabled step a s"
    and acts: "\<And>s s'. inv s \<Longrightarrow> P s \<Longrightarrow> step a s s' \<Longrightarrow> Q s'"
  shows "\<exists>m \<ge> k. Q (\<sigma> m)"
proof (rule ccontr)
  assume "\<not> ?thesis"
  then have no: "\<not> Q (\<sigma> m)" if "k \<le> m" for m
    using that by blast
  have P: "P (\<sigma> n)" if "k \<le> n" for n
    using unless [of F \<sigma> \<tau> P k Q n] run assms(3) stays no that by blast
  then have "\<forall>n \<ge> k. enabled step a (\<sigma> n)"
    using ready run_inv [OF run] by blast
  then obtain n where "k \<le> n" "\<tau> n = Some a"
    using run \<open>a \<in> F\<close> unfolding fair_run_def weakly_fair_def by blast
  moreover have "is_run init step \<sigma> \<tau>"
    using run by (simp add: fair_run_def)
  ultimately have "step a (\<sigma> n) (\<sigma> (Suc n))"
    by (blast intro: is_run_step)
  from acts [OF run_inv [OF run] P this] show False
    using no [of "Suc n"] \<open>k \<le> n\<close> by simp
qed

text \<open>The task that makes the progress depends on a number, which the other tasks may lower.\<close>

lemma ensures_ranked:
  assumes run: "fair_run F init step \<sigma> \<tau>" and "\<And>i. act i \<in> F"
    and stays: "\<And>b i s s'. inv s \<Longrightarrow> P i s \<Longrightarrow> step b s s' \<Longrightarrow> (\<exists>j \<le> i. P j s') \<or> Q s'"
    and ready: "\<And>i s. inv s \<Longrightarrow> P i s \<Longrightarrow> enabled step (act i) s"
    and acts: "\<And>i s s'. inv s \<Longrightarrow> P i s \<Longrightarrow> step (act i) s s' \<Longrightarrow> (\<exists>j < i. P j s') \<or> Q s'"
    and "P (i :: nat) (\<sigma> k)"
  shows "\<exists>m \<ge> k. Q (\<sigma> m)"
  using assms(6)
proof (induction i arbitrary: k rule: less_induct)
  case (less i)
  have "\<exists>m \<ge> k. (\<exists>j < i. P j (\<sigma> m)) \<or> Q (\<sigma> m)"
  proof (rule ensures [OF run assms(2), where P = "P i"])
    show "P i s' \<or> (\<exists>j < i. P j s') \<or> Q s'" if "inv s" "P i s" "step b s s'" for b s s'
      using stays [OF that] by (metis le_neq_implies_less)
  qed (use less.prems ready acts in blast)+
  then show ?case
    using less.IH by (meson le_trans)
qed

text \<open>
  Every step brings the goal nearer, and before the goal some task is ready; from a moment on from
  which \<open>P\<close> holds, or always.
\<close>

lemma terminates_within:
  assumes run: "fair_run F init step \<sigma> \<tau>" and "P (\<sigma> k)"
    and less: "\<And>a s s'. inv s \<Longrightarrow> P s \<Longrightarrow> \<not> Q s \<Longrightarrow> step a s s' \<Longrightarrow> P s' \<and> f s' < (f s :: nat)"
    and ready: "\<And>s. inv s \<Longrightarrow> P s \<Longrightarrow> \<not> Q s \<Longrightarrow> \<exists>a \<in> F. enabled step a s"
  shows "\<exists>m \<ge> k. Q (\<sigma> m)"
  using \<open>P (\<sigma> k)\<close>
proof (induction "f (\<sigma> k)" arbitrary: k rule: less_induct)
  case less': less
  show ?case
  proof (cases "Q (\<sigma> k)")
    case False
    obtain a where a: "a \<in> F" "enabled step a (\<sigma> k)"
      using ready [OF run_inv [OF run] less'.prems False] by blast
    have "\<exists>m \<ge> k. P (\<sigma> m) \<and> f (\<sigma> m) < f (\<sigma> k)"
      using run a(1)
    proof (rule ensures [where P = "\<lambda>s. s = \<sigma> k"])
      show "s' = \<sigma> k \<or> P s' \<and> f s' < f (\<sigma> k)" if "inv s" "s = \<sigma> k" "step b s s'" for b s s'
        using that less [OF that(1) _ _ that(3)] less'.prems False by auto
      show "P s' \<and> f s' < f (\<sigma> k)" if "inv s" "s = \<sigma> k" "step a s s'" for s s'
        using that less [OF that(1) _ _ that(3)] less'.prems False by auto
    qed (use a(2) in auto)
    then show ?thesis
      using less'.hyps by (meson le_trans)
  qed blast
qed

lemma terminates:
  assumes "fair_run F init step \<sigma> \<tau>"
    and "\<And>a s s'. inv s \<Longrightarrow> \<not> Q s \<Longrightarrow> step a s s' \<Longrightarrow> f s' < (f s :: nat)"
    and "\<And>s. inv s \<Longrightarrow> \<not> Q s \<Longrightarrow> \<exists>a \<in> F. enabled step a s"
  shows "\<exists>m \<ge> k. Q (\<sigma> m)"
  using terminates_within [where P = "\<lambda>_. True", OF assms(1) _ _ assms(3)] assms(2) by blast

text \<open>
  A fair run of a system is a fair run of a system that it refines: every step is one there or
  leaves the image of the state alone, and the tasks \<open>F'\<close> are ready here whenever they are there and
  then do the same.
\<close>

lemma fair_projection:
  assumes run: "fair_run F init step \<sigma> \<tau>" and start: "\<And>s. init s \<Longrightarrow> init' (h s)" and "F' \<subseteq> F"
    and steps: "\<And>a s s'. inv s \<Longrightarrow> step a s s' \<Longrightarrow> h s' = h s \<or> (\<exists>b. step' b (h s) (h s'))"
    and same: "\<And>a s s'. inv s \<Longrightarrow> a \<in> F' \<Longrightarrow> enabled step' a (h s) \<Longrightarrow> step a s s' \<Longrightarrow> step' a (h s) (h s')"
    and ready: "\<And>a s. inv s \<Longrightarrow> a \<in> F' \<Longrightarrow> enabled step' a (h s) \<Longrightarrow> enabled step a s"
  shows "\<exists>\<tau>'. fair_run F' init' step' (\<lambda>n. h (\<sigma> n)) \<tau>'"
proof -
  have is_run: "is_run init step \<sigma> \<tau>"
    using run by (simp add: fair_run_def)
  have "\<exists>t. (case t of None \<Rightarrow> h (\<sigma> (Suc n)) = h (\<sigma> n) | Some b \<Rightarrow> step' b (h (\<sigma> n)) (h (\<sigma> (Suc n)))) \<and>
      (\<forall>a \<in> F'. \<tau> n = Some a \<and> enabled step' a (h (\<sigma> n)) \<longrightarrow> t = Some a)" for n
  proof (cases "\<exists>a \<in> F'. \<tau> n = Some a \<and> enabled step' a (h (\<sigma> n))")
    case True
    then obtain a where a: "a \<in> F'" "\<tau> n = Some a" "enabled step' a (h (\<sigma> n))"
      by blast
    from same [OF run_inv [OF run] a(1,3) is_run_step [OF is_run a(2)]] a(2) show ?thesis
      by (intro exI [of _ "Some a"]) simp
  next
    case False
    have "h (\<sigma> (Suc n)) = h (\<sigma> n) \<or> (\<exists>b. step' b (h (\<sigma> n)) (h (\<sigma> (Suc n))))"
      using is_run_cases [OF is_run, of n] steps [OF run_inv [OF run]] by metis
    with False show ?thesis
      by (metis option.simps(4,5))
  qed
  then obtain \<tau>' where \<tau>': "\<And>n. case \<tau>' n of None \<Rightarrow> h (\<sigma> (Suc n)) = h (\<sigma> n) | Some b \<Rightarrow> step' b (h (\<sigma> n)) (h (\<sigma> (Suc n)))"
      "\<And>n a. a \<in> F' \<Longrightarrow> \<tau> n = Some a \<Longrightarrow> enabled step' a (h (\<sigma> n)) \<Longrightarrow> \<tau>' n = Some a"
    by metis
  have "\<exists>n \<ge> k. \<tau>' n = Some a" if a: "a \<in> F'" and on: "\<forall>n \<ge> k. enabled step' a (h (\<sigma> n))" for a k
  proof -
    have "\<forall>n \<ge> k. enabled step a (\<sigma> n)"
      using ready [OF run_inv [OF run] a] on by blast
    then obtain n where "k \<le> n" "\<tau> n = Some a"
      using run a \<open>F' \<subseteq> F\<close> unfolding fair_run_def weakly_fair_def by blast
    then show ?thesis
      using \<tau>'(2) [OF a] on by blast
  qed
  then show ?thesis
    using \<tau>'(1) is_run start unfolding fair_run_def is_run_def weakly_fair_def by blast
qed

end

end
