(* ===== verification/Ninep_Listeners.thy ===== *)
theory Ninep_Listeners
  imports Ninep_Session
begin

text \<open>
  The listeners of \<open>src/src/frontend/ninep.rs\<close> and what they put between a socket and
  \<open>run_connection\<close>: the Unix listener (\<open>serve\<close>), the multiplexer of the TCP and TLS listeners
  (\<open>encode_mux_frame\<close>, \<open>decode_mux_header\<close>, \<open>run_server_mux\<close>, \<open>MuxStream\<close> and the stream table
  of \<open>serve_tcp\<close> and \<open>serve_tcp_tls\<close>), and the datagram loop of \<open>serve_udp\<close>. Sockets, TLS and
  the accept calls are outside the model: a listener is given the bytes that its peers send.
\<close>

subsection \<open>Unix sockets\<close>

text \<open>The pool that \<open>serve\<close> runs after it has accepted connections that will send \<open>inputs\<close>.\<close>

definition serve :: "env \<Rightarrow> bytes list \<Rightarrow> (shared, unit) pool" where
  "serve env inputs = (ninep_new 8192, map (run_connection env) inputs)"

subsection \<open>Multiplexer frames\<close>

definition encode_mux_frame :: "u32 \<Rightarrow> bytes \<Rightarrow> bytes" where
  "encode_mux_frame stream_id payload =
     le32 stream_id @ le32 (word_of_nat (length payload)) @ payload"

definition decode_mux_header :: "bytes \<Rightarrow> u32 \<times> nat" where
  "decode_mux_header header =
     (word_of_nat (le_nat (sub_bytes header 0 4)), le_nat (sub_bytes header 4 8))"

text \<open>One round of the read loop of \<open>run_server_mux\<close>; the loop itself is \<open>unframe\<close>.\<close>

definition next_mux_frame :: "bytes \<Rightarrow> ((u32 \<times> bytes) \<times> bytes) option" where
  "next_mux_frame input =
     (if length input < 8 then None
      else
        let (stream_id, len) = decode_mux_header (take 8 input) in
        if length input < 8 + len then None
        else Some ((stream_id, sub_bytes input 8 (8 + len)), drop (8 + len) input))"

definition run_server_mux :: "bytes \<Rightarrow> (u32 \<times> bytes) list" where
  "run_server_mux input = unframe next_mux_frame input"

text \<open>The writer task of \<open>run_server_mux\<close> on the frames it receives.\<close>

definition mux_writer :: "(u32 \<times> bytes) list \<Rightarrow> bytes" where
  "mux_writer frames = concat (map (\<lambda>(stream_id, payload). encode_mux_frame stream_id payload) frames)"

subsection \<open>Streams\<close>

text \<open>\<open>MuxStream\<close>: the payloads that wait in its channel, the current one, and the position.\<close>

record mux_stream =
  mx_rx :: "bytes list"
  mx_buf :: bytes
  mx_pos :: nat

text \<open>
  \<open>read_exact\<close> on a channel whose sender is gone: \<open>need\<close> bytes are missing, \<open>acc\<close> has been
  read. \<open>None\<close> is the error \<open>mux stream closed\<close>.
\<close>

function mux_read :: "nat \<Rightarrow> bytes \<Rightarrow> mux_stream \<Rightarrow> bytes option \<times> mux_stream" where
  "mux_read need acc st =
     (if need = 0 then (Some acc, st)
      else
        case (if mx_pos st < length (mx_buf st) then Some st
              else case mx_rx st of [] \<Rightarrow> None
                   | data # rx \<Rightarrow> Some (st\<lparr>mx_buf := data, mx_pos := 0, mx_rx := rx\<rparr>)) of
          None \<Rightarrow> (None, st)
        | Some st \<Rightarrow>
            let avail = min (length (mx_buf st) - mx_pos st) need in
            mux_read (need - avail)
              (acc @ sub_bytes (mx_buf st) (mx_pos st) (mx_pos st + avail))
              (st\<lparr>mx_pos := mx_pos st + avail\<rparr>))"
  by pat_completeness auto
termination
  by (relation "measures [\<lambda>(need, acc, st). length (mx_rx st), \<lambda>(need, acc, st). need]")
    (auto split: if_splits list.splits)

declare mux_read.simps [simp del]

definition mux_read_exact :: "nat \<Rightarrow> mux_stream \<Rightarrow> bytes option \<times> mux_stream" where
  "mux_read_exact n st = mux_read n [] st"

text \<open>
  The stream table of \<open>serve_tcp\<close>: the payloads of each stream, in order of arrival. An entry
  is added with the first payload of a stream and never removed.
\<close>

fun deliver :: "(u32 \<times> bytes list) list \<Rightarrow> (u32 \<times> bytes) list \<Rightarrow> (u32 \<times> bytes list) list" where
  "deliver streams [] = streams"
| "deliver streams ((stream_id, payload) # frames) =
     (case map_of streams stream_id of
        Some queue \<Rightarrow> deliver (hm_insert stream_id (queue @ [payload]) streams) frames
      | None \<Rightarrow> deliver (hm_insert stream_id [payload] streams) frames)"

text \<open>The tasks a TCP or TLS connection spawns: one connection loop per stream.\<close>

definition tcp_streams :: "bytes \<Rightarrow> (u32 \<times> mux_stream) list" where
  "tcp_streams input =
     map (\<lambda>(stream_id, queue). (stream_id, \<lparr>mx_rx = queue, mx_buf = [], mx_pos = 0\<rparr>))
       (deliver [] (run_server_mux input))"

text \<open>The bytes a stream will deliver to \<open>read_exact\<close>.\<close>

definition mux_pending :: "mux_stream \<Rightarrow> bytes" where
  "mux_pending st = drop (mx_pos st) (mx_buf st) @ concat (mx_rx st)"

definition serve_tcp_connection :: "env \<Rightarrow> bytes \<Rightarrow> (u32 \<times> unit prog) list" where
  "serve_tcp_connection env input =
     map (\<lambda>(stream_id, st). (stream_id, run_connection env (mux_pending st))) (tcp_streams input)"

subsection \<open>Datagrams\<close>

text \<open>
  The loop of \<open>serve_udp\<close> over the datagrams that arrive: one reply slot each. A panic ends
  the loop, and the listener with it.
\<close>

fun serve_udp ::
    "env \<Rightarrow> 'w router \<Rightarrow> bytes list \<Rightarrow> shared \<Rightarrow> 'w \<Rightarrow> bytes option list \<times> shared \<times> 'w" where
  "serve_udp env rt [] s w = ([], s, w)"
| "serve_udp env rt (data # rest) s w =
     (case handle_udp_message env data of
        None \<Rightarrow> (let (rs, s', w') = serve_udp env rt rest s w in (None # rs, s', w'))
      | Some m \<Rightarrow>
          (case run rt m s w of
             (Panicked, out, s', w') \<Rightarrow> ([], s', w')
           | (_, out, s', w') \<Rightarrow>
               (let (rs, s'', w'') = serve_udp env rt rest s' w' in (Some out # rs, s'', w''))))"

subsection \<open>Lemmas: the frames\<close>

interpretation mux_frames: framing "\<lambda>(i, p). encode_mux_frame i p" next_mux_frame
  "\<lambda>(i, p). length p < 4294967296"
proof
  fix m :: "u32 \<times> bytes" and rest
  assume "(\<lambda>(i, p). length p < 4294967296) m"
  then obtain i p where m: "m = (i, p)" and p: "length p < 4294967296"
    by (cases m) auto
  then have "unat (word_of_nat (length p) :: u32) = length p"
    by (intro unat_word32)
  then show "next_mux_frame ((\<lambda>(i, p). encode_mux_frame i p) m @ rest) = Some (m, rest)"
    by (simp add: m next_mux_frame_def decode_mux_header_def encode_mux_frame_def sub_bytes_def)
next
  show "next_mux_frame [] = None"
    by (simp add: next_mux_frame_def)
qed

subsection \<open>Lemmas: a multiplexed stream is a byte stream\<close>

lemma mux_read_pending:
  "fst (mux_read need acc st) =
     (if need \<le> length (mux_pending st) then Some (acc @ take need (mux_pending st)) else None) \<and>
   (need \<le> length (mux_pending st) \<longrightarrow>
      mux_pending (snd (mux_read need acc st)) = drop need (mux_pending st))"
proof (induction need acc st rule: mux_read.induct)
  case (1 need acc st)
  show ?case
  proof (cases "need = 0")
    case True
    then show ?thesis by (simp add: mux_read.simps)
  next
    case need: False
    show ?thesis
    proof (cases "\<not> mx_pos st < length (mx_buf st) \<and> mx_rx st = []")
      case True
      then show ?thesis
        using need by (simp add: mux_read.simps mux_pending_def)
    next
      case False
      then obtain st1 where st1: "(if mx_pos st < length (mx_buf st) then Some st
              else case mx_rx st of [] \<Rightarrow> None
                   | data # rx \<Rightarrow> Some (st\<lparr>mx_buf := data, mx_pos := 0, mx_rx := rx\<rparr>)) = Some st1"
        and pend: "mux_pending st1 = mux_pending st" and pos: "mx_pos st1 \<le> length (mx_buf st1)"
        by (cases "mx_pos st < length (mx_buf st)"; cases "mx_rx st") (auto simp: mux_pending_def)
      define avail where "avail = min (length (mx_buf st1) - mx_pos st1) need"
      define st2 where "st2 = st1\<lparr>mx_pos := mx_pos st1 + avail\<rparr>"
      define piece where "piece = sub_bytes (mx_buf st1) (mx_pos st1) (mx_pos st1 + avail)"
      have step: "mux_read need acc st = mux_read (need - avail) (acc @ piece) st2"
        using need st1 by (subst mux_read.simps) (simp add: Let_def avail_def st2_def piece_def)
      have "take avail (drop (mx_pos st1) (mx_buf st1)) @ drop (mx_pos st1 + avail) (mx_buf st1) =
          drop (mx_pos st1) (mx_buf st1)"
        by (metis add.commute append_take_drop_id drop_drop)
      then have split: "mux_pending st = piece @ mux_pending st2"
        unfolding pend [symmetric]
        by (simp add: mux_pending_def st2_def piece_def sub_bytes_def flip: append_assoc)
      have len: "length piece = avail"
        using pos by (simp add: avail_def piece_def)
      note IH = "1.IH" [OF need st1 avail_def, folded st2_def piece_def]
      have le: "avail \<le> need"
        by (simp add: avail_def)
      show ?thesis
        unfolding step using IH le by (auto simp: split len le_diff_conv add.commute)
    qed
  qed
qed

subsection \<open>Lemmas: the stream table\<close>

text \<open>The payloads that a sequence of frames carries for one stream, in order.\<close>

definition payloads :: "u32 \<Rightarrow> (u32 \<times> bytes) list \<Rightarrow> bytes list" where
  "payloads i frames = map snd (filter (\<lambda>f. fst f = i) frames)"

lemma deliver_spec:
  "distinct (map fst streams) \<Longrightarrow>
    distinct (map fst (deliver streams frames)) \<and>
    hm_keys (deliver streams frames) = hm_keys streams \<union> fst ` set frames \<and>
    (\<forall>i. map_of (deliver streams frames) i =
       (case map_of streams i of
          Some queue \<Rightarrow> Some (queue @ payloads i frames)
        | None \<Rightarrow> if i \<in> fst ` set frames then Some (payloads i frames) else None))"
proof (induction streams frames rule: deliver.induct)
  case (1 streams)
  then show ?case by (simp add: payloads_def split: option.split)
next
  case (2 streams stream_id payload frames)
  have dist: "distinct (map fst (hm_insert stream_id v streams))" for v
    using "2.prems"
    by (cases "stream_id \<in> hm_keys streams")
      (auto simp: hm_insert_present hm_insert_new hm_keys_def)
  show ?case
  proof (cases "map_of streams stream_id")
    case None
    with "2.IH"(1) [OF None dist] show ?thesis
      by (auto simp: payloads_def split: option.splits)
  next
    case (Some queue)
    then have "stream_id \<in> hm_keys streams"
      by (auto simp: hm_keys_def dest!: map_of_SomeD) force
    with Some "2.IH"(2) [OF Some dist] show ?thesis
      by (auto simp: payloads_def split: option.splits)
  qed
qed

lemma run_server_mux_frames:
  "\<forall>(i, p) \<in> set frames. length p < 4294967296 \<Longrightarrow> run_server_mux (mux_writer frames) = frames"
  using mux_frames.unframe_concat [of frames "[]"] mux_frames.dec_Nil
  by (simp add: run_server_mux_def mux_writer_def)

lemma tcp_streams_lookup:
  assumes "\<forall>(i, p) \<in> set frames. length p < 4294967296"
  shows "map fst (tcp_streams (mux_writer frames)) = map fst (deliver [] frames)"
    and "map_of (tcp_streams (mux_writer frames)) i =
      (if i \<in> fst ` set frames
       then Some \<lparr>mx_rx = payloads i frames, mx_buf = [], mx_pos = 0\<rparr> else None)"
proof -
  have t: "tcp_streams (mux_writer frames) =
      map (\<lambda>(i, q). (i, \<lparr>mx_rx = q, mx_buf = [], mx_pos = 0\<rparr>)) (deliver [] frames)"
    by (simp add: tcp_streams_def run_server_mux_frames [OF assms])
  then show "map fst (tcp_streams (mux_writer frames)) = map fst (deliver [] frames)"
    by (simp add: case_prod_beta comp_def)
  show "map_of (tcp_streams (mux_writer frames)) i =
      (if i \<in> fst ` set frames
       then Some \<lparr>mx_rx = payloads i frames, mx_buf = [], mx_pos = 0\<rparr> else None)"
    using deliver_spec [of "[]" frames] by (simp add: t map_of_map)
qed

subsection \<open>Properties\<close>

text \<open>
  A multiplexed stream is a byte stream. However the peer cut its messages into
  payloads, \<open>MuxStream::read_exact\<close> returns the next \<open>n\<close> bytes of the concatenated payloads
  and leaves the rest, and fails exactly when fewer than \<open>n\<close> bytes are left and the channel is
  closed. (So the connection loop over a stream sees the bytes of that stream, as over a
  Unix socket.)
\<close>

theorem mux_stream_is_byte_stream:
  "fst (mux_read_exact n st) =
     (if n \<le> length (mux_pending st) then Some (take n (mux_pending st)) else None) \<and>
   (n \<le> length (mux_pending st) \<longrightarrow>
     mux_pending (snd (mux_read_exact n st)) = drop n (mux_pending st))"
  using mux_read_pending [of n "[]" st] by (simp add: mux_read_exact_def)

theorem mux_stream_is_byte_stream_witness:
  "(let st = \<lparr>mx_rx = [[3], [], [4, 5]], mx_buf = [1, 2], mx_pos = 1\<rparr> in
    fst (mux_read_exact 3 st) = Some [2, 3, 4] \<and> mux_pending (snd (mux_read_exact 3 st)) = [5])"
  using mux_stream_is_byte_stream [of 3 "\<lparr>mx_rx = [[3], [], [4, 5]], mx_buf = [1, 2], mx_pos = 1\<rparr>"]
  by (simp add: mux_pending_def)



text \<open>
  Datagrams. A datagram of at least 7 bytes whose message does not panic gets a reply
  datagram: the reply frame of its request (with its tag), an \<open>Rerror\<close> for an unknown message
  type, and an empty datagram whenever the handler fails: over UDP the error is dropped.
\<close>

theorem udp_replies:
  assumes "7 \<le> length data" and "\<not> bad_length (data ! 4) (drop 7 data)"
  shows "\<exists>m out s' w'. handle_udp_message env data = Some m \<and> run rt m s w = (Done (), out, s', w') \<and>
    ((\<exists>b. out = frame (data ! 4 + 1) (word_of_nat (le_nat (sub_bytes data 5 7))) b) \<or>
     (\<exists>b. out = frame RERROR (word_of_nat (le_nat (sub_bytes data 5 7))) b) \<or>
     (\<exists>e. out = [] \<and>
        run rt (handle_message env (data ! 4) (word_of_nat (le_nat (sub_bytes data 5 7))) (drop 7 data)) s w =
          (Failed e, [], s', w')))"
proof -
  let ?ty = "data ! 4" and ?tag = "word_of_nat (le_nat (sub_bytes data 5 7)) :: u16"
  let ?m = "handle_message env ?ty ?tag (drop 7 data)"
  obtain r out s' w' where run: "run rt ?m s w = (r, out, s', w')"
    by (metis prod.collapse)
  have "r \<noteq> Panicked"
    using no_panic_run [OF handle_message_no_panic [OF assms(2)]] run by (metis fst_conv)
  then have r: "(\<exists>b. r = Done () \<and> out = frame (?ty + 1) ?tag b) \<or> (\<exists>e. r = Failed e \<and> out = [])"
    using one_reply_run [OF handle_message_one_reply run] by (cases r) auto
  have "\<exists>out s' w'. run rt (udp_prog env data) s w = (Done (), out, s', w') \<and>
    ((\<exists>b. out = frame (?ty + 1) ?tag b) \<or> (\<exists>b. out = frame RERROR ?tag b) \<or>
     (\<exists>e. out = [] \<and> run rt ?m s w = (Failed e, [], s', w')))"
    using r run by (auto simp: udp_prog_def Let_def run_io_handle send_error_def run_send_reply)
  then show ?thesis
    using assms(1) by (simp add: handle_udp_message_def)
qed

theorem udp_replies_witness:
  "(let data = frame TSTAT 3 (le32 9); env = \<lparr>iter_order = id, clock = (\<lambda>_. 0)\<rparr> in
    \<exists>m out s' w'. handle_udp_message env data = Some m \<and>
      run (log_router (demo_answers [])) m demo_state [] = (Done (), out, s', w') \<and>
    ((\<exists>b. out = frame (data ! 4 + 1) (word_of_nat (le_nat (sub_bytes data 5 7))) b) \<or>
     (\<exists>b. out = frame RERROR (word_of_nat (le_nat (sub_bytes data 5 7))) b) \<or>
     (\<exists>e. out = [] \<and>
        run (log_router (demo_answers []))
          (handle_message env (data ! 4) (word_of_nat (le_nat (sub_bytes data 5 7))) (drop 7 data)) demo_state [] =
          (Failed e, [], s', w'))))"
  unfolding Let_def
  by (rule udp_replies) (simp_all add: bad_length_def frame_header(2) [where rest = "[]", simplified])

end
