(* ===== verification/Accept_Loops.thy ===== *)
theory Accept_Loops
  imports Fair_Runs Ninep_Listeners
begin

text \<open>
  The accept loops of the 9P listeners (\<open>src/src/frontend/ninep.rs\<close>): when \<open>serve_tcp\<close> takes the next
  connection, the start of \<open>serve_tcp_tls\<close> with its files and errors, the life of the socket file of
  \<open>serve\<close>, and the writing side of the streams (\<open>MuxWriter::send\<close>, \<open>MuxStream::write_all\<close>,
  \<open>VirtualStream\<close>). What a connection does with the bytes it is sent is in \<open>Ninep_Listeners\<close>.
\<close>

subsection \<open>The TCP accept loop\<close>

text \<open>
  Connections are numbered in the order in which the peers make them. \<open>tl_muxes\<close> are those whose
  \<open>run_server_mux\<close> still reads, \<open>tl_ended\<close> those that have stopped reading and still hold their
  permit. The loop stays with a connection until the channel from its multiplexer is closed.
\<close>

datatype loop_phase = Accepting | Acquiring nat | Serving nat

record tcp_loop =
  tl_peers :: nat
  tl_backlog :: "nat list"
  tl_phase :: loop_phase
  tl_permits :: "nat option"
  tl_muxes :: "nat list"
  tl_ended :: "nat list"
  tl_served :: "nat list"

definition tcp_loop_new :: "nat option \<Rightarrow> tcp_loop" where
  "tcp_loop_new max_conns =
     \<lparr>tl_peers = 0, tl_backlog = [], tl_phase = Accepting, tl_permits = max_conns, tl_muxes = [], tl_ended = [],
      tl_served = []\<rparr>"

datatype tcp_task = Peers | PeerClose nat | AcceptLoop | MuxEnd nat

inductive tcp_step :: "tcp_task \<Rightarrow> tcp_loop \<Rightarrow> tcp_loop \<Rightarrow> bool" where
  connect: "tcp_step Peers s (s\<lparr>tl_peers := Suc (tl_peers s), tl_backlog := tl_backlog s @ [tl_peers s]\<rparr>)"
| accept: "tl_phase s = Accepting \<Longrightarrow> tl_backlog s = c # cs \<Longrightarrow>
    tcp_step AcceptLoop s (s\<lparr>tl_backlog := cs, tl_phase := Acquiring c\<rparr>)"
| acquire: "tl_phase s = Acquiring c \<Longrightarrow> tl_permits s \<noteq> Some 0 \<Longrightarrow>
    tcp_step AcceptLoop s
      (s\<lparr>tl_phase := Serving c, tl_permits := map_option (\<lambda>n. n - 1) (tl_permits s),
         tl_muxes := tl_muxes s @ [c], tl_served := tl_served s @ [c]\<rparr>)"
| hang_up: "c \<in> set (tl_muxes s) \<Longrightarrow>
    tcp_step (PeerClose c) s (s\<lparr>tl_muxes := remove1 c (tl_muxes s), tl_ended := tl_ended s @ [c]\<rparr>)"
| release: "c \<in> set (tl_ended s) \<Longrightarrow>
    tcp_step (MuxEnd c) s (s\<lparr>tl_ended := remove1 c (tl_ended s), tl_permits := map_option Suc (tl_permits s)\<rparr>)"
| next_one: "tl_phase s = Serving c \<Longrightarrow> c \<notin> set (tl_muxes s) \<Longrightarrow>
    tcp_step AcceptLoop s (s\<lparr>tl_phase := Accepting\<rparr>)"

inductive_cases tcp_step_E: "tcp_step a s s'"

fun acquiring :: "loop_phase \<Rightarrow> nat list" where
  "acquiring (Acquiring c) = [c]"
| "acquiring p = []"

definition tcp_ok :: "nat option \<Rightarrow> tcp_loop \<Rightarrow> bool" where
  "tcp_ok max_conns s \<longleftrightarrow>
     tl_served s @ acquiring (tl_phase s) @ tl_backlog s = [0..<tl_peers s] \<and>
     (tl_muxes s = [] \<or> (\<exists>c. tl_phase s = Serving c \<and> tl_muxes s = [c])) \<and>
     (case tl_permits s of
        None \<Rightarrow> max_conns = None
      | Some n \<Rightarrow> max_conns = Some (n + length (tl_muxes s) + length (tl_ended s)))"

interpretation tcp: invariant_system "\<lambda>s. s = tcp_loop_new max_conns" tcp_step "tcp_ok max_conns"
  for max_conns
proof
  show "tcp_ok max_conns s" if "s = tcp_loop_new max_conns" for s
    using that by (simp add: tcp_ok_def tcp_loop_new_def split: option.split)
  show "tcp_ok max_conns s'" if "tcp_ok max_conns s" "tcp_step a s s'" for s a s'
    using that(2,1) by (cases rule: tcp_step.cases)
      (auto simp: tcp_ok_def length_remove1 split: option.splits dest: length_pos_if_in_set)
qed

lemma serving_blocks:
  assumes "tcp_ok max_conns s" and "tl_muxes s \<noteq> []" and "tcp_step a s s'"
  shows "tl_served s' = tl_served s"
  using assms(3,1,2) by (cases rule: tcp_step.cases) (auto simp: tcp_ok_def)

text \<open>Without permits no connection is ever served.\<close>

lemma no_permits_ok:
  assumes "reach (\<lambda>s. s = tcp_loop_new (Some 0)) tcp_step s"
  shows "tl_served s = []"
  using assms
proof (induction rule: reach.induct)
  case (initial s)
  then show ?case by (simp add: tcp_loop_new_def)
next
  case (moved s a s')
  have "tl_permits s = Some 0"
    using tcp.reach_inv [OF moved(1)] by (auto simp: tcp_ok_def split: option.splits)
  with moved(2,3) show ?case
    by (auto elim!: tcp_step_E)
qed

subsection \<open>Progress of the accept loop\<close>

text \<open>
  The peers that hang up sooner or later, as tasks: with them every connection is served, in the
  order of arrival, as long as the limit is not 0.
\<close>

definition tcp_tasks :: "tcp_task set" where
  "tcp_tasks = {AcceptLoop} \<union> range PeerClose \<union> range MuxEnd"

definition turn :: "nat \<Rightarrow> tcp_loop \<Rightarrow> bool" where
  "turn k s \<longleftrightarrow> length (tl_served s) = k \<and> k < tl_peers s"

text \<open>What is left to do before the next connection is served.\<close>

definition tcp_left :: "tcp_loop \<Rightarrow> nat" where
  "tcp_left s =
     2 * length (tl_muxes s) + length (tl_ended s) +
     (case tl_phase s of Serving _ \<Rightarrow> 2 | Accepting \<Rightarrow> 1 | Acquiring _ \<Rightarrow> 0)"

lemma turn_step:
  assumes "tcp_ok max_conns s" and "turn k s" and "tcp_step a s s'"
  shows "turn k s' \<and> (tcp_left s' \<le> tcp_left s) \<and> (a \<noteq> Peers \<longrightarrow> tcp_left s' < tcp_left s) \<or> k < length (tl_served s')"
  using assms(3,1,2)
  by (cases rule: tcp_step.cases)
    (auto simp: tcp_ok_def turn_def tcp_left_def length_remove1 dest: length_pos_if_in_set)

lemma turn_ready:
  assumes "tcp_ok max_conns s" and "turn k s" and "max_conns \<noteq> Some 0"
  shows "\<exists>a \<in> tcp_tasks. enabled tcp_step a s"
proof (cases "tl_muxes s = [] \<and> tl_ended s = []")
  case False
  then obtain c where "c \<in> set (tl_muxes s) \<or> c \<in> set (tl_ended s)"
    by (metis neq_Nil_conv list.set_intros(1))
  then show ?thesis
    unfolding enabled_def tcp_tasks_def using tcp_step.hang_up tcp_step.release by blast
next
  case True
  have "enabled tcp_step AcceptLoop s"
  proof (cases "tl_phase s")
    case Accepting
    have "tl_backlog s \<noteq> []"
    proof
      assume "tl_backlog s = []"
      then have "tl_served s = [0..<tl_peers s]"
        using assms(1) Accepting by (simp add: tcp_ok_def)
      then show False
        using assms(2) by (auto simp: turn_def)
    qed
    then show ?thesis
      using tcp_step.accept [OF Accepting] unfolding enabled_def neq_Nil_conv by blast
  next
    case (Acquiring c)
    have "tl_permits s \<noteq> Some 0"
      using assms(1,3) True by (auto simp: tcp_ok_def)
    then show ?thesis
      using tcp_step.acquire [OF Acquiring] unfolding enabled_def by blast
  next
    case (Serving c)
    then show ?thesis
      using tcp_step.next_one [OF Serving] True unfolding enabled_def by auto
  qed
  then show ?thesis
    by (auto simp: tcp_tasks_def)
qed

lemma connect_keeps_ready:
  assumes "enabled tcp_step a s" and "a \<in> tcp_tasks" and "tcp_step Peers s s'"
  shows "enabled tcp_step a s'"
proof -
  have s': "s' = s\<lparr>tl_peers := Suc (tl_peers s), tl_backlog := tl_backlog s @ [tl_peers s]\<rparr>"
    using assms(3) by (auto elim: tcp_step_E)
  obtain t where "tcp_step a s t"
    using assms(1) by (auto simp: enabled_def)
  then show ?thesis
  proof (cases rule: tcp_step.cases)
    case (accept c cs)
    then show ?thesis
      using tcp_step.accept [of s' c "cs @ [tl_peers s]"] unfolding enabled_def by (auto simp: s')
  next
    case (acquire c)
    then show ?thesis
      using tcp_step.acquire [of s' c] unfolding enabled_def by (auto simp: s')
  next
    case (hang_up c)
    then show ?thesis
      using tcp_step.hang_up [of c s'] unfolding enabled_def by (auto simp: s')
  next
    case (release c)
    then show ?thesis
      using tcp_step.release [of c s'] unfolding enabled_def by (auto simp: s')
  next
    case (next_one c)
    then show ?thesis
      using tcp_step.next_one [of s' c] unfolding enabled_def by (auto simp: s')
  qed (use assms(2) in \<open>auto simp: tcp_tasks_def\<close>)
qed

lemma next_served:
  assumes run: "fair_run tcp_tasks (\<lambda>s. s = tcp_loop_new max_conns) tcp_step \<sigma> \<tau>" and "max_conns \<noteq> Some 0"
    and "turn k (\<sigma> m)"
  shows "\<exists>m' \<ge> m. k < length (tl_served (\<sigma> m'))"
  using assms(3)
proof (induction "tcp_left (\<sigma> m)" arbitrary: m rule: less_induct)
  case less
  let ?n = "tcp_left (\<sigma> m)"
  obtain a where a: "a \<in> tcp_tasks" "enabled tcp_step a (\<sigma> m)"
    using turn_ready [OF tcp.run_inv [OF run] less.prems assms(2)] by blast
  let ?P = "\<lambda>s. turn k s \<and> tcp_left s = ?n \<and> enabled tcp_step a s"
  let ?Q = "\<lambda>s. turn k s \<and> tcp_left s < ?n \<or> k < length (tl_served s)"
  have step: "?P s' \<or> ?Q s'" if "tcp_ok max_conns s" "?P s" "tcp_step b s s'" for b s s'
    using turn_step [OF that(1) _ that(3), of k] that connect_keeps_ready [OF _ a(1)] by (cases "b = Peers") auto
  have "\<exists>m' \<ge> m. ?Q (\<sigma> m')"
    using run a(1)
  proof (rule tcp.ensures [where P = ?P])
    show "?Q s'" if "tcp_ok max_conns s" "?P s" "tcp_step a s s'" for s s'
      using turn_step [OF that(1) _ that(3), of k] that a(1) by (auto simp: tcp_tasks_def)
  qed (use step a(2) less.prems in auto)
  then show ?case
    using less.hyps by (meson le_trans)
qed

text \<open>With a limit other than 0 and peers that hang up in the end, every connection is served.\<close>

lemma tcp_all_served:
  assumes run: "fair_run tcp_tasks (\<lambda>s. s = tcp_loop_new max_conns) tcp_step \<sigma> \<tau>" and "max_conns \<noteq> Some 0"
    and "c < tl_peers (\<sigma> m)"
  shows "\<exists>m' \<ge> m. c \<in> set (tl_served (\<sigma> m'))"
  using assms(3)
proof (induction "Suc c - length (tl_served (\<sigma> m))" arbitrary: m rule: less_induct)
  case less
  have prefix: "tl_served (\<sigma> i) = [0..<length (tl_served (\<sigma> i))]" for i
  proof -
    let ?s = "\<sigma> i"
    have "tl_served ?s @ acquiring (tl_phase ?s) @ tl_backlog ?s = [0..<tl_peers ?s]"
      using tcp.run_inv [OF run, of i] by (simp add: tcp_ok_def)
    then have "take (length (tl_served ?s)) [0..<tl_peers ?s] = tl_served ?s" and "length (tl_served ?s) \<le> tl_peers ?s"
      by (metis append_eq_conv_conj, metis length_append le_add1 length_upt diff_zero)
    then show ?thesis
      by (simp add: take_upt)
  qed
  show ?case
  proof (cases "c < length (tl_served (\<sigma> m))")
    case True
    then have "c \<in> set (tl_served (\<sigma> m))"
      by (subst prefix) simp
    then show ?thesis
      by blast
  next
    case False
    then have "turn (length (tl_served (\<sigma> m))) (\<sigma> m)"
      using less.prems by (simp add: turn_def)
    from next_served [OF run assms(2) this] obtain m1 where
      m1: "m \<le> m1" "length (tl_served (\<sigma> m)) < length (tl_served (\<sigma> m1))" by blast
    have "tl_peers (\<sigma> m) \<le> tl_peers (\<sigma> i)" if "m \<le> i" for i
      using that
    proof (induction i rule: dec_induct)
      case (step n)
      then show ?case
        using is_run_cases [of "\<lambda>s. s = tcp_loop_new max_conns" tcp_step \<sigma> \<tau> n] run
        by (auto simp: fair_run_def elim!: tcp_step_E)
    qed simp
    then have "c < tl_peers (\<sigma> m1)"
      using less.prems m1(1) order_less_le_trans by blast
    then show ?thesis
      using less.hyps [of m1] m1 False by (meson diff_less_mono2 le_trans less_Suc_eq_le not_less order_le_less_trans)
  qed
qed

subsection \<open>Start of the TLS listener\<close>

datatype io_error = NotFound string | InvalidInput string | BindError string

text \<open>
  Opening files, the PEM parser, rustls and the socket are parameters: \<open>certs\<close> gives a result per PEM
  block (bad ones are skipped), \<open>private_key\<close> the key if there is one and it parses.
\<close>

definition serve_tcp_tls_start ::
    "(string \<Rightarrow> string + bytes) \<Rightarrow> (bytes \<Rightarrow> 'c option list) \<Rightarrow> (bytes \<Rightarrow> 'k option) \<Rightarrow> ('c list \<Rightarrow> 'k \<Rightarrow> string + 't)
      \<Rightarrow> (string \<Rightarrow> string option) \<Rightarrow> string \<Rightarrow> string \<Rightarrow> string \<Rightarrow> io_error + 't" where
  "serve_tcp_tls_start open_file certs private_key with_single_cert bind addr cert_path key_path =
     (case open_file cert_path of
        Inl e \<Rightarrow> Inl (NotFound (''cert '' @ cert_path @ '': '' @ e))
      | Inr cert_file \<Rightarrow>
     (case open_file key_path of
        Inl e \<Rightarrow> Inl (NotFound (''key '' @ key_path @ '': '' @ e))
      | Inr key_file \<Rightarrow>
     (let cert_chain = List.map_filter id (certs cert_file) in
      case private_key key_file of
        None \<Rightarrow> Inl (InvalidInput ''no private key found'')
      | Some priv_key \<Rightarrow>
     (case with_single_cert cert_chain priv_key of
        Inl e \<Rightarrow> Inl (InvalidInput e)
      | Inr tls_config \<Rightarrow>
     (case bind addr of
        Some e \<Rightarrow> Inl (BindError e)
      | None \<Rightarrow> Inr tls_config)))))"

text \<open>Nothing is bound before the files have been read: a listener that fails over its files leaves the address free.\<close>

lemma tls_start_errors:
  assumes "serve_tcp_tls_start open_file certs private_key with_single_cert bind addr cert_path key_path = Inl e"
  shows "(\<exists>m. e = BindError m \<and> bind addr = Some m) \<or>
    (\<forall>bind'. serve_tcp_tls_start open_file certs private_key with_single_cert bind' addr cert_path key_path = Inl e)"
  using assms by (auto simp: serve_tcp_tls_start_def Let_def split: sum.splits option.splits)

text \<open>A TLS connection is a task of its own; one whose handshake fails serves nothing.\<close>

definition serve_tls_connection :: "env \<Rightarrow> string + bytes \<Rightarrow> (u32 \<times> unit prog) list" where
  "serve_tls_connection env handshake =
     (case handshake of Inl e \<Rightarrow> [] | Inr input \<Rightarrow> serve_tcp_connection env input)"

subsection \<open>The socket file of the Unix listener\<close>

text \<open>
  \<open>serve\<close> removes a stale file, binds the socket, which creates the file, and keeps a guard that
  removes the file when the listener ends or is aborted. The file system is the set of its paths.
\<close>

definition serve_start :: "(string \<Rightarrow> string option) \<Rightarrow> string \<Rightarrow> string set \<Rightarrow> string option \<times> string set" where
  "serve_start bind socket_path files =
     (let files = files - {socket_path} in
      case bind socket_path of
        Some e \<Rightarrow> (Some e, files)
      | None \<Rightarrow> (None, insert socket_path files))"

definition socket_cleanup_drop :: "string \<Rightarrow> string set \<Rightarrow> string set" where
  "socket_cleanup_drop path files = files - {path}"

subsection \<open>Writing\<close>

text \<open>
  \<open>MuxWriter::send\<close> on the channel to the writer task (\<open>None\<close>: the task is gone), \<open>write_all\<close> of a
  multiplexed stream, and \<open>write_all\<close> of the buffer that collects a UDP reply.
\<close>

definition mux_send :: "u32 \<Rightarrow> bytes \<Rightarrow> (u32 \<times> bytes) list option \<Rightarrow> string + (u32 \<times> bytes) list" where
  "mux_send stream_id payload tx =
     (case tx of None \<Rightarrow> Inl ''mux writer gone'' | Some frames \<Rightarrow> Inr (frames @ [(stream_id, payload)]))"

definition mux_write_all :: "u32 \<Rightarrow> bytes \<Rightarrow> (u32 \<times> bytes) list option \<Rightarrow> string + (u32 \<times> bytes) list" where
  "mux_write_all stream_id buf tx = mux_send stream_id buf tx"

definition virtual_write_all :: "bytes \<Rightarrow> bytes \<Rightarrow> bytes" where
  "virtual_write_all buf out = out @ buf"

text \<open>
  Whatever the order in which the streams write, a peer that decodes the frames finds for every
  stream exactly what it has written, in order.
\<close>

lemma mux_writes_do_not_mix:
  assumes "\<forall>(i, b) \<in> set writes. length b < 4294967296"
    and "fold (\<lambda>(i, b) r. case r of Inl e \<Rightarrow> Inl e | Inr fs \<Rightarrow> mux_write_all i b (Some fs)) writes (Inr []) = Inr frames"
  shows "payloads i (run_server_mux (mux_writer frames)) = map snd (filter (\<lambda>w. fst w = i) writes)"
proof -
  have "fold (\<lambda>(i, b) r. case r of Inl e \<Rightarrow> Inl e | Inr fs \<Rightarrow> mux_write_all i b (Some fs)) ws (Inr fs) = Inr (fs @ ws)" for ws fs
    by (induction ws arbitrary: fs) (auto simp: mux_write_all_def mux_send_def)
  then have "frames = writes"
    using assms(2) by simp
  then show ?thesis
    using run_server_mux_frames [OF assms(1)] by (simp add: payloads_def)
qed

subsection \<open>Properties\<close>


definition demo_tcp :: tcp_loop where
  "demo_tcp =
     \<lparr>tl_peers = 2, tl_backlog = [1], tl_phase = Serving 0, tl_permits = Some 4, tl_muxes = [0], tl_ended = [],
      tl_served = [0]\<rparr>"


end
