(* ===== verification/Fuse_Frontend.thy ===== *)
theory Fuse_Frontend
  imports Async Handle_Table
begin

text \<open>
  The FUSE frontend (\<open>src/src/frontend/fuse.rs\<close>): the inode table, the cache of sizes, the
  parser of attribute texts and every operation of the \<open>Filesystem\<close> implementation, as programs
  over the record \<open>fuse_state\<close> whose steps are the critical sections of the two mutexes, the
  fetch-and-add on the inode counter and the exchanges with the router.

  Times, the user and group of the process and the mount call are left out. What the code
  leaves to its libraries is the parameter \<open>fuse_env\<close>: the order in which a hash map is
  iterated, and whether \<open>ReplyDirectory::add\<close> reports a full buffer for an entry, given the
  entries that are already in it.
\<close>

named_theorems fuse_simps \<open>evaluation rules for FUSE operations\<close>

subsection \<open>State\<close>

datatype file_type = Directory | RegularFile

record file_attr =
  at_ino :: u64
  at_size :: u64
  at_blocks :: nat
  at_kind :: file_type
  at_perm :: u16
  at_nlink :: u32

record fuse_state =
  ino_next :: u64
  ino_paths :: "(u64 \<times> string) list"
  size_cache :: "string \<rightharpoonup> u64"

type_synonym dir_entry = "u64 \<times> file_type \<times> string"

record fuse_env =
  fv_order :: "(u64 \<times> string) list \<Rightarrow> (u64 \<times> string) list"
  fv_full :: "(u64 \<times> dir_entry) list \<Rightarrow> u64 \<times> dir_entry \<Rightarrow> bool"

definition root_attr :: file_attr where
  "root_attr = \<lparr>at_ino = 1, at_size = 0, at_blocks = 0, at_kind = Directory, at_perm = 0x1ed, at_nlink = 2\<rparr>"

definition fuse_new :: fuse_state where
  "fuse_new = \<lparr>ino_next = 2, ino_paths = [(1, ''/'')], size_cache = Map.empty\<rparr>"

definition next_ino :: "fuse_state \<Rightarrow> u64 \<times> fuse_state" where
  "next_ino s = (ino_next s, s\<lparr>ino_next := ino_next s + 1\<rparr>)"

definition record_path :: "u64 \<Rightarrow> string \<Rightarrow> fuse_state \<Rightarrow> fuse_state" where
  "record_path ino path s = s\<lparr>ino_paths := hm_insert ino path (ino_paths s)\<rparr>"

definition path_for :: "fuse_state \<Rightarrow> u64 \<Rightarrow> string option" where
  "path_for s ino = map_of (ino_paths s) ino"

definition make_attr :: "u64 \<Rightarrow> u64 \<Rightarrow> bool \<Rightarrow> file_attr" where
  "make_attr ino sz is_dir =
     \<lparr>at_ino = ino, at_size = sz, at_blocks = (unat sz + 511) div 512,
      at_kind = (if is_dir then Directory else RegularFile),
      at_perm = (if is_dir then 0x1ed else 0x1a4), at_nlink = (if is_dir then 2 else 1)\<rparr>"

subsection \<open>Attribute texts\<close>

fun attr_parts :: "string list \<Rightarrow> bool \<Rightarrow> nat \<Rightarrow> bool \<times> nat" where
  "attr_parts [] is_dir sz = (is_dir, sz)"
| "attr_parts (part # parts) is_dir sz =
     (case strip_prefix ''mode='' part of
        Some val \<Rightarrow> attr_parts parts (trim val = ''dir'' \<or> trim val = ''directory'') sz
      | None \<Rightarrow>
          (case strip_prefix ''size='' part of
             Some val \<Rightarrow>
               attr_parts parts is_dir (case parse_unsigned 64 val of Some n \<Rightarrow> n | None \<Rightarrow> 0)
           | None \<Rightarrow> attr_parts parts is_dir sz))"

definition parse_attr :: "bytes \<Rightarrow> bool \<times> u64" where
  "parse_attr data =
     (case attr_parts (split_whitespace (from_utf8_lossy data)) False 0 of
        (is_dir, sz) \<Rightarrow> (is_dir, word_of_nat sz))"

fun attr_size_part :: "string list \<Rightarrow> nat option" where
  "attr_size_part [] = None"
| "attr_size_part (part # parts) =
     (case strip_prefix ''size='' part of
        Some val \<Rightarrow> parse_unsigned 64 val
      | None \<Rightarrow> attr_size_part parts)"

definition parse_attr_size :: "bytes \<Rightarrow> u64 option" where
  "parse_attr_size data =
     map_option word_of_nat (attr_size_part (split_whitespace (from_utf8_lossy data)))"

subsection \<open>Replies and requests to the router\<close>

datatype errno = ENOENT | EIO

datatype fuse_reply =
    REntry file_attr
  | RAttr file_attr
  | RErr errno
  | RDirectory "(u64 \<times> dir_entry) list"
  | ROpened
  | RData bytes
  | RWritten u32
  | ROk
  | RStatfs
  | RCreated file_attr
  | RNone

type_synonym fprog = "(fuse_state, fuse_reply) io"

definition send_req :: "fs_operation \<Rightarrow> string \<Rightarrow> bytes \<Rightarrow> (string + bytes \<Rightarrow> fprog) \<Rightarrow> fprog" where
  "send_req op path data k =
     Call op path data (\<lambda>r. k (case r of
         RouterGone \<Rightarrow> Inl ''router channel closed''
       | HandlerGone \<Rightarrow> Inl ''handler did not reply''
       | Replied (Inl e) \<Rightarrow> Inl e
       | Replied (Inr resp) \<Rightarrow> Inr (resp_data resp)))"

text \<open>\<open>let ino = self.next_ino(); self.record_path(ino, path);\<close>\<close>

definition new_inode :: "string \<Rightarrow> (u64 \<Rightarrow> fprog) \<Rightarrow> fprog" where
  "new_inode path k =
     locked next_ino (\<lambda>ino. locked (\<lambda>s. ((), record_path ino path s)) (\<lambda>_. k ino))"

text \<open>\<open>match self.path_for(ino.0) { Some(p) => p, None => return reply.error(Errno::ENOENT) }\<close>\<close>

definition with_path :: "u64 \<Rightarrow> (string \<Rightarrow> fprog) \<Rightarrow> fprog" where
  "with_path ino k =
     inspect (\<lambda>s. path_for s ino) (\<lambda>p. case p of None \<Rightarrow> Ret (RErr ENOENT) | Some p \<Rightarrow> k p)"

definition with_parent :: "u64 \<Rightarrow> (string \<Rightarrow> fprog) \<Rightarrow> fprog" where
  "with_parent ino k =
     inspect (\<lambda>s. case path_for s ino of Some p \<Rightarrow> p | None \<Rightarrow> ''/'') k"

definition lookup_path :: "string \<Rightarrow> string \<Rightarrow> string" where
  "lookup_path parent name =
     (if ends_with_char (CHR ''/'') parent then parent @ name else parent @ ''/'' @ name)"

definition entry_path :: "string \<Rightarrow> string \<Rightarrow> string" where
  "entry_path parent name = trim_end_char (CHR ''/'') parent @ ''/'' @ name"

definition no_route :: "string \<Rightarrow> bool" where
  "no_route msg = starts_with ''no route matches'' msg"

subsection \<open>Lookup and attributes\<close>

definition lookup_size :: "bytes \<Rightarrow> string + bytes \<Rightarrow> bool \<times> u64" where
  "lookup_size data r =
     (case r of
        Inr attr_data \<Rightarrow>
          (let (d, s) = parse_attr attr_data in
           if s = 0 \<and> attr_data \<noteq> [] \<and> parse_attr_size attr_data = None
           then (False, word_of_nat (length attr_data)) else (d, s))
      | Inl _ \<Rightarrow> (False, word_of_nat (length data)))"

definition fuse_lookup :: "u64 \<Rightarrow> bytes \<Rightarrow> fprog" where
  "fuse_lookup parent os_name =
     (let name = from_utf8_lossy os_name in
      if name = ''.'' \<or> name = ''..'' then
        Ret (REntry (if parent = 1 then root_attr else make_attr parent 0 True))
      else
        with_parent parent (\<lambda>parent_path.
          let path = lookup_path parent_path name in
          send_req Lookup path [] (\<lambda>r.
            case r of
              Inr data \<Rightarrow>
                new_inode path (\<lambda>ino.
                  send_req GetAttr path [] (\<lambda>ar.
                    let (is_dir, sz) = lookup_size data ar in
                    Ret (REntry (make_attr ino sz is_dir))))
            | Inl msg \<Rightarrow>
                if no_route msg
                then new_inode path (\<lambda>ino. Ret (REntry (make_attr ino 4096 True)))
                else Ret (RErr ENOENT))))"

definition fuse_getattr :: "u64 \<Rightarrow> fprog" where
  "fuse_getattr ino =
     (if ino = 1 then Ret (RAttr root_attr)
      else
        with_path ino (\<lambda>path.
          send_req GetAttr path [] (\<lambda>r.
            case r of
              Inr data \<Rightarrow>
                (let (is_dir, sz) = parse_attr data in
                 if sz = 0 \<and> data \<noteq> [] \<and> parse_attr_size data = None
                 then Ret (RAttr (make_attr ino (word_of_nat (length data)) False))
                 else if sz = 0 \<and> data = [] \<and> \<not> is_dir then
                   inspect (\<lambda>s. size_cache s path) (\<lambda>cached.
                     case cached of
                       Some s \<Rightarrow> Ret (RAttr (make_attr ino s False))
                     | None \<Rightarrow>
                         send_req Read path [] (\<lambda>rr.
                           case rr of
                             Inr d \<Rightarrow> Ret (RAttr (make_attr ino (word_of_nat (length d)) False))
                           | Inl _ \<Rightarrow> Ret (RAttr (make_attr ino 0 False))))
                 else Ret (RAttr (make_attr ino sz is_dir)))
            | Inl msg \<Rightarrow>
                send_req Lookup path [] (\<lambda>lr.
                  case lr of
                    Inr data \<Rightarrow> Ret (RAttr (make_attr ino (word_of_nat (length data)) False))
                  | Inl lookup_msg \<Rightarrow>
                      if no_route msg \<and> no_route lookup_msg
                      then Ret (RAttr (make_attr ino 4096 True))
                      else Ret (RErr ENOENT)))))"

datatype time_or_now = SpecificTime int | Now

definition time_part :: "string \<Rightarrow> time_or_now option \<Rightarrow> string list" where
  "time_part key t =
     (case t of Some (SpecificTime secs) \<Rightarrow> [key @ ''='' @ show_nat (nat secs)] | _ \<Rightarrow> [])"

definition num_part :: "string \<Rightarrow> nat option \<Rightarrow> string list" where
  "num_part key v = (case v of Some n \<Rightarrow> [key @ ''='' @ show_nat n] | None \<Rightarrow> [])"

record setattr_args =
  sa_mode :: "u32 option"
  sa_uid :: "u32 option"
  sa_gid :: "u32 option"
  sa_size :: "u64 option"
  sa_atime :: "time_or_now option"
  sa_mtime :: "time_or_now option"

definition setattr_payload :: "setattr_args \<Rightarrow> string" where
  "setattr_payload a =
     join_with '';''
       (num_part ''mode'' (map_option unat (sa_mode a)) @ num_part ''uid'' (map_option unat (sa_uid a)) @
        num_part ''gid'' (map_option unat (sa_gid a)) @ num_part ''size'' (map_option unat (sa_size a)) @
        time_part ''atime'' (sa_atime a) @ time_part ''mtime'' (sa_mtime a))"

definition fuse_setattr :: "u64 \<Rightarrow> setattr_args \<Rightarrow> fprog" where
  "fuse_setattr ino a =
     with_path ino (\<lambda>path.
       send_req SetAttr path (as_bytes (setattr_payload a)) (\<lambda>r.
         case r of
           Inr data \<Rightarrow>
             (let (is_dir, cur_size) = parse_attr data in
              Ret (RAttr (make_attr ino (case sa_size a of Some s \<Rightarrow> s | None \<Rightarrow> cur_size) is_dir)))
         | Inl _ \<Rightarrow>
             send_req GetAttr path [] (\<lambda>gr.
               case gr of
                 Inr data \<Rightarrow> (let (is_dir, cur_size) = parse_attr data in
                              Ret (RAttr (make_attr ino cur_size is_dir)))
               | Inl _ \<Rightarrow> Ret (RErr ENOENT))))"

subsection \<open>Directories\<close>

text \<open>The name of one line of a listing, if the line names an entry.\<close>

definition line_name :: "string \<Rightarrow> string option" where
  "line_name line0 =
     (let line = trim line0 in
      if line = [] \<or> line = ''.'' \<or> line = ''..'' then None
      else
        let name = (case split_once (CHR '':'') line of Some (key, _) \<Rightarrow> trim key | None \<Rightarrow> line) in
        if name = [] then None else Some name)"

definition listing_names :: "bytes \<Rightarrow> string list" where
  "listing_names data = List.map_filter line_name (str_lines (from_utf8_lossy data))"

text \<open>The loop over the names: each gets a new inode.\<close>

fun add_entries :: "string \<Rightarrow> string list \<Rightarrow> dir_entry list \<Rightarrow> (dir_entry list \<Rightarrow> fprog) \<Rightarrow> fprog" where
  "add_entries path [] v k = k v"
| "add_entries path (name # names) v k =
     (let kind = (if ends_with_char (CHR ''/'') name then Directory else RegularFile);
          clean = trim_end_char (CHR ''/'') name in
      new_inode (entry_path path clean) (\<lambda>ino. add_entries path names (v @ [(ino, kind, clean)]) k))"

definition parent_ino :: "fuse_env \<Rightarrow> string \<Rightarrow> fuse_state \<Rightarrow> u64" where
  "parent_ino env path s =
     (let parent_path = (case rsplit_once (CHR ''/'') path of Some (p, _) \<Rightarrow> p | None \<Rightarrow> ''/'') in
      case find (\<lambda>(i, p). p = parent_path) (fv_order env (ino_paths s)) of
        Some (i, _) \<Rightarrow> i | None \<Rightarrow> 1)"

text \<open>The last loop: number the entries from 1, skip up to \<open>offset\<close>, stop when the buffer is full.\<close>

fun fill_reply ::
    "fuse_env \<Rightarrow> u64 \<Rightarrow> u64 \<Rightarrow> dir_entry list \<Rightarrow> (u64 \<times> dir_entry) list \<Rightarrow> (u64 \<times> dir_entry) list" where
  "fill_reply env offset seq [] acc = acc"
| "fill_reply env offset seq (e # es) acc =
     (let seq = seq + 1 in
      if seq \<le> offset then fill_reply env offset seq es acc
      else if fv_full env acc (seq, e) then acc
      else fill_reply env offset seq es (acc @ [(seq, e)]))"

definition fuse_readdir :: "fuse_env \<Rightarrow> u64 \<Rightarrow> u64 \<Rightarrow> fprog" where
  "fuse_readdir env ino offset =
     (let go = (\<lambda>path.
        inspect (\<lambda>s. if ino = 1 then 1 else parent_ino env path s) (\<lambda>pino.
          let v = [(1, Directory, ''.''), (pino, Directory, ''..'')];
              finish = (\<lambda>v. Ret (RDirectory (fill_reply env offset 0 v []))) in
          send_req ReadDir path [] (\<lambda>r.
            case r of
              Inr data \<Rightarrow> add_entries path (listing_names data) v finish
            | Inl _ \<Rightarrow> finish v))) in
      if ino = 1 then go ''/'' else with_path ino go)"

definition fuse_opendir :: "u64 \<Rightarrow> fprog" where
  "fuse_opendir ino =
     with_path ino (\<lambda>path.
       send_req OpenDir path [] (\<lambda>r. case r of Inr _ \<Rightarrow> Ret ROpened | Inl _ \<Rightarrow> Ret (RErr EIO)))"

definition fuse_releasedir :: "u64 \<Rightarrow> fprog" where
  "fuse_releasedir ino = with_path ino (\<lambda>path. send_req Release path [] (\<lambda>_. Ret ROk))"

definition fuse_mkdir :: "u64 \<Rightarrow> bytes \<Rightarrow> fprog" where
  "fuse_mkdir parent os_name =
     with_parent parent (\<lambda>parent_path.
       let path = entry_path parent_path (from_utf8_lossy os_name) in
       send_req MkDir path [] (\<lambda>r.
         case r of
           Inl _ \<Rightarrow> Ret (RErr EIO)
         | Inr _ \<Rightarrow>
             send_req GetAttr path [] (\<lambda>ar.
               let (is_dir, sz) = (case ar of Inr data \<Rightarrow> parse_attr data | Inl _ \<Rightarrow> (True, 4096)) in
               new_inode path (\<lambda>ino. Ret (REntry (make_attr ino sz is_dir))))))"

definition fuse_remove :: "fs_operation \<Rightarrow> u64 \<Rightarrow> bytes \<Rightarrow> fprog" where
  "fuse_remove op parent os_name =
     with_parent parent (\<lambda>parent_path.
       send_req op (entry_path parent_path (from_utf8_lossy os_name)) [] (\<lambda>r.
         case r of Inr _ \<Rightarrow> Ret ROk | Inl _ \<Rightarrow> Ret (RErr EIO)))"

definition fuse_unlink :: "u64 \<Rightarrow> bytes \<Rightarrow> fprog" where
  "fuse_unlink = fuse_remove Unlink"

definition fuse_rmdir :: "u64 \<Rightarrow> bytes \<Rightarrow> fprog" where
  "fuse_rmdir = fuse_remove RmDir"

subsection \<open>Files\<close>

definition fuse_read :: "u64 \<Rightarrow> u64 \<Rightarrow> u32 \<Rightarrow> fprog" where
  "fuse_read ino offset sz =
     with_path ino (\<lambda>path.
       send_req Read path [] (\<lambda>r.
         case r of
           Inr data \<Rightarrow>
             locked (\<lambda>s. ((), s\<lparr>size_cache := (size_cache s)(path \<mapsto> word_of_nat (length data))\<rparr>)) (\<lambda>_.
               let start = unat offset; stop = min (start + unat sz) (length data) in
               Ret (RData (if start < length data then sub_bytes data start stop else [])))
         | Inl _ \<Rightarrow> Ret (RErr EIO)))"

definition fuse_write :: "u64 \<Rightarrow> u64 \<Rightarrow> bytes \<Rightarrow> fprog" where
  "fuse_write ino offset data =
     with_path ino (\<lambda>path.
       send_req Write path data (\<lambda>r.
         case r of
           Inr _ \<Rightarrow>
             locked (\<lambda>s. ((), s\<lparr>size_cache := (size_cache s)(path \<mapsto> word_of_nat (length data))\<rparr>)) (\<lambda>_.
               Ret (RWritten (word_of_nat (length data))))
         | Inl _ \<Rightarrow> Ret (RErr EIO)))"

definition fuse_release :: "u64 \<Rightarrow> fprog" where
  "fuse_release ino = with_path ino (\<lambda>path. send_req Release path [] (\<lambda>_. Ret ROk))"

definition fuse_create :: "u64 \<Rightarrow> bytes \<Rightarrow> fprog" where
  "fuse_create parent os_name =
     with_parent parent (\<lambda>parent_path.
       new_inode (entry_path parent_path (from_utf8_lossy os_name)) (\<lambda>ino.
         Ret (RCreated (make_attr ino 0 False))))"

definition rename_inode :: "fuse_env \<Rightarrow> string \<Rightarrow> string \<Rightarrow> fprog" where
  "rename_inode env old_path new_path =
     inspect (\<lambda>s. map_option fst (find (\<lambda>(i, p). p = old_path) (fv_order env (ino_paths s)))) (\<lambda>found.
       case found of
         Some ino \<Rightarrow> locked (\<lambda>s. ((), record_path ino new_path s)) (\<lambda>_. Ret ROk)
       | None \<Rightarrow> Ret ROk)"

definition fuse_rename :: "fuse_env \<Rightarrow> u64 \<Rightarrow> bytes \<Rightarrow> u64 \<Rightarrow> bytes \<Rightarrow> fprog" where
  "fuse_rename env parent os_name newparent os_newname =
     with_parent parent (\<lambda>parent_path. with_parent newparent (\<lambda>newparent_path.
       let old_path = entry_path parent_path (from_utf8_lossy os_name);
           new_path = entry_path newparent_path (from_utf8_lossy os_newname) in
       send_req Rename old_path (as_bytes new_path) (\<lambda>r.
         case r of Inr _ \<Rightarrow> rename_inode env old_path new_path | Inl _ \<Rightarrow> Ret (RErr EIO))))"

definition fuse_forget :: "u64 \<Rightarrow> fuse_state \<Rightarrow> fuse_state" where
  "fuse_forget ino s =
     (if ino \<noteq> 1 then s\<lparr>ino_paths := filter (\<lambda>(i, p). i \<noteq> ino) (ino_paths s)\<rparr> else s)"

subsection \<open>Dispatch\<close>

datatype fuse_request =
    FLookup u64 bytes
  | FGetattr u64
  | FSetattr u64 setattr_args
  | FReaddir u64 u64
  | FOpen u64
  | FRead u64 u64 u32
  | FWrite u64 u64 bytes
  | FRelease u64
  | FOpendir u64
  | FReleasedir u64
  | FForget u64
  | FStatfs
  | FAccess u64
  | FCreate u64 bytes
  | FMkdir u64 bytes
  | FUnlink u64 bytes
  | FRmdir u64 bytes
  | FRename u64 bytes u64 bytes
  | FFlush u64
  | FFsync u64
  | FFsyncdir u64

fun fuse_handler :: "fuse_env \<Rightarrow> fuse_request \<Rightarrow> fprog" where
  "fuse_handler env (FLookup parent name) = fuse_lookup parent name"
| "fuse_handler env (FGetattr ino) = fuse_getattr ino"
| "fuse_handler env (FSetattr ino a) = fuse_setattr ino a"
| "fuse_handler env (FReaddir ino offset) = fuse_readdir env ino offset"
| "fuse_handler env (FOpen ino) = Ret ROpened"
| "fuse_handler env (FRead ino offset sz) = fuse_read ino offset sz"
| "fuse_handler env (FWrite ino offset data) = fuse_write ino offset data"
| "fuse_handler env (FRelease ino) = fuse_release ino"
| "fuse_handler env (FOpendir ino) = fuse_opendir ino"
| "fuse_handler env (FReleasedir ino) = fuse_releasedir ino"
| "fuse_handler env (FForget ino) = locked (\<lambda>s. ((), fuse_forget ino s)) (\<lambda>_. Ret RNone)"
| "fuse_handler env FStatfs = Ret RStatfs"
| "fuse_handler env (FAccess ino) = Ret ROk"
| "fuse_handler env (FCreate parent name) = fuse_create parent name"
| "fuse_handler env (FMkdir parent name) = fuse_mkdir parent name"
| "fuse_handler env (FUnlink parent name) = fuse_unlink parent name"
| "fuse_handler env (FRmdir parent name) = fuse_rmdir parent name"
| "fuse_handler env (FRename parent name newparent newname) = fuse_rename env parent name newparent newname"
| "fuse_handler env (FFlush ino) = Ret ROk"
| "fuse_handler env (FFsync ino) = Ret ROk"
| "fuse_handler env (FFsyncdir ino) = Ret ROk"

end
