(* ===== verification/Lifecycle.thy ===== *)
theory Lifecycle
  imports Program Accept_Loops Ssh_Auth Fuse_Frontend "HOL-Library.Char_ord" "HOL-Library.List_Lexorder"
begin

text \<open>
  \<open>main\<close> from its start to its end (\<open>src/src/main.rs\<close>): loading and compiling the script, registering
  the routes with the path trie (\<open>PathRouterBuilder\<close> of \<open>src/src/router.rs\<close>), starting the frontends,
  and the cleanup after an interrupt. The trie is the third-party crate \<open>matchit\<close>: the empty trie
  and its \<open>insert\<close> are parameters. \<open>main\<close> inserts the patterns in the order in which a hash map
  yields them, which is a parameter too.
\<close>

subsection \<open>Registering the routes\<close>

type_synonym 't trie_insert = "'t \<Rightarrow> string \<Rightarrow> route_meta \<Rightarrow> string + 't"

definition router_register :: "'t trie_insert \<Rightarrow> string \<Rightarrow> route_meta \<Rightarrow> 't \<Rightarrow> string + 't" where
  "router_register ins pattern meta trie =
     (case ins trie pattern meta of
        Inl e \<Rightarrow> Inl (''route registration failed: '' @ e)
      | Inr trie' \<Rightarrow> Inr trie')"

text \<open>The loop of \<open>main\<close>; an error is the text of the panic.\<close>

fun register_routes :: "'t trie_insert \<Rightarrow> (string \<times> route_meta) list \<Rightarrow> 't \<Rightarrow> string + 't" where
  "register_routes ins [] trie = Inr trie"
| "register_routes ins ((pattern, meta) # rest) trie =
     (case router_register ins pattern meta trie of
        Inl e \<Rightarrow> Inl (''route `'' @ pattern @ ''`: '' @ e)
      | Inr trie' \<Rightarrow> register_routes ins rest trie')"

subsection \<open>Start\<close>

datatype 't start_result =
    Exited
  | SetupPanic setup_error
  | RoutePanic string
  | Running 't "frontend list" worker_config string

definition main_start ::
    "(string list \<times> (string \<Rightarrow> string + string) \<times> (string + string) option) \<Rightarrow> 'f interpreter \<Rightarrow> 't trie_insert \<Rightarrow> 't
      \<Rightarrow> ((string \<rightharpoonup> route_meta) \<Rightarrow> (string \<times> route_meta) list) \<Rightarrow> 't start_result" where
  "main_start process interp ins empty_trie entries =
     (case process of (args, read, stdin) \<Rightarrow>
      case load_script args read stdin of
        None \<Rightarrow> Exited
      | Some script \<Rightarrow>
          (case compile interp script of
             Inl e \<Rightarrow> SetupPanic e
           | Inr (cfg, routes, code, wc) \<Rightarrow>
               (case register_routes ins (entries (pattern_map routes)) empty_trie of
                  Inl e \<Rightarrow> RoutePanic e
                | Inr trie \<Rightarrow> Running trie (frontends cfg) wc code)))"

subsection \<open>The worker pool and the other frontends\<close>

text \<open>
  \<open>WorkerPool::new\<close> and \<open>spawn_dispatcher\<close> of \<open>src/src/worker.rs\<close>, as \<open>main\<close> calls them with the script and the
  configuration that \<open>compile\<close> returned, and \<open>build_runtime\<close>, with which every worker starts.
\<close>

record worker_pool =
  wp_helpers :: nat
  wp_bytecodes :: string
  wp_config :: worker_config

definition worker_pool_new :: "nat \<Rightarrow> string \<Rightarrow> worker_config \<Rightarrow> worker_pool" where
  "worker_pool_new max_helpers bytecodes cfg = \<lparr>wp_helpers = max_helpers, wp_bytecodes = bytecodes, wp_config = cfg\<rparr>"

definition spawn_dispatcher :: "worker_pool \<Rightarrow> 'l \<Rightarrow> 'l dispatcher" where
  "spawn_dispatcher pool lua0 = dispatcher_new (wp_config pool) lua0"

definition build_runtime :: "'f interpreter \<Rightarrow> worker_pool \<Rightarrow> setup_error + 'f handler_runtime" where
  "build_runtime interp pool = from_bytecodes interp (wp_bytecodes pool)"

text \<open>
  \<open>mount\<close> of \<open>src/src/frontend/fuse.rs\<close>: the FUSE library makes a session of a new filesystem with the options
  of the program, and runs it. \<open>main\<close> keeps the sessions that could be mounted and only prints the
  errors of the others.
\<close>

datatype mount_option = FSName string | NoAtime

definition mount ::
    "(fuse_state \<Rightarrow> string \<Rightarrow> mount_option list \<Rightarrow> string + 's) \<Rightarrow> ('s \<Rightarrow> string + 'b) \<Rightarrow> string \<Rightarrow> string + 'b" where
  "mount session_new spawn mountpoint =
     (case session_new fuse_new mountpoint [FSName ''pinhead'', NoAtime] of
        Inl e \<Rightarrow> Inl (''FUSE mount: '' @ e)
      | Inr session \<Rightarrow>
          (case spawn session of
             Inl e \<Rightarrow> Inl (''FUSE spawn: '' @ e)
           | Inr background \<Rightarrow> Inr background))"

fun fuse_sessions :: "(string \<Rightarrow> string + 'b) \<Rightarrow> string list \<Rightarrow> 'b list" where
  "fuse_sessions mount_at [] = []"
| "fuse_sessions mount_at (path # rest) =
     (case mount_at path of
        Inr bg \<Rightarrow> bg # fuse_sessions mount_at rest
      | Inl e \<Rightarrow> fuse_sessions mount_at rest)"

text \<open>\<open>serve\<close> of \<open>src/src/frontend/sshfs.rs\<close> up to the loop of the SSH library: the socket comes first.\<close>

definition ssh_serve_start ::
    "sftp_lib \<Rightarrow> (string \<Rightarrow> string + string) \<Rightarrow> (string \<Rightarrow> string option) \<Rightarrow> string \<Rightarrow> sshfs_config \<Rightarrow> string + ssh_server" where
  "ssh_serve_start lib read bind addr cfg =
     (case bind addr of Some e \<Rightarrow> Inl e | None \<Rightarrow> Inr (ssh_server_new lib read cfg))"

subsection \<open>End\<close>

text \<open>The Unix listeners that run, and their socket files before and after the cleanup.\<close>

definition unix_paths :: "frontend list \<Rightarrow> string list" where
  "unix_paths fs = List.map_filter (\<lambda>f. case f of NinepUnix p \<Rightarrow> Some p | _ \<Rightarrow> None) fs"

definition main_sockets :: "(string \<Rightarrow> string option) \<Rightarrow> frontend list \<Rightarrow> string set \<Rightarrow> string set" where
  "main_sockets bind fs files = fold (\<lambda>p files. snd (serve_start bind p files)) (unix_paths fs) files"

text \<open>Aborting a listener drops its guard, if it got as far as binding its socket.\<close>

definition main_cleanup :: "(string \<Rightarrow> string option) \<Rightarrow> frontend list \<Rightarrow> string set \<Rightarrow> string set" where
  "main_cleanup bind fs files =
     fold (\<lambda>p files. if bind p = None then socket_cleanup_drop p files else files) (unix_paths fs) files"

subsection \<open>Lemmas\<close>

text \<open>
  Documented behaviour of the trie: an insertion fails exactly for a pattern that is malformed or in
  conflict with a pattern that is in the trie already, and adds the pattern otherwise.
\<close>

definition trie_laws ::
    "'t \<Rightarrow> 't trie_insert \<Rightarrow> ('t \<Rightarrow> string set) \<Rightarrow> (string \<Rightarrow> bool) \<Rightarrow> (string \<Rightarrow> string \<Rightarrow> bool) \<Rightarrow> bool" where
  "trie_laws empty_trie ins patterns well_formed conflict \<longleftrightarrow>
     patterns empty_trie = {} \<and> (\<forall>p q. conflict p q \<longrightarrow> conflict q p) \<and>
     (\<forall>t p m. if well_formed p \<and> (\<forall>q \<in> patterns t. \<not> conflict p q)
        then \<exists>t'. ins t p m = Inr t' \<and> patterns t' = Set.insert p (patterns t)
        else \<exists>e. ins t p m = Inl e)"

text \<open>Iterating over a hash map yields every entry once.\<close>

definition iterates :: "((string \<rightharpoonup> route_meta) \<Rightarrow> (string \<times> route_meta) list) \<Rightarrow> bool" where
  "iterates entries \<longleftrightarrow>
     (\<forall>m. finite (dom m) \<longrightarrow> distinct (map fst (entries m)) \<and> fst ` set (entries m) = dom m)"

definition compatible :: "(string \<Rightarrow> bool) \<Rightarrow> (string \<Rightarrow> string \<Rightarrow> bool) \<Rightarrow> string set \<Rightarrow> bool" where
  "compatible well_formed conflict ps \<longleftrightarrow>
     (\<forall>p \<in> ps. well_formed p) \<and> (\<forall>p \<in> ps. \<forall>q \<in> ps. p \<noteq> q \<longrightarrow> \<not> conflict p q)"

lemma register_routes_iff:
  assumes laws: "trie_laws empty_trie ins patterns well_formed conflict"
    and "distinct (map fst rs)" and "fst ` set rs \<inter> patterns t = {}" and "compatible well_formed conflict (patterns t)"
  shows "if compatible well_formed conflict (patterns t \<union> fst ` set rs)
    then \<exists>t'. register_routes ins rs t = Inr t' \<and> patterns t' = patterns t \<union> fst ` set rs
    else \<exists>e. register_routes ins rs t = Inl e"
  using assms(2-4)
proof (induction rs arbitrary: t)
  case (Cons r rs)
  obtain p m where r: "r = (p, m)"
    by (cases r)
  have sym: "conflict p q \<longleftrightarrow> conflict q p" for p q
    using laws by (auto simp: trie_laws_def)
  have step: "if well_formed p \<and> (\<forall>q \<in> patterns t. \<not> conflict p q)
      then \<exists>t'. ins t p m = Inr t' \<and> patterns t' = Set.insert p (patterns t) else \<exists>e. ins t p m = Inl e"
    using laws by (simp add: trie_laws_def)
  have new: "compatible well_formed conflict (Set.insert p (patterns t)) \<longleftrightarrow>
      well_formed p \<and> (\<forall>q \<in> patterns t. \<not> conflict p q)"
    using Cons.prems(2,3) sym by (auto simp: compatible_def r)
  have mono: "compatible well_formed conflict A" if "compatible well_formed conflict B" "A \<subseteq> B" for A B
    using that unfolding compatible_def by blast
  show ?case
  proof (cases "well_formed p \<and> (\<forall>q \<in> patterns t. \<not> conflict p q)")
    case True
    then obtain t' where t': "ins t p m = Inr t'" "patterns t' = Set.insert p (patterns t)"
      using step by auto
    have "fst ` set rs \<inter> patterns t' = {}"
      using Cons.prems(1,2) t'(2) by (auto simp: r)
    from Cons.IH [OF _ this] show ?thesis
      using Cons.prems(1) t' new True by (auto simp: r router_register_def Un_commute)
  next
    case False
    then have "\<not> compatible well_formed conflict (patterns t \<union> fst ` set (r # rs))"
      using new mono [of "patterns t \<union> fst ` set (r # rs)" "Set.insert p (patterns t)"] by (auto simp: r)
    moreover obtain e where "ins t p m = Inl e"
      using step False by auto
    ultimately show ?thesis
      by (simp add: r router_register_def)
  qed
qed simp

lemma pattern_map_dom: "dom (pattern_map rs) = rr_pattern ` set rs"
proof -
  have "pattern_map rs p = None \<longleftrightarrow> p \<notin> rr_pattern ` set rs" for p
    using pattern_map_spec [of p rs] by (auto split: option.splits)
  then show ?thesis
    by (auto simp: dom_def)
qed

text \<open>
  C33: The program starts or says why it does not. After a script has been compiled, the program runs
  exactly if all patterns that the script registered are well formed and no two of them are in
  conflict, and then all of them are in the trie; otherwise it panics with the text of a route that
  could not be registered. Whether it runs does not depend on the order of the hash map.
\<close>

theorem main_starts_or_panics:
  assumes "trie_laws empty_trie ins patterns well_formed conflict" and "iterates entries"
    and "load_script args read stdin = Some script" and "compile interp script = Inr (cfg, routes, code, wc)"
  shows "if compatible well_formed conflict (rr_pattern ` set routes)
    then \<exists>trie. main_start (args, read, stdin) interp ins empty_trie entries = Running trie (frontends cfg) wc code \<and>
      patterns trie = rr_pattern ` set routes
    else \<exists>e. main_start (args, read, stdin) interp ins empty_trie entries = RoutePanic e"
proof -
  let ?es = "entries (pattern_map routes)"
  have es: "distinct (map fst ?es)" "fst ` set ?es = rr_pattern ` set routes"
    using assms(2) pattern_map_dom [of routes] by (simp_all add: iterates_def)
  have "patterns empty_trie = {}"
    using assms(1) by (simp add: trie_laws_def)
  then show ?thesis
    using register_routes_iff [OF assms(1) es(1), of empty_trie] assms(3,4)
    by (auto simp: main_start_def es(2) compatible_def split: if_splits)
qed

text \<open>
  In a program that runs, every worker gets a runtime, with a function under every name that the
  route table can select: a worker without a runtime, or without a function, needs an interpreter
  that does not run the script twice in the same way.
\<close>

lemma named_names: "rr_handler_name ` set (named_routes k rs) = fst ` set (named_funcs k rs)"
proof (induction rs arbitrary: k)
  case (Cons r rs)
  then show ?case by (cases r) (simp add: image_insert)
qed simp

lemma running_workers_have_runtime:
  assumes "main_start (args, read, stdin) interp ins empty_trie entries = Running trie fs wc code"
  shows "\<exists>rt. build_runtime interp (worker_pool_new 4 code wc) = Inr rt \<and>
    (\<exists>script cfg routes. compile interp script = Inr (cfg, routes, code, wc) \<and>
      (\<forall>r \<in> set routes. rt_funcs rt (rr_handler_name r) \<noteq> None))"
proof -
  obtain script cfg routes where c: "compile interp script = Inr (cfg, routes, code, wc)"
    using assms by (auto simp: main_start_def split: option.splits sum.splits)
  obtain calls failure where i: "interp script = (calls, failure)"
    by (cases "interp script")
  obtain s where s: "exec_script interp False script = Inr s" "routes = ss_routes s" "code = script"
    using c by (auto simp: compile_def split: sum.splits)
  obtain t where t: "exec_script interp True script = Inr t" "ss_funcs t = map_of (named_funcs 0 (registrations calls))"
      "routes = named_routes 0 (registrations calls)"
    using exec_script_accepted [OF s(1) i] s(2) by blast
  have "ss_funcs t (rr_handler_name r) \<noteq> None" if "r \<in> set routes" for r
    using that named_names [of 0 "registrations calls"] unfolding t(2,3) map_of_eq_None_iff by blast
  moreover have "build_runtime interp (worker_pool_new 4 code wc) = Inr \<lparr>rt_funcs = ss_funcs t, rt_default = ss_default t\<rparr>"
    using t(1) s(3) by (simp add: build_runtime_def worker_pool_new_def from_bytecodes_def)
  ultimately show ?thesis
    using c by (intro exI conjI ballI) auto
qed

lemma fuse_sessions_mounted: "bg \<in> set (fuse_sessions mount_at ps) \<longleftrightarrow> (\<exists>p \<in> set ps. mount_at p = Inr bg)"
  by (induction ps) (auto split: sum.splits)

text \<open>After the cleanup no socket file of a listener is left, and no other file is gone.\<close>

lemma main_leaves_no_socket: "main_cleanup bind fs (main_sockets bind fs files) = files - set (unix_paths fs)"
proof -
  have start: "fold (\<lambda>p files. snd (serve_start bind p files)) ps files =
      files - set ps \<union> {p \<in> set ps. bind p = None}" for ps
    by (induction ps arbitrary: files) (auto simp: serve_start_def Let_def split: option.splits)
  have drop: "fold (\<lambda>p files. if bind p = None then socket_cleanup_drop p files else files) ps A =
      A - {p \<in> set ps. bind p = None}" for ps A
    by (induction ps arbitrary: A) (auto simp: socket_cleanup_drop_def)
  show ?thesis
    unfolding main_cleanup_def main_sockets_def start drop by auto
qed

definition list_insert :: "string list trie_insert" where
  "list_insert t p m = (if p = [] \<or> p \<in> set t then Inl ''insertion failed'' else Inr (p # t))"

definition sorted_entries :: "(string \<rightharpoonup> route_meta) \<Rightarrow> (string \<times> route_meta) list" where
  "sorted_entries m = map (\<lambda>p. (p, the (m p))) (sorted_list_of_set (dom m))"

theorem main_starts_or_panics_witness:
  "\<exists>trie fs wc. main_start ([''s.lua''], \<lambda>_. Inr [], None) demo_interp list_insert [] sorted_entries = Running trie fs wc [] \<and>
    set trie = {''/a''}"
proof -
  have laws: "trie_laws [] list_insert set (\<lambda>p. p \<noteq> []) (=)"
    by (auto simp: trie_laws_def list_insert_def)
  have entries: "iterates sorted_entries"
    by (simp add: iterates_def sorted_entries_def comp_def image_comp)
  have script: "load_script [''s.lua''] (\<lambda>_. Inr []) None = Some []"
    by (simp add: load_script_def strip_shebang_def starts_with_def)
  have routes: "rr_pattern ` set demo_routes = {''/a''}"
    by (simp add: demo_routes_def)
  have "compatible (\<lambda>p. p \<noteq> []) (=) {''/a''}"
    by (simp add: compatible_def)
  then show ?thesis
    using main_starts_or_panics [OF laws entries script demo_compile] routes by (auto simp: demo_routes_def)
qed

end
