(* ===== verification/Request_Flow.thy ===== *)
theory Request_Flow
  imports Fair_Runs Worker_Pool
begin

text \<open>
  The tasks behind the frontends, running concurrently: the router task (\<open>src/src/router.rs\<close>) with
  the channel of the frontends, the dispatcher with the channel of the router and the workers
  (\<open>src/src/worker.rs\<close>), connected as \<open>main\<close> connects them (\<open>src/src/main.rs\<close>, steps 3 to 5).

  The router awaits the answer to a request before it receives the next one. So at most one
  request is behind the router at any time: the concurrent program gives the replies of the
  sequential \<open>run_router\<close>, and the queue of the dispatcher never grows to the length at which it
  would start another worker.
\<close>

subsection \<open>State and steps\<close>

text \<open>
  \<open>fl_inbox\<close> is the channel of the frontends (128 places), \<open>fl_handler\<close> the one of the dispatcher (64
  places); \<open>fl_current\<close> is the request whose answer the router awaits. The position of a request in
  \<open>fl_sent\<close>, the list of all requests sent so far, stands for its reply channel.
\<close>

record 'l flow =
  fl_sent :: "request list"
  fl_inbox :: "(nat \<times> request) list"
  fl_current :: "(nat \<times> request \<times> handler_request) option"
  fl_handler :: "job list"
  fl_pool :: "'l dispatcher"
  fl_replies :: "(nat \<times> (string + handler_response) option) list"

definition flow_new :: "worker_config \<Rightarrow> 'l \<Rightarrow> 'l flow" where
  "flow_new cfg lua0 =
     \<lparr>fl_sent = [], fl_inbox = [], fl_current = None, fl_handler = [], fl_pool = dispatcher_new cfg lua0,
      fl_replies = []\<rparr>"

text \<open>What the router sends to the frontend when the handler side comes back with \<open>r\<close>.\<close>

definition router_reply :: "trie_at \<Rightarrow> request \<Rightarrow> handler_outcome \<Rightarrow> (string + handler_response) option" where
  "router_reply at req r = fst (dispatch at (\<lambda>w h. (r, w)) () req)"

datatype task =
    Frontends
  | RouterTask
  | DispatcherTask
  | CleanupTick
  | WorkerTask nat
  | WorkerStop nat
  | WorkerExit nat

text \<open>
  One step of one task. A worker without a runtime stops at once; a worker with one serves its
  channel, and may stop at any moment (\<open>WorkerStop\<close>: the idle timeout or a panic).
\<close>

inductive flow_step ::
    "trie_at \<Rightarrow> worker_config \<Rightarrow> ('f, 'l) lua_call \<Rightarrow> setup_error + 'f handler_runtime \<Rightarrow> 'l
      \<Rightarrow> task \<Rightarrow> 'l flow \<Rightarrow> 'l flow \<Rightarrow> bool"
  for at cfg call rt lua0 where
  submit: "length (fl_inbox s) < 128 \<Longrightarrow>
    flow_step at cfg call rt lua0 Frontends s
      (s\<lparr>fl_sent := fl_sent s @ [req], fl_inbox := fl_inbox s @ [(length (fl_sent s), req)]\<rparr>)"
| reject: "fl_current s = None \<Longrightarrow> fl_inbox s = (n, req) # rest \<Longrightarrow> forwarded at req = None \<Longrightarrow>
    flow_step at cfg call rt lua0 RouterTask s
      (s\<lparr>fl_inbox := rest, fl_replies := fl_replies s @ [(n, router_reply at req ReplyDropped)]\<rparr>)"
| forward: "fl_current s = None \<Longrightarrow> fl_inbox s = (n, req) # rest \<Longrightarrow> forwarded at req = Some (meta, h) \<Longrightarrow>
    length (fl_handler s) < 64 \<Longrightarrow>
    flow_step at cfg call rt lua0 RouterTask s
      (s\<lparr>fl_inbox := rest, fl_current := Some (n, req, h), fl_handler := fl_handler s @ [(n, h)]\<rparr>)"
| answer: "fl_current s = Some (n, req, h) \<Longrightarrow> ((n, h), r) \<in> set (ds_done (fl_pool s)) \<Longrightarrow>
    flow_step at cfg call rt lua0 RouterTask s
      (s\<lparr>fl_current := None, fl_replies := fl_replies s @ [(n, router_reply at req (outcome_of r))]\<rparr>)"
| receive: "fl_handler s = j # js \<Longrightarrow>
    flow_step at cfg call rt lua0 DispatcherTask s
      (s\<lparr>fl_handler := js, fl_pool := dispatch_job cfg lua0 (length js) j (fl_pool s)\<rparr>)"
| tick: "flow_step at cfg call rt lua0 CleanupTick s (s\<lparr>fl_pool := cleanup_tick cfg lua0 (fl_pool s)\<rparr>)"
| serve: "rt = Inr r \<Longrightarrow> i < length (ds_workers (fl_pool s)) \<Longrightarrow> wk_open (ds_workers (fl_pool s) ! i) \<Longrightarrow>
    wk_queue (ds_workers (fl_pool s) ! i) \<noteq> [] \<Longrightarrow>
    flow_step at cfg call rt lua0 (WorkerTask i) s (s\<lparr>fl_pool := worker_serve call r i (fl_pool s)\<rparr>)"
| no_runtime: "rt = Inl e \<Longrightarrow> i < length (ds_workers (fl_pool s)) \<Longrightarrow> wk_open (ds_workers (fl_pool s) ! i) \<Longrightarrow>
    flow_step at cfg call rt lua0 (WorkerTask i) s (s\<lparr>fl_pool := worker_stop i (fl_pool s)\<rparr>)"
| stop: "i < length (ds_workers (fl_pool s)) \<Longrightarrow> wk_open (ds_workers (fl_pool s) ! i) \<Longrightarrow>
    flow_step at cfg call rt lua0 (WorkerStop i) s (s\<lparr>fl_pool := worker_stop i (fl_pool s)\<rparr>)"
| finish: "i < length (ds_workers (fl_pool s)) \<Longrightarrow> \<not> wk_open (ds_workers (fl_pool s) ! i) \<Longrightarrow>
    \<not> wk_finished (ds_workers (fl_pool s) ! i) \<Longrightarrow>
    flow_step at cfg call rt lua0 (WorkerExit i) s (s\<lparr>fl_pool := worker_finish i (fl_pool s)\<rparr>)"

inductive_cases flow_step_E: "flow_step at cfg call rt lua0 a s s'"

inductive_cases router_step_E: "flow_step at cfg call rt lua0 RouterTask s s'"

inductive_cases dispatcher_step_E: "flow_step at cfg call rt lua0 DispatcherTask s s'"

inductive_cases worker_step_E: "flow_step at cfg call rt lua0 (WorkerTask i) s s'"

text \<open>The tasks that run whenever they are ready; frontends need not send requests.\<close>

definition server_tasks :: "task set" where
  "server_tasks = {RouterTask, DispatcherTask} \<union> range WorkerTask"

subsection \<open>The invariant\<close>

text \<open>Requests are answered, awaited and waiting in the order in which they were sent.\<close>

definition current_ids :: "'l flow \<Rightarrow> nat list" where
  "current_ids s = (case fl_current s of None \<Rightarrow> [] | Some (n, _, _) \<Rightarrow> [n])"

definition flow_order :: "trie_at \<Rightarrow> 'l flow \<Rightarrow> bool" where
  "flow_order at s \<longleftrightarrow>
     map fst (fl_replies s) @ current_ids s @ map fst (fl_inbox s) = [0..<length (fl_sent s)] \<and>
     (\<forall>x \<in> set (fl_inbox s). fl_sent s ! fst x = snd x) \<and>
     (\<forall>n req h. fl_current s = Some (n, req, h) \<longrightarrow>
        fl_sent s ! n = req \<and> (\<exists>meta. forwarded at req = Some (meta, h)))"

text \<open>The awaited request is in exactly one place behind the router, and nothing else is there.\<close>

definition settled_below :: "nat \<Rightarrow> 'l dispatcher \<Rightarrow> bool" where
  "settled_below k d \<longleftrightarrow> (\<forall>x \<in> set (ds_done d). fst (fst x) < k)"

definition flow_place :: "'l flow \<Rightarrow> bool" where
  "flow_place s \<longleftrightarrow>
     (case fl_current s of
        None \<Rightarrow>
          fl_handler s = [] \<and> queued (ds_workers (fl_pool s)) = {#} \<and>
          settled_below (length (fl_replies s)) (fl_pool s)
      | Some (n, req, h) \<Rightarrow>
          fl_handler s = [(n, h)] \<and> queued (ds_workers (fl_pool s)) = {#} \<and> settled_below n (fl_pool s) \<or>
          fl_handler s = [] \<and> queued (ds_workers (fl_pool s)) = {#(n, h)#} \<and> settled_below n (fl_pool s) \<or>
          fl_handler s = [] \<and> queued (ds_workers (fl_pool s)) = {#} \<and> settled_below (Suc n) (fl_pool s) \<and>
            (n, h) \<in> fst ` set (ds_done (fl_pool s)))"

definition workers_ok :: "worker_config \<Rightarrow> 'l worker list \<Rightarrow> bool" where
  "workers_ok cfg ws \<longleftrightarrow>
     (\<forall>w \<in> set ws. (\<not> wk_open w \<longrightarrow> wk_queue w = []) \<and> (wk_finished w \<longrightarrow> \<not> wk_open w)) \<and>
     length ws \<le> min_workers cfg"

text \<open>How a request may be settled: dropped, refused without a worker, or answered by the script.\<close>

definition may_settle ::
    "('f, 'l) lua_call \<Rightarrow> setup_error + 'f handler_runtime \<Rightarrow> handler_request \<Rightarrow> job_outcome \<Rightarrow> bool" where
  "may_settle call rt h r \<longleftrightarrow>
     r = Dropped \<or> r = Answered (Inl ''no workers available'') \<or>
     (\<exists>R l. rt = Inr R \<and> r = Answered (fst (call_lua call R h l)))"

definition may_reply ::
    "trie_at \<Rightarrow> ('f, 'l) lua_call \<Rightarrow> setup_error + 'f handler_runtime \<Rightarrow> request
      \<Rightarrow> (string + handler_response) option \<Rightarrow> bool" where
  "may_reply at call rt req x \<longleftrightarrow>
     (\<exists>r. x = router_reply at req (outcome_of r) \<and>
       (\<forall>meta h. forwarded at req = Some (meta, h) \<longrightarrow> may_settle call rt h r))"

definition flow_answers ::
    "trie_at \<Rightarrow> ('f, 'l) lua_call \<Rightarrow> setup_error + 'f handler_runtime \<Rightarrow> 'l flow \<Rightarrow> bool" where
  "flow_answers at call rt s \<longleftrightarrow>
     (\<forall>x \<in> set (ds_done (fl_pool s)). may_settle call rt (snd (fst x)) (snd x)) \<and>
     (\<forall>x \<in> set (fl_replies s). may_reply at call rt (fl_sent s ! fst x) (snd x))"

definition flow_ok ::
    "trie_at \<Rightarrow> worker_config \<Rightarrow> ('f, 'l) lua_call \<Rightarrow> setup_error + 'f handler_runtime \<Rightarrow> 'l flow \<Rightarrow> bool" where
  "flow_ok at cfg call rt s \<longleftrightarrow>
     flow_order at s \<and> flow_place s \<and> workers_ok cfg (ds_workers (fl_pool s)) \<and> flow_answers at call rt s"

subsection \<open>What the tasks do to the pool\<close>

lemma workers_ok_update:
  "workers_ok cfg ws \<Longrightarrow> (\<not> wk_open w \<longrightarrow> wk_queue w = []) \<and> (wk_finished w \<longrightarrow> \<not> wk_open w) \<Longrightarrow>
    workers_ok cfg (ws[i := w])"
  by (auto simp: workers_ok_def dest!: set_update_subset_insert [THEN subsetD])

lemma workers_ok_busy: "workers_ok cfg ws \<Longrightarrow> i < length ws \<Longrightarrow> wk_queue (ws ! i) \<noteq> [] \<Longrightarrow> wk_open (ws ! i)"
  using nth_mem by (fastforce simp: workers_ok_def)

lemma queued_empty_iff: "queued ws = {#} \<longleftrightarrow> (\<forall>w \<in> set ws. wk_queue w = [])"
  by (induction ws) auto

lemma queued_same: "i < length ws \<Longrightarrow> wk_queue w = wk_queue (ws ! i) \<Longrightarrow> queued (ws[i := w]) = queued ws"
  using queued_update [of i ws w] by simp

lemma queued_single:
  assumes "queued ws = {#j#}" and "i < length ws" and "wk_queue (ws ! i) \<noteq> []"
  shows "wk_queue (ws ! i) = [j]" and "wk_queue w = [] \<Longrightarrow> queued (ws[i := w]) = {#}"
proof -
  have sum: "queued (ws[i := w]) + mset (wk_queue (ws ! i)) = {#j#} + mset (wk_queue w)" for w
    using queued_update [OF assms(2)] assms(1) by simp
  obtain q qs where q: "wk_queue (ws ! i) = q # qs"
    using assms(3) by (cases "wk_queue (ws ! i)") auto
  from sum [of "(ws ! i)\<lparr>wk_queue := []\<rparr>"] q show "wk_queue (ws ! i) = [j]"
    by (auto simp: add_eq_conv_ex)
  with sum [of w] show "queued (ws[i := w]) = {#}" if "wk_queue w = []"
    using that by simp
qed

lemma queued_place:
  assumes "queued ws = {#j#}"
  shows "\<exists>i < length ws. wk_queue (ws ! i) = [j]"
proof -
  obtain w where "w \<in> set ws" "wk_queue w \<noteq> []"
    using assms queued_empty_iff [of ws] by (metis add_mset_not_empty)
  then obtain i where "i < length ws" "wk_queue (ws ! i) \<noteq> []"
    by (auto simp: in_set_conv_nth)
  with queued_single(1) [OF assms] show ?thesis
    by blast
qed

lemma swap_remove_workers_ok: "i < length ws \<Longrightarrow> workers_ok cfg ws \<Longrightarrow> workers_ok cfg (swap_remove i ws)"
  using set_swap_remove [of i ws] length_swap_remove [of i ws] by (auto simp: workers_ok_def)

text \<open>A request that the dispatcher receives with nothing behind it goes to one worker or is settled.\<close>

lemma dispatch_single:
  assumes "workers_ok cfg (ds_workers d)" and "queued (ds_workers d) = {#}"
    and "d' = dispatch_job cfg lua0 0 j d"
  shows "workers_ok cfg (ds_workers d') \<and>
    (queued (ds_workers d') = {#j#} \<and> ds_done d' = ds_done d \<or>
     queued (ds_workers d') = {#} \<and>
       (\<exists>r. ds_done d' = ds_done d @ [(j, r)] \<and> r \<in> {Dropped, Answered (Inl ''no workers available'')}))"
proof (cases "ds_workers d = []")
  case True
  then show ?thesis
    using assms by (simp add: dispatch_job_def Let_def finish_def)
next
  case False
  let ?ws = "ds_workers d" and ?n = "ds_next d mod length (ds_workers d)"
  have n: "?n < length ?ws"
    using False by simp
  show ?thesis
  proof (cases "wk_open (?ws ! ?n)")
    case True
    have "wk_queue (?ws ! ?n) = []"
      using assms(2) n by (simp add: queued_empty_iff)
    then have "queued (?ws[?n := enqueue j (?ws ! ?n)]) = {#j#}"
      using queued_update [OF n, of "enqueue j (?ws ! ?n)"] assms(2) by (simp add: enqueue_def)
    moreover have "workers_ok cfg (?ws[?n := enqueue j (?ws ! ?n)])"
      using assms(1) nth_mem [OF n] True by (intro workers_ok_update) (auto simp: enqueue_def workers_ok_def)
    ultimately show ?thesis
      using True False assms(3) by (simp add: dispatch_job_def Let_def)
  next
    case closed: False
    have "queued (swap_remove ?n ?ws) = {#}"
      using queued_swap_remove [OF n] assms(2) n by (simp add: queued_empty_iff)
    with closed False assms show ?thesis
      by (simp add: dispatch_job_def Let_def finish_def swap_remove_workers_ok)
  qed
qed

lemma cleanup_keeps:
  assumes "workers_ok cfg (ds_workers d)"
  shows "workers_ok cfg (ds_workers (cleanup_tick cfg lua0 d)) \<and>
    queued (ds_workers (cleanup_tick cfg lua0 d)) = queued (ds_workers d) \<and>
    ds_done (cleanup_tick cfg lua0 d) = ds_done d"
proof -
  let ?ws = "filter (\<lambda>w. \<not> wk_finished w) (ds_workers d)"
  have "workers_ok cfg ?ws \<and> queued ?ws = queued (ds_workers d)"
    using assms queued_filter_closed [of "ds_workers d"]
    by (auto simp: workers_ok_def intro: le_trans [OF length_filter_le])
  then have "workers_ok cfg (replenish cfg lua0 ?ws) \<and> queued (replenish cfg lua0 ?ws) = queued (ds_workers d)"
    by (rule replenish_induct [where P = "\<lambda>ws. workers_ok cfg ws \<and> queued ws = queued (ds_workers d)"])
      (auto simp: workers_ok_def spawn_worker_def)
  then show ?thesis
    by (simp add: cleanup_tick_def)
qed

text \<open>The only busy worker settles its request; steps of the others change no request.\<close>

lemma serve_single:
  assumes "workers_ok cfg (ds_workers d)" and "queued (ds_workers d) = {#j#}"
    and i: "i < length (ds_workers d)" "wk_queue (ds_workers d ! i) \<noteq> []"
  shows "workers_ok cfg (ds_workers (worker_serve call r i d)) \<and>
    queued (ds_workers (worker_serve call r i d)) = {#} \<and>
    (\<exists>l. ds_done (worker_serve call r i d) = ds_done d @ [(j, Answered (fst (call_lua call r (snd j) l)))])"
proof -
  let ?w = "ds_workers d ! i"
  obtain x l where x: "call_lua call r (snd j) (wk_lua ?w) = (x, l)"
    by (cases "call_lua call r (snd j) (wk_lua ?w)")
  have d': "worker_serve call r i d = finish j (Answered x) (d\<lparr>ds_workers := (ds_workers d)[i := ?w\<lparr>wk_queue := [], wk_lua := l\<rparr>]\<rparr>)"
    using queued_single(1) [OF assms(2) i] x by (simp add: worker_serve_def Let_def)
  have "wk_open ?w" "\<not> wk_finished ?w"
    using workers_ok_busy [OF assms(1) i] assms(1) nth_mem [OF i(1)] by (auto simp: workers_ok_def)
  then have "workers_ok cfg ((ds_workers d)[i := ?w\<lparr>wk_queue := [], wk_lua := l\<rparr>])"
    by (intro workers_ok_update [OF assms(1)]) simp
  moreover have "queued ((ds_workers d)[i := ?w\<lparr>wk_queue := [], wk_lua := l\<rparr>]) = {#}"
    by (rule queued_single(2) [OF assms(2) i]) simp
  ultimately show ?thesis
    using x by (auto simp: d' finish_def intro: exI [of _ "wk_lua ?w"])
qed

lemma stop_single:
  assumes "workers_ok cfg (ds_workers d)" and i: "i < length (ds_workers d)"
  shows "workers_ok cfg (ds_workers (worker_stop i d)) \<and>
    (wk_queue (ds_workers d ! i) = [] \<longrightarrow>
      queued (ds_workers (worker_stop i d)) = queued (ds_workers d) \<and> ds_done (worker_stop i d) = ds_done d) \<and>
    (\<forall>j. queued (ds_workers d) = {#j#} \<and> wk_queue (ds_workers d ! i) \<noteq> [] \<longrightarrow>
      queued (ds_workers (worker_stop i d)) = {#} \<and> ds_done (worker_stop i d) = ds_done d @ [(j, Dropped)])"
proof -
  let ?w = "ds_workers d ! i"
  have "workers_ok cfg ((ds_workers d)[i := ?w\<lparr>wk_queue := [], wk_open := False\<rparr>])"
    by (rule workers_ok_update [OF assms(1)]) simp
  moreover have "queued ((ds_workers d)[i := ?w\<lparr>wk_queue := [], wk_open := False\<rparr>]) = queued (ds_workers d)"
    if "wk_queue ?w = []"
    using that by (intro queued_same [OF i]) simp
  moreover have "queued ((ds_workers d)[i := ?w\<lparr>wk_queue := [], wk_open := False\<rparr>]) = {#}" "wk_queue ?w = [j]"
    if "queued (ds_workers d) = {#j#}" "wk_queue ?w \<noteq> []" for j
    using queued_single [OF that(1) i that(2)] by simp_all
  ultimately show ?thesis
    by (auto simp: worker_stop_def Let_def)
qed

lemma finish_keeps:
  assumes "workers_ok cfg (ds_workers d)" and "i < length (ds_workers d)" and "\<not> wk_open (ds_workers d ! i)"
  shows "workers_ok cfg (ds_workers (worker_finish i d)) \<and>
    queued (ds_workers (worker_finish i d)) = queued (ds_workers d) \<and> ds_done (worker_finish i d) = ds_done d"
proof -
  let ?w = "(ds_workers d ! i)\<lparr>wk_finished := True\<rparr>"
  have "workers_ok cfg ((ds_workers d)[i := ?w])"
    using workers_ok_busy [OF assms(1,2)] assms(3) by (intro workers_ok_update [OF assms(1)]) auto
  moreover have "queued ((ds_workers d)[i := ?w]) = queued (ds_workers d)"
    by (rule queued_same [OF assms(2)]) simp
  ultimately show ?thesis
    by (simp add: worker_finish_def)
qed

subsection \<open>The invariant is kept\<close>

lemma order_ids:
  assumes "flow_order at s"
  shows "map fst (fl_replies s) = [0..<length (fl_replies s)]"
    and "fl_current s = Some (n, req, h) \<Longrightarrow> n = length (fl_replies s)"
    and "fl_current s = None \<Longrightarrow> fl_inbox s = (n, req) # rest \<Longrightarrow> n = length (fl_replies s)"
    and "length (fl_sent s) = length (fl_replies s) + length (current_ids s) + length (fl_inbox s)"
proof -
  have split: "xs = [0..<length xs]" "ys = [length xs..<m]" "m = length xs + length ys"
    if "xs @ ys = [0..<m]" for xs ys :: "nat list" and m
  proof -
    have "length xs \<le> m"
      using arg_cong [OF that, of length] by simp
    then have "[0..<m] = [0..<length xs] @ [length xs..<m]"
      using upt_add_eq_append [of 0 "length xs" "m - length xs"] by simp
    then show "xs = [0..<length xs]" "ys = [length xs..<m]"
      using that by (auto simp: append_eq_append_conv)
    show "m = length xs + length ys"
      using arg_cong [OF that, of length] by simp
  qed
  have ids: "map fst (fl_replies s) @ (current_ids s @ map fst (fl_inbox s)) = [0..<length (fl_sent s)]"
    using assms by (simp add: flow_order_def)
  note parts = split [OF ids]
  show "map fst (fl_replies s) = [0..<length (fl_replies s)]"
    using parts(1) by simp
  show "length (fl_sent s) = length (fl_replies s) + length (current_ids s) + length (fl_inbox s)"
    using parts(3) by simp
  show "n = length (fl_replies s)" if "fl_current s = Some (n, req, h)"
    using parts(2) that by (simp add: current_ids_def upt_eq_Cons_conv [symmetric] del: upt_Suc)
      (metis upt_eq_Cons_conv)
  show "n = length (fl_replies s)" if "fl_current s = None" "fl_inbox s = (n, req) # rest"
    using parts(2) that by (simp add: current_ids_def) (metis upt_eq_Cons_conv)
qed

lemma flow_order_step:
  assumes "flow_order at s" and "flow_step at cfg call rt lua0 a s s'"
  shows "flow_order at s'"
  using assms(2)
proof (cases rule: flow_step.cases)
  case (submit req)
  have "n < length (fl_sent s)" if "n \<in> set (map fst (fl_replies s) @ current_ids s @ map fst (fl_inbox s))" for n
    using assms(1) that by (simp add: flow_order_def del: set_append)
  then have "\<forall>x \<in> set (fl_inbox s). fst x < length (fl_sent s)"
    "\<forall>n r h. fl_current s = Some (n, r, h) \<longrightarrow> n < length (fl_sent s)"
    by (auto simp: current_ids_def)
  then show ?thesis
    using assms(1) submit by (auto simp: flow_order_def current_ids_def nth_append)
qed (use assms(1) in \<open>auto simp: flow_order_def current_ids_def\<close>)

lemma settled_below_mono: "settled_below m d \<Longrightarrow> m \<le> n \<Longrightarrow> settled_below n d"
  by (fastforce simp: settled_below_def)

lemma settled_below_done:
  "ds_done d' = ds_done d \<Longrightarrow> settled_below n d' \<longleftrightarrow> settled_below n d"
  "ds_done d' = ds_done d @ [((n, h), r)] \<Longrightarrow> settled_below n d \<Longrightarrow> settled_below (Suc n) d'"
  by (auto simp: settled_below_def less_Suc_eq)

text \<open>A step of the pool that leaves all requests where they are.\<close>

lemma flow_place_same:
  assumes "flow_place s" and "queued (ds_workers d) = queued (ds_workers (fl_pool s))" and "ds_done d = ds_done (fl_pool s)"
  shows "flow_place (s\<lparr>fl_pool := d\<rparr>)"
  using assms by (simp add: flow_place_def settled_below_done(1) [OF assms(3)] split: option.splits prod.splits)

text \<open>A step of the pool that settles the request which is in the channel of a worker.\<close>

lemma flow_place_settled:
  assumes "flow_place s" and "queued (ds_workers (fl_pool s)) = {#j#}"
    and "queued (ds_workers d) = {#}" and "ds_done d = ds_done (fl_pool s) @ [(j, r)]"
  shows "flow_place (s\<lparr>fl_pool := d\<rparr>)"
proof -
  obtain n req h where c: "fl_current s = Some (n, req, h)" "j = (n, h)" "settled_below n (fl_pool s)" "fl_handler s = []"
    using assms(1,2) by (auto simp: flow_place_def split: option.splits prod.splits)
  then show ?thesis
    using settled_below_done(2) [of d "fl_pool s" n h r] assms(3,4) by (simp add: flow_place_def)
qed

lemma queued_cases:
  assumes "flow_place s"
  shows "queued (ds_workers (fl_pool s)) = {#} \<or> (\<exists>j. queued (ds_workers (fl_pool s)) = {#j#})"
  using assms by (auto simp: flow_place_def split: option.splits prod.splits)

lemma queued_busy:
  assumes "flow_place s" and "i < length (ds_workers (fl_pool s))" and "wk_queue (ds_workers (fl_pool s) ! i) \<noteq> []"
  obtains j where "queued (ds_workers (fl_pool s)) = {#j#}"
  using queued_cases [OF assms(1)] assms(2,3) by (auto simp: queued_empty_iff)

text \<open>What a step of a worker or of the cleanup does: nothing to the requests, or it settles the only one.\<close>

definition moves_one ::
    "('f, 'l) lua_call \<Rightarrow> setup_error + 'f handler_runtime \<Rightarrow> 'l dispatcher \<Rightarrow> 'l dispatcher \<Rightarrow> bool" where
  "moves_one call rt d d' \<longleftrightarrow>
     queued (ds_workers d') = queued (ds_workers d) \<and> ds_done d' = ds_done d \<or>
     (\<exists>j r. queued (ds_workers d) = {#j#} \<and> queued (ds_workers d') = {#} \<and>
       ds_done d' = ds_done d @ [(j, r)] \<and> may_settle call rt (snd j) r)"

lemma stop_moves:
  assumes "flow_place s" and "workers_ok cfg (ds_workers (fl_pool s))" and "i < length (ds_workers (fl_pool s))"
  shows "workers_ok cfg (ds_workers (worker_stop i (fl_pool s))) \<and> moves_one call rt (fl_pool s) (worker_stop i (fl_pool s))"
proof (cases "wk_queue (ds_workers (fl_pool s) ! i) = []")
  case True
  then show ?thesis
    using stop_single [OF assms(2,3)] by (simp add: moves_one_def)
next
  case False
  obtain j where "queued (ds_workers (fl_pool s)) = {#j#}"
    using queued_busy [OF assms(1,3) False] .
  moreover from this stop_single [OF assms(2,3)] False
  have "queued (ds_workers (worker_stop i (fl_pool s))) = {#}"
    "ds_done (worker_stop i (fl_pool s)) = ds_done (fl_pool s) @ [(j, Dropped)]"
    by blast+
  ultimately show ?thesis
    using stop_single [OF assms(2,3)] by (auto simp: moves_one_def may_settle_def)
qed

lemma flow_pool_step:
  assumes "flow_place s" and "workers_ok cfg (ds_workers (fl_pool s))" and "flow_step at cfg call rt lua0 a s s'"
    and "a \<in> {CleanupTick} \<union> range WorkerTask \<union> range WorkerStop \<union> range WorkerExit"
  shows "\<exists>d. s' = s\<lparr>fl_pool := d\<rparr> \<and> workers_ok cfg (ds_workers d) \<and> moves_one call rt (fl_pool s) d"
  using assms(3)
proof (cases rule: flow_step.cases)
  case tick
  then show ?thesis
    using cleanup_keeps [OF assms(2)] by (auto simp: moves_one_def)
next
  case (serve r i)
  obtain j where "queued (ds_workers (fl_pool s)) = {#j#}"
    using queued_busy [OF assms(1) serve(4,6)] .
  from serve_single [OF assms(2) this serve(4,6), of call r] this show ?thesis
    using serve(2,3) by (auto simp: moves_one_def may_settle_def)
next
  case (no_runtime e i)
  then show ?thesis
    using stop_moves [OF assms(1,2)] by blast
next
  case (stop i)
  then show ?thesis
    using stop_moves [OF assms(1,2)] by blast
next
  case (finish i)
  then show ?thesis
    using finish_keeps [OF assms(2)] by (auto simp: moves_one_def)
qed (use assms(4) in auto)

lemma flow_place_step:
  assumes "flow_order at s" and "flow_place s" and "workers_ok cfg (ds_workers (fl_pool s))"
    and step: "flow_step at cfg call rt lua0 a s s'"
  shows "flow_place s' \<and> workers_ok cfg (ds_workers (fl_pool s'))"
proof (cases "a \<in> {CleanupTick} \<union> range WorkerTask \<union> range WorkerStop \<union> range WorkerExit")
  case True
  from flow_pool_step [OF assms(2,3) step True] show ?thesis
    using flow_place_same [OF assms(2)] flow_place_settled [OF assms(2)]
    by (auto simp: moves_one_def)
next
  case False
  from step show ?thesis
  proof (cases rule: flow_step.cases)
    case (reject n req rest)
    then show ?thesis
      using assms(2,3) by (auto simp: flow_place_def intro: settled_below_mono)
  next
    case (forward n req rest meta h)
    then show ?thesis
      using assms(2,3) order_ids(3) [OF assms(1) forward(3,4)] by (simp add: flow_place_def)
  next
    case (answer n req h r)
    have "\<not> settled_below n (fl_pool s)"
      using answer(4) by (force simp: settled_below_def)
    then show ?thesis
      using answer assms(2,3) order_ids(2) [OF assms(1) answer(3)] by (simp add: flow_place_def)
  next
    case (receive j js)
    obtain n req h where c: "fl_current s = Some (n, req, h)" "j = (n, h)" "js = []"
        "queued (ds_workers (fl_pool s)) = {#}" "settled_below n (fl_pool s)"
      using receive(3) assms(2) by (auto simp: flow_place_def split: option.splits prod.splits)
    from dispatch_single [OF assms(3) c(4) refl, of lua0 j] c receive(2)
      settled_below_done [of "dispatch_job cfg lua0 0 j (fl_pool s)" "fl_pool s"]
    show ?thesis
      by (auto simp: flow_place_def)
  next
    case (submit req)
    then show ?thesis
      using assms(2,3) by (simp add: flow_place_def split: option.splits prod.splits)
  qed (use False in auto)
qed

lemma flow_answers_step:
  assumes "flow_order at s" and "flow_place s" and "workers_ok cfg (ds_workers (fl_pool s))"
    and ans: "flow_answers at call rt s" and step: "flow_step at cfg call rt lua0 a s s'"
  shows "flow_answers at call rt s'"
proof (cases "a \<in> {CleanupTick} \<union> range WorkerTask \<union> range WorkerStop \<union> range WorkerExit")
  case True
  then obtain d where d: "s' = s\<lparr>fl_pool := d\<rparr>" "moves_one call rt (fl_pool s) d"
    using flow_pool_step [OF assms(2,3) step] by blast
  from d(2) ans show ?thesis
    unfolding moves_one_def by (elim disjE exE conjE) (simp_all add: d(1) flow_answers_def)
next
  case False
  from step show ?thesis
  proof (cases rule: flow_step.cases)
    case (submit req)
    have "fst x < length (fl_sent s)" if "x \<in> set (fl_replies s)" for x
    proof -
      have "fst x \<in> set [0..<length (fl_replies s)]"
        using that order_ids(1) [OF assms(1)] by (metis image_eqI set_map)
      then show ?thesis
        using order_ids(4) [OF assms(1)] by simp
    qed
    then show ?thesis
      using ans submit by (auto simp: flow_answers_def nth_append)
  next
    case (reject n req rest)
    then have "fl_sent s ! n = req"
      using assms(1) by (simp add: flow_order_def)
    then have "may_reply at call rt (fl_sent s ! n) (router_reply at req ReplyDropped)"
      using reject by (auto simp: may_reply_def may_settle_def outcome_of_def intro: exI [of _ Dropped])
    then show ?thesis
      using ans reject by (simp add: flow_answers_def)
  next
    case (answer n req h r)
    then obtain meta where "fl_sent s ! n = req" "forwarded at req = Some (meta, h)"
      using assms(1) by (auto simp: flow_order_def)
    moreover have "may_settle call rt h r"
      using ans answer(4) by (force simp: flow_answers_def)
    ultimately have "may_reply at call rt (fl_sent s ! n) (router_reply at req (outcome_of r))"
      by (auto simp: may_reply_def)
    then show ?thesis
      using ans answer by (simp add: flow_answers_def)
  next
    case (receive j js)
    then have "js = []" "queued (ds_workers (fl_pool s)) = {#}"
      using assms(2) by (auto simp: flow_place_def split: option.splits prod.splits)
    with dispatch_single [OF assms(3) _ refl, of lua0 j] receive ans show ?thesis
      by (auto simp: flow_answers_def may_settle_def)
  qed (use ans False in \<open>auto simp: flow_answers_def\<close>)
qed

interpretation flow: invariant_system "\<lambda>s. s = flow_new cfg lua0" "flow_step at cfg call rt lua0" "flow_ok at cfg call rt"
  for at cfg call rt lua0
proof
  show "flow_ok at cfg call rt s" if "s = flow_new cfg lua0" for s
    using that dispatcher_new_workers [of cfg lua0]
    by (auto simp: flow_ok_def flow_order_def flow_place_def flow_answers_def workers_ok_def flow_new_def
        current_ids_def settled_below_def dispatcher_new_def)
  show "flow_ok at cfg call rt s'" if "flow_ok at cfg call rt s" "flow_step at cfg call rt lua0 a s s'" for s s' a
    using that flow_order_step flow_place_step flow_answers_step unfolding flow_ok_def by metis
qed

subsection \<open>Progress\<close>

text \<open>
  The stations of a request, each with the number of replies sent before: it waits for the router,
  for the dispatcher, in the channel of a worker, or its answer waits for the router.
\<close>

definition at_router :: "nat \<Rightarrow> 'l flow \<Rightarrow> bool" where
  "at_router k s \<longleftrightarrow> length (fl_replies s) = k \<and> fl_current s = None \<and> fl_inbox s \<noteq> []"

definition at_dispatcher :: "nat \<Rightarrow> 'l flow \<Rightarrow> bool" where
  "at_dispatcher k s \<longleftrightarrow> length (fl_replies s) = k \<and> fl_current s \<noteq> None \<and> fl_handler s \<noteq> []"

definition at_worker :: "nat \<Rightarrow> nat \<Rightarrow> 'l flow \<Rightarrow> bool" where
  "at_worker k i s \<longleftrightarrow>
     length (fl_replies s) = k \<and> fl_current s \<noteq> None \<and> fl_handler s = [] \<and>
     i < length (ds_workers (fl_pool s)) \<and> wk_queue (ds_workers (fl_pool s) ! i) \<noteq> []"

definition at_reply :: "nat \<Rightarrow> 'l flow \<Rightarrow> bool" where
  "at_reply k s \<longleftrightarrow>
     length (fl_replies s) = k \<and>
     (\<exists>n req h. fl_current s = Some (n, req, h) \<and> (n, h) \<in> fst ` set (ds_done (fl_pool s)))"

lemma dispatched_place:
  assumes "flow_ok at cfg call rt s" and "length (fl_replies s) = k" and "fl_current s \<noteq> None" and "fl_handler s = []"
  shows "(\<exists>i. at_worker k i s) \<or> at_reply k s"
proof -
  obtain n req h where c: "fl_current s = Some (n, req, h)"
    using assms(3) by (metis option.exhaust prod_cases3)
  then have "queued (ds_workers (fl_pool s)) = {#(n, h)#} \<or> (n, h) \<in> fst ` set (ds_done (fl_pool s))"
    using assms(1,4) by (auto simp: flow_ok_def flow_place_def)
  then show ?thesis
  proof
    assume "queued (ds_workers (fl_pool s)) = {#(n, h)#}"
    from queued_place [OF this] obtain i where "i < length (ds_workers (fl_pool s))" "wk_queue (ds_workers (fl_pool s) ! i) = [(n, h)]"
      by blast
    then have "at_worker k i s"
      using assms by (simp add: at_worker_def)
    then show ?thesis by blast
  next
    assume "(n, h) \<in> fst ` set (ds_done (fl_pool s))"
    then show ?thesis
      using assms(2) c by (simp add: at_reply_def)
  qed
qed

lemma router_ready:
  assumes "flow_ok at cfg call rt s" and "at_router k s"
  shows "enabled (flow_step at cfg call rt lua0) RouterTask s"
proof -
  obtain n req rest where inbox: "fl_current s = None" "fl_inbox s = (n, req) # rest"
    using assms(2) by (auto simp: at_router_def neq_Nil_conv)
  have "fl_handler s = []"
    using assms(1) inbox(1) by (simp add: flow_ok_def flow_place_def)
  then have handler: "length (fl_handler s) < 64"
    by simp
  show ?thesis
  proof (cases "forwarded at req")
    case None
    from flow_step.reject [OF inbox this] show ?thesis
      unfolding enabled_def by blast
  next
    case (Some mh)
    obtain meta h where "mh = (meta, h)"
      by (cases mh)
    from flow_step.forward [OF inbox Some [unfolded this] handler] show ?thesis
      unfolding enabled_def by blast
  qed
qed

lemma filter_keeps_nth:
  "i < length xs \<Longrightarrow> P (xs ! i) \<Longrightarrow> \<exists>j \<le> i. j < length (filter P xs) \<and> filter P xs ! j = xs ! i"
proof (induction xs arbitrary: i)
  case (Cons x xs)
  show ?case
  proof (cases i)
    case 0
    then show ?thesis using Cons.prems by auto
  next
    case (Suc m)
    then obtain j where "j \<le> m" "j < length (filter P xs)" "filter P xs ! j = xs ! m"
      using Cons by auto
    then show ?thesis
      using Suc by (cases "P x") (auto intro: exI [of _ "Suc j"] exI [of _ j])
  qed
qed simp

lemma replenish_nth: "i < length ws \<Longrightarrow> i < length (replenish cfg lua0 ws) \<and> replenish cfg lua0 ws ! i = ws ! i"
  by (rule replenish_induct [where P = "\<lambda>vs. i < length vs \<and> vs ! i = ws ! i"]) (auto simp: spawn_worker_def nth_append)

text \<open>The cleanup may move a busy worker to a smaller position, never take it away.\<close>

lemma cleanup_keeps_busy:
  assumes "workers_ok cfg (ds_workers d)" and "i < length (ds_workers d)" and "wk_queue (ds_workers d ! i) \<noteq> []"
  shows "\<exists>j \<le> i. j < length (ds_workers (cleanup_tick cfg lua0 d)) \<and> wk_queue (ds_workers (cleanup_tick cfg lua0 d) ! j) \<noteq> []"
proof -
  have "\<not> wk_finished (ds_workers d ! i)"
    using workers_ok_busy [OF assms] assms(1) nth_mem [OF assms(2)] by (auto simp: workers_ok_def)
  then obtain j where "j \<le> i" "j < length (filter (\<lambda>w. \<not> wk_finished w) (ds_workers d))"
    "filter (\<lambda>w. \<not> wk_finished w) (ds_workers d) ! j = ds_workers d ! i"
    using filter_keeps_nth [OF assms(2), of "\<lambda>w. \<not> wk_finished w"] by auto
  then show ?thesis
    using replenish_nth [of j "filter (\<lambda>w. \<not> wk_finished w) (ds_workers d)" cfg lua0] assms(3)
    by (auto simp: cleanup_tick_def intro: exI [of _ j])
qed

definition answered :: "nat \<Rightarrow> 'l flow \<Rightarrow> bool" where
  "answered k s \<longleftrightarrow> k < length (fl_replies s)"

lemma router_progress:
  assumes "fair_run server_tasks (\<lambda>s. s = flow_new cfg lua0) (flow_step at cfg call rt lua0) \<sigma> \<tau>"
    and "at_router k (\<sigma> m)"
  shows "\<exists>m' \<ge> m. at_dispatcher k (\<sigma> m') \<or> answered k (\<sigma> m')"
proof (rule flow.ensures [OF assms(1), where a = RouterTask and P = "at_router k"])
  show "at_router k s' \<or> at_dispatcher k s' \<or> answered k s'"
    if "flow_ok at cfg call rt s" "at_router k s" "flow_step at cfg call rt lua0 b s s'" for b s s'
    using that(3,2) by (cases rule: flow_step.cases) (auto simp: at_router_def at_dispatcher_def answered_def)
  show "at_dispatcher k s' \<or> answered k s'"
    if "flow_ok at cfg call rt s" "at_router k s" "flow_step at cfg call rt lua0 RouterTask s s'" for s s'
    using that(3,2) by (cases rule: flow_step.cases) (auto simp: at_router_def at_dispatcher_def answered_def)
qed (use assms(2) router_ready in \<open>auto simp: server_tasks_def\<close>)

lemma dispatcher_progress:
  assumes "fair_run server_tasks (\<lambda>s. s = flow_new cfg lua0) (flow_step at cfg call rt lua0) \<sigma> \<tau>"
    and "at_dispatcher k (\<sigma> m)"
  shows "\<exists>m' \<ge> m. (\<exists>i. at_worker k i (\<sigma> m')) \<or> at_reply k (\<sigma> m') \<or> answered k (\<sigma> m')"
proof (rule flow.ensures [OF assms(1), where a = DispatcherTask and P = "at_dispatcher k"])
  note ok = flow.inv_step
  show "at_dispatcher k s' \<or> (\<exists>i. at_worker k i s') \<or> at_reply k s' \<or> answered k s'"
    if "flow_ok at cfg call rt s" "at_dispatcher k s" "flow_step at cfg call rt lua0 b s s'" for b s s'
  proof -
    have "answered k s' \<or> length (fl_replies s') = k \<and> fl_current s' \<noteq> None"
      using that(3,2) by (cases rule: flow_step.cases) (auto simp: at_dispatcher_def answered_def)
    then show ?thesis
      using dispatched_place [OF ok [OF that(1,3)]] by (auto simp: at_dispatcher_def)
  qed
  show "(\<exists>i. at_worker k i s') \<or> at_reply k s' \<or> answered k s'"
    if "flow_ok at cfg call rt s" "at_dispatcher k s" "flow_step at cfg call rt lua0 DispatcherTask s s'" for s s'
  proof -
    have "length (fl_handler s) \<le> 1"
      using that(1) by (auto simp: flow_ok_def flow_place_def split: option.splits prod.splits)
    with that(3,2) have "fl_handler s' = [] \<and> length (fl_replies s') = k \<and> fl_current s' \<noteq> None"
      by (auto elim!: dispatcher_step_E simp: at_dispatcher_def)
    then show ?thesis
      using dispatched_place [OF ok [OF that(1,3)]] by auto
  qed
  show "enabled (flow_step at cfg call rt lua0) DispatcherTask s"
    if "flow_ok at cfg call rt s" "at_dispatcher k s" for s
    using that(2) flow_step.receive by (fastforce simp: at_dispatcher_def enabled_def neq_Nil_conv)
qed (use assms(2) in \<open>auto simp: server_tasks_def\<close>)

lemma worker_ops_nth:
  assumes "j \<noteq> i"
  shows "ds_workers (worker_serve call r j d) ! i = ds_workers d ! i"
    and "ds_workers (worker_stop j d) ! i = ds_workers d ! i"
    and "ds_workers (worker_finish j d) ! i = ds_workers d ! i"
    and "length (ds_workers (worker_serve call r j d)) = length (ds_workers d)"
    and "length (ds_workers (worker_stop j d)) = length (ds_workers d)"
    and "length (ds_workers (worker_finish j d)) = length (ds_workers d)"
  using assms by (auto simp: worker_serve_def worker_stop_def worker_finish_def Let_def finish_def
      split: list.splits prod.splits)

text \<open>When the busy worker acts, its request is settled.\<close>

lemma busy_worker_acts:
  assumes ok: "flow_ok at cfg call rt s" and at: "at_worker k i s"
    and step: "flow_step at cfg call rt lua0 a s s'" and a: "a = WorkerTask i \<or> a = WorkerStop i"
  shows "at_reply k s'"
proof -
  let ?d = "fl_pool s"
  have place: "flow_place s" and ws: "workers_ok cfg (ds_workers ?d)"
    using ok by (simp_all add: flow_ok_def)
  have busy: "i < length (ds_workers ?d)" "wk_queue (ds_workers ?d ! i) \<noteq> []"
    using at by (simp_all add: at_worker_def)
  obtain j where j: "queued (ds_workers ?d) = {#j#}"
    using queued_busy [OF place busy] .
  obtain n req h where c: "fl_current s = Some (n, req, h)" "j = (n, h)"
    using place j by (auto simp: flow_place_def split: option.splits prod.splits)
  have "\<exists>r. ds_done (worker_stop i ?d) = ds_done ?d @ [(j, r)]"
    using stop_single [OF ws busy(1)] j busy(2) by blast
  moreover have "\<exists>r. ds_done (worker_serve call R i ?d) = ds_done ?d @ [(j, r)]" for R
    using serve_single [OF ws j busy, of call R] by blast
  ultimately have "\<exists>d r. s' = s\<lparr>fl_pool := d\<rparr> \<and> ds_done d = ds_done ?d @ [(j, r)]"
    using step a by (auto elim!: flow_step_E)
  then show ?thesis
    using at c by (auto simp: at_worker_def at_reply_def)
qed

lemma other_worker_acts:
  assumes "flow_ok at cfg call rt s" and "at_worker k i s" and "flow_step at cfg call rt lua0 a s s'"
    and "a \<noteq> WorkerTask i" and "a \<noteq> WorkerStop i"
  shows "(\<exists>j \<le> i. at_worker k j s') \<or> answered k s'"
  using assms(3)
proof (cases rule: flow_step.cases)
  case tick
  then show ?thesis
    using assms(1,2) cleanup_keeps_busy [of cfg "fl_pool s" i lua0] by (simp add: flow_ok_def at_worker_def)
next
  case (finish j)
  then have "j \<noteq> i"
    using assms(1,2) workers_ok_busy [of cfg "ds_workers (fl_pool s)" i] by (auto simp: flow_ok_def at_worker_def)
  then show ?thesis
    using finish assms(2) by (auto simp: at_worker_def worker_ops_nth)
qed (use assms(2,4,5) in \<open>auto simp: at_worker_def answered_def worker_ops_nth\<close>)

lemma worker_ready:
  assumes "flow_ok at cfg call rt s" and "at_worker k i s"
  shows "enabled (flow_step at cfg call rt lua0) (WorkerTask i) s"
proof -
  have busy: "i < length (ds_workers (fl_pool s))" "wk_open (ds_workers (fl_pool s) ! i)"
      "wk_queue (ds_workers (fl_pool s) ! i) \<noteq> []"
    using assms workers_ok_busy [of cfg "ds_workers (fl_pool s)" i] by (simp_all add: flow_ok_def at_worker_def)
  show ?thesis
    using flow_step.serve [OF _ busy] flow_step.no_runtime [OF _ busy(1,2)]
    unfolding enabled_def by (cases rt) blast+
qed

lemma worker_progress:
  assumes "fair_run server_tasks (\<lambda>s. s = flow_new cfg lua0) (flow_step at cfg call rt lua0) \<sigma> \<tau>"
    and "at_worker k i (\<sigma> m)"
  shows "\<exists>m' \<ge> m. at_reply k (\<sigma> m') \<or> answered k (\<sigma> m')"
proof (rule flow.ensures_ranked [OF assms(1), where act = WorkerTask and P = "at_worker k"])
  show "(\<exists>j \<le> i. at_worker k j s') \<or> at_reply k s' \<or> answered k s'"
    if "flow_ok at cfg call rt s" "at_worker k i s" "flow_step at cfg call rt lua0 b s s'" for b i s s'
    using busy_worker_acts [OF that] other_worker_acts [OF that] by blast
  show "(\<exists>j < i. at_worker k j s') \<or> at_reply k s' \<or> answered k s'"
    if "flow_ok at cfg call rt s" "at_worker k i s" "flow_step at cfg call rt lua0 (WorkerTask i) s s'" for i s s'
    using busy_worker_acts [OF that] by blast
qed (use assms(2) worker_ready in \<open>auto simp: server_tasks_def\<close>)

lemma reply_handler_empty:
  assumes "flow_ok at cfg call rt s" and "at_reply k s"
  shows "fl_handler s = []"
proof -
  obtain n req h x where c: "fl_current s = Some (n, req, h)" "x \<in> set (ds_done (fl_pool s))" "fst x = (n, h)"
    using assms(2) unfolding at_reply_def by (metis imageE)
  then have "\<not> settled_below n (fl_pool s)"
    unfolding settled_below_def by (metis fst_conv less_irrefl)
  then show ?thesis
    using assms(1) c(1) by (simp add: flow_ok_def flow_place_def)
qed

lemma reply_kept:
  assumes "at_reply k s" and "moves_one call rt (fl_pool s) d"
  shows "at_reply k (s\<lparr>fl_pool := d\<rparr>)"
proof -
  have "fst ` set (ds_done (fl_pool s)) \<subseteq> fst ` set (ds_done d)"
    using assms(2) unfolding moves_one_def by (elim disjE exE conjE) (simp_all add: subset_insertI)
  moreover obtain n req h where "length (fl_replies s) = k" "fl_current s = Some (n, req, h)" "(n, h) \<in> fst ` set (ds_done (fl_pool s))"
    using assms(1) unfolding at_reply_def by blast
  ultimately have "(n, h) \<in> fst ` set (ds_done d)"
    by blast
  then show ?thesis
    using \<open>length (fl_replies s) = k\<close> \<open>fl_current s = Some (n, req, h)\<close> by (simp add: at_reply_def)
qed

lemma reply_stays:
  assumes "flow_ok at cfg call rt s" and "at_reply k s" and "flow_step at cfg call rt lua0 b s s'"
  shows "at_reply k s' \<or> answered k s'"
proof (cases "b \<in> {CleanupTick} \<union> range WorkerTask \<union> range WorkerStop \<union> range WorkerExit")
  case True
  have "flow_place s" "workers_ok cfg (ds_workers (fl_pool s))"
    using assms(1) by (simp_all add: flow_ok_def)
  from flow_pool_step [OF this assms(3) True] show ?thesis
    using reply_kept [OF assms(2)] by blast
next
  case False
  from assms(3,2) reply_handler_empty [OF assms(1,2)] False show ?thesis
    by (cases rule: flow_step.cases) (auto simp: at_reply_def answered_def)
qed

lemma reply_progress:
  assumes "fair_run server_tasks (\<lambda>s. s = flow_new cfg lua0) (flow_step at cfg call rt lua0) \<sigma> \<tau>"
    and "at_reply k (\<sigma> m)"
  shows "\<exists>m' \<ge> m. answered k (\<sigma> m')"
proof (rule flow.ensures [OF assms(1), where a = RouterTask and P = "at_reply k"])
  show "at_reply k s' \<or> answered k s'"
    if "flow_ok at cfg call rt s" "at_reply k s" "flow_step at cfg call rt lua0 b s s'" for b s s'
    using reply_stays [OF that] .
  show "answered k s'"
    if "flow_ok at cfg call rt s" "at_reply k s" "flow_step at cfg call rt lua0 RouterTask s s'" for s s'
    using that(3,2) by (cases rule: flow_step.cases) (auto simp: at_reply_def answered_def)
  show "enabled (flow_step at cfg call rt lua0) RouterTask s"
    if ok: "flow_ok at cfg call rt s" and reply: "at_reply k s" for s
  proof -
    obtain n req h r where "fl_current s = Some (n, req, h)" "((n, h), r) \<in> set (ds_done (fl_pool s))"
      using reply by (auto simp: at_reply_def)
    from flow_step.answer [OF this] show ?thesis
      unfolding enabled_def by blast
  qed
qed (use assms(2) in \<open>auto simp: server_tasks_def\<close>)

lemma next_reply:
  assumes run: "fair_run server_tasks (\<lambda>s. s = flow_new cfg lua0) (flow_step at cfg call rt lua0) \<sigma> \<tau>"
    and "length (fl_replies (\<sigma> m)) < length (fl_sent (\<sigma> m))"
  shows "\<exists>m' \<ge> m. length (fl_replies (\<sigma> m)) < length (fl_replies (\<sigma> m'))"
proof -
  let ?k = "length (fl_replies (\<sigma> m))"
  have replied: "\<exists>m' \<ge> l. answered ?k (\<sigma> m')" if "at_reply ?k (\<sigma> l)" for l
    using reply_progress [OF run that] .
  have worked: "\<exists>m' \<ge> l. answered ?k (\<sigma> m')" if "at_worker ?k i (\<sigma> l)" for l i
    using worker_progress [OF run that] replied by (meson le_trans)
  have dispatched: "\<exists>m' \<ge> l. answered ?k (\<sigma> m')" if "at_dispatcher ?k (\<sigma> l)" for l
    using dispatcher_progress [OF run that] worked replied by (meson le_trans)
  have routed: "\<exists>m' \<ge> l. answered ?k (\<sigma> m')" if "at_router ?k (\<sigma> l)" for l
    using router_progress [OF run that] dispatched by (meson le_trans)
  have ok: "flow_ok at cfg call rt (\<sigma> m)"
    using flow.run_inv [OF run] .
  have "at_router ?k (\<sigma> m) \<or> at_dispatcher ?k (\<sigma> m) \<or> (\<exists>i. at_worker ?k i (\<sigma> m)) \<or> at_reply ?k (\<sigma> m)"
  proof (cases "fl_current (\<sigma> m) = None")
    case True
    then have "fl_inbox (\<sigma> m) \<noteq> []"
      using order_ids(4) [of at "\<sigma> m"] ok assms(2) by (auto simp: flow_ok_def current_ids_def)
    then show ?thesis
      using True by (simp add: at_router_def)
  next
    case False
    then show ?thesis
      using dispatched_place [OF ok refl] by (auto simp: at_dispatcher_def)
  qed
  then show ?thesis
    using replied worked dispatched routed by (auto simp: answered_def)
qed

lemma run_grows:
  assumes run: "fair_run F (\<lambda>s. s = flow_new cfg lua0) (flow_step at cfg call rt lua0) \<sigma> \<tau>" and "m \<le> m'"
  shows "\<exists>rs xs. fl_replies (\<sigma> m') = fl_replies (\<sigma> m) @ rs \<and> fl_sent (\<sigma> m') = fl_sent (\<sigma> m) @ xs"
  using assms(2)
proof (induction m' rule: dec_induct)
  case (step n)
  have "is_run (\<lambda>s. s = flow_new cfg lua0) (flow_step at cfg call rt lua0) \<sigma> \<tau>"
    using run by (simp add: fair_run_def)
  from is_run_cases [OF this, of n] step.IH show ?case
    by (auto elim!: flow_step_E)
qed simp

lemma all_replies:
  assumes run: "fair_run server_tasks (\<lambda>s. s = flow_new cfg lua0) (flow_step at cfg call rt lua0) \<sigma> \<tau>"
    and "n < length (fl_sent (\<sigma> m))"
  shows "\<exists>m' \<ge> m. n < length (fl_replies (\<sigma> m'))"
  using assms(2)
proof (induction "Suc n - length (fl_replies (\<sigma> m))" arbitrary: m rule: less_induct)
  case less
  show ?case
  proof (cases "n < length (fl_replies (\<sigma> m))")
    case False
    then obtain m1 where m1: "m \<le> m1" "length (fl_replies (\<sigma> m)) < length (fl_replies (\<sigma> m1))"
      using next_reply [OF run, of m] less.prems by fastforce
    moreover have "n < length (fl_sent (\<sigma> m1))"
      using run_grows [OF run m1(1)] less.prems by auto
    ultimately show ?thesis
      using less.hyps [of m1] False by (meson diff_less_mono2 le_trans less_Suc_eq_le not_less order_le_less_trans)
  qed blast
qed

subsection \<open>Agreement with the sequential router\<close>

text \<open>A handler side that gives the outcomes of a list in turn.\<close>

definition scripted :: "handler_outcome list handler_side" where
  "scripted outs h = (case outs of [] \<Rightarrow> (ReplyDropped, []) | r # rs \<Rightarrow> (r, rs))"

lemma router_reply_forwarded:
  "forwarded at req = Some (meta, h) \<Longrightarrow> dispatch at scripted (r # rs) req = (router_reply at req r, snd (dispatch at scripted (r # rs) req)) \<and>
    snd (snd (dispatch at scripted (r # rs) req)) = rs"
  by (simp add: dispatch_forwarded router_reply_def scripted_def split: handler_outcome.split sum.split)

lemma router_reply_rejected:
  assumes "forwarded at req = None"
  shows "dispatch at scripted rs req = (router_reply at req r, Inr (), rs)"
  using assms by (auto simp: dispatch_def router_reply_def forwarded_def Let_def split: sum.splits option.splits if_splits)

lemma run_router_scripted:
  assumes "list_all2 (may_reply at call rt) reqs xs"
  shows "\<exists>outs. (\<forall>rest. run_router at scripted (outs @ rest) reqs = (xs, rest)) \<and>
    list_all2 (\<lambda>mh r. \<exists>a. r = outcome_of a \<and> may_settle call rt (snd mh) a) (List.map_filter (forwarded at) reqs) outs"
  using assms
proof (induction rule: list_all2_induct)
  case Nil
  then show ?case by (simp add: map_filter_def)
next
  case (Cons req reqs x xs)
  obtain outs where outs: "\<And>rest. run_router at scripted (outs @ rest) reqs = (xs, rest)"
    "list_all2 (\<lambda>mh r. \<exists>a. r = outcome_of a \<and> may_settle call rt (snd mh) a) (List.map_filter (forwarded at) reqs) outs"
    using Cons.IH by blast
  obtain a where a: "x = router_reply at req (outcome_of a)"
    "\<And>meta h. forwarded at req = Some (meta, h) \<Longrightarrow> may_settle call rt h a"
    using Cons.hyps(1) by (auto simp: may_reply_def)
  show ?case
  proof (cases "forwarded at req")
    case None
    then show ?thesis
      using outs a router_reply_rejected [OF None, of _ "outcome_of a"]
      by (intro exI [of _ outs]) (simp add: map_filter_def)
  next
    case (Some mh)
    obtain meta h where mh: "mh = (meta, h)"
      by (cases mh)
    have "run_router at scripted ((outcome_of a # outs) @ rest) (req # reqs) = (x # xs, rest)" for rest
      using router_reply_forwarded [OF Some [unfolded mh], of "outcome_of a" "outs @ rest"] outs(1) [of rest] a(1)
      by (auto simp: Let_def split: prod.splits)
    then show ?thesis
      using Some mh outs(2) a(2) by (intro exI [of _ "outcome_of a # outs"]) (auto simp: map_filter_def)
  qed
qed

lemma flow_replies_all2:
  assumes "flow_ok at cfg call rt s"
  shows "list_all2 (may_reply at call rt) (take (length (fl_replies s)) (fl_sent s)) (map snd (fl_replies s))"
proof -
  have order: "flow_order at s"
    using assms by (simp add: flow_ok_def)
  show ?thesis
  proof (rule list_all2_all_nthI)
    fix n assume "n < length (take (length (fl_replies s)) (fl_sent s))"
    then have n: "n < length (fl_replies s)" "n < length (fl_sent s)"
      by simp_all
    have "fst (fl_replies s ! n) = n"
      using arg_cong [OF order_ids(1) [OF order], of "\<lambda>xs. xs ! n"] n by simp
    moreover have "may_reply at call rt (fl_sent s ! fst (fl_replies s ! n)) (snd (fl_replies s ! n))"
      using assms nth_mem [OF n(1)] by (simp add: flow_ok_def flow_answers_def)
    ultimately show "may_reply at call rt (take (length (fl_replies s)) (fl_sent s) ! n) (map snd (fl_replies s) ! n)"
      using n by simp
  qed (use order_ids(4) [OF order] in simp)
qed

lemma may_reply_Some: "may_reply at call rt req x \<Longrightarrow> \<exists>y. x = Some y"
proof -
  have "\<exists>y. router_reply at req (outcome_of r) = Some y" for r
  proof (cases "forwarded at req")
    case None
    then show ?thesis
      using dispatch_rejected [OF None, of "\<lambda>w h. (outcome_of r, w)" "()"] by (auto simp: router_reply_def)
  next
    case (Some mh)
    obtain meta h where "mh = (meta, h)"
      by (cases mh)
    then show ?thesis
      using dispatch_forwarded [of at req meta h "\<lambda>w h. (outcome_of r, w)" "()"] Some
      by (auto simp: router_reply_def outcome_of_def split: job_outcome.splits sum.splits)
  qed
  then show "may_reply at call rt req x \<Longrightarrow> \<exists>y. x = Some y"
    by (auto simp: may_reply_def)
qed

subsection \<open>Properties\<close>


text \<open>
  C8: The concurrent program gives the replies of the sequential router. In every reachable state the
  replies sent so far are, in the order of the requests, exactly those of \<open>run_router\<close> for a handler
  side that gave, to the requests handed over to it, outcomes that the script or a stopping worker
  can give to them.
\<close>

theorem replies_are_sequential:
  assumes "reach (\<lambda>s. s = flow_new cfg lua0) (flow_step at cfg call rt lua0) s"
  shows "map fst (fl_replies s) = [0..<length (fl_replies s)] \<and>
    (\<exists>outs. run_router at scripted outs (take (length (fl_replies s)) (fl_sent s)) = (map snd (fl_replies s), []) \<and>
      list_all2 (\<lambda>mh r. \<exists>a. r = outcome_of a \<and> may_settle call rt (snd mh) a)
        (List.map_filter (forwarded at) (take (length (fl_replies s)) (fl_sent s))) outs)"
proof -
  have ok: "flow_ok at cfg call rt s"
    using flow.reach_inv [OF assms] .
  then have "map fst (fl_replies s) = [0..<length (fl_replies s)]"
    by (intro order_ids(1) [of at]) (simp add: flow_ok_def)
  moreover obtain outs where "\<forall>rest. run_router at scripted (outs @ rest) (take (length (fl_replies s)) (fl_sent s)) =
      (map snd (fl_replies s), rest)" and
    "list_all2 (\<lambda>mh r. \<exists>a. r = outcome_of a \<and> may_settle call rt (snd mh) a)
      (List.map_filter (forwarded at) (take (length (fl_replies s)) (fl_sent s))) outs"
    using run_router_scripted [OF flow_replies_all2 [OF ok]] by blast
  moreover from spec [OF this(1), of "[]"]
  have "run_router at scripted outs (take (length (fl_replies s)) (fl_sent s)) = (map snd (fl_replies s), [])"
    by simp
  ultimately show ?thesis
    by blast
qed

text \<open>
  C15: The pool never grows. The router waits for each answer, so at most one request is behind it at
  any time: the queue that the dispatcher looks at is empty whenever it receives a request, it
  never starts an additional worker, and there are never more than \<open>min_workers\<close> workers, whatever
  \<open>max_workers\<close> is.
\<close>

theorem pool_never_grows:
  assumes "reach (\<lambda>s. s = flow_new cfg lua0) (flow_step at cfg call rt lua0) s"
  shows "length (fl_handler s) + size (queued (ds_workers (fl_pool s))) \<le> 1 \<and>
    length (ds_workers (fl_pool s)) \<le> min_workers cfg"
  using flow.reach_inv [OF assms]
  by (auto simp: flow_ok_def flow_place_def workers_ok_def split: option.splits prod.splits)

text \<open>A run with one request that goes all the way to a worker and back.\<close>

definition demo_at :: trie_at where
  "demo_at p = (if p = ''/f'' then Inr (\<lparr>rm_handlers = [''read'' \<mapsto> ''h''], rm_pattern = ''/f''\<rparr>, []) else Inl ''not found'')"

definition demo_req :: request where
  "demo_req = \<lparr>rq_op = Read, rq_path = ''/f'', rq_data = []\<rparr>"

definition demo_hreq :: handler_request where
  "demo_hreq = \<lparr>hr_params = Map.empty, hr_data = [], hr_handler_name = ''h''\<rparr>"

definition echo_call :: "(nat, nat) lua_call" where
  "echo_call l f params data = (Inr [1], Suc l)"

definition demo_runtime :: "nat handler_runtime" where
  "demo_runtime = \<lparr>rt_funcs = [''h'' \<mapsto> 0], rt_default = None\<rparr>"

definition demo_flow :: "(task \<times> nat flow) list" where
  "demo_flow =
     (let s0 = flow_new worker_config_default 0;
          s1 = s0\<lparr>fl_sent := [demo_req], fl_inbox := [(0, demo_req)]\<rparr>;
          s2 = s1\<lparr>fl_inbox := [], fl_current := Some (0, demo_req, demo_hreq), fl_handler := [(0, demo_hreq)]\<rparr>;
          s3 = s2\<lparr>fl_handler := [], fl_pool := dispatch_job worker_config_default 0 0 (0, demo_hreq) (fl_pool s0)\<rparr>;
          s4 = s3\<lparr>fl_pool := worker_serve echo_call demo_runtime 0 (fl_pool s3)\<rparr>;
          s5 = s4\<lparr>fl_current := None, fl_replies := [(0, router_reply demo_at demo_req
                 (HandlerReply (Inr \<lparr>resp_data = [1], resp_matched_pattern = None, resp_has_children = False\<rparr>)))]\<rparr> in
      [(Frontends, s1), (RouterTask, s2), (DispatcherTask, s3), (WorkerTask 0, s4), (RouterTask, s5)])"

lemma demo_flow_start: "forwarded demo_at demo_req = Some (\<lparr>rm_handlers = [''read'' \<mapsto> ''h''], rm_pattern = ''/f''\<rparr>, demo_hreq)"
  by (simp add: forwarded_def demo_at_def demo_req_def demo_hreq_def select_handler_def has_children_def)

lemma demo_pool:
  "dispatch_job worker_config_default 0 0 (0, demo_hreq) (dispatcher_new worker_config_default 0) =
     \<lparr>ds_workers = [\<lparr>wk_queue = [(0, demo_hreq)], wk_open = True, wk_finished = False, wk_lua = 0\<rparr>], ds_next = Suc 0, ds_done = []\<rparr>"
  by (simp add: dispatch_job_def dispatcher_new_def worker_config_default_def spawn_worker_def enqueue_def Let_def)

lemma demo_serve:
  "worker_serve echo_call demo_runtime 0
     \<lparr>ds_workers = [\<lparr>wk_queue = [(0, demo_hreq)], wk_open = True, wk_finished = False, wk_lua = 0\<rparr>], ds_next = Suc 0, ds_done = []\<rparr> =
     \<lparr>ds_workers = [\<lparr>wk_queue = [], wk_open = True, wk_finished = False, wk_lua = Suc 0\<rparr>], ds_next = Suc 0,
      ds_done = [((0, demo_hreq), Answered (Inr \<lparr>resp_data = [1], resp_matched_pattern = None, resp_has_children = False\<rparr>))]\<rparr>"
  by (simp add: worker_serve_def Let_def call_lua_def demo_hreq_def demo_runtime_def echo_call_def lua_response_def finish_def)

lemma demo_flow_follows:
  "follows (flow_step demo_at worker_config_default echo_call (Inr demo_runtime) 0) (flow_new worker_config_default 0) demo_flow"
proof -
  let ?step = "flow_step demo_at worker_config_default echo_call (Inr demo_runtime) 0"
  obtain s0 s1 s2 s3 s4 s5 where s0: "s0 = flow_new worker_config_default (0 :: nat)"
    and s1: "s1 = s0\<lparr>fl_sent := [demo_req], fl_inbox := [(0, demo_req)]\<rparr>"
    and s2: "s2 = s1\<lparr>fl_inbox := [], fl_current := Some (0, demo_req, demo_hreq), fl_handler := [(0, demo_hreq)]\<rparr>"
    and s3: "s3 = s2\<lparr>fl_handler := [], fl_pool := dispatch_job worker_config_default 0 0 (0, demo_hreq) (fl_pool s0)\<rparr>"
    and s4: "s4 = s3\<lparr>fl_pool := worker_serve echo_call demo_runtime 0 (fl_pool s3)\<rparr>"
    and s5: "s5 = s4\<lparr>fl_current := None, fl_replies := [(0, router_reply demo_at demo_req
        (HandlerReply (Inr \<lparr>resp_data = [1], resp_matched_pattern = None, resp_has_children = False\<rparr>)))]\<rparr>"
    by blast
  have "?step Frontends s0 s1"
    using flow_step.submit [of s0 demo_at worker_config_default echo_call "Inr demo_runtime" 0 demo_req]
    by (simp add: s0 s1 flow_new_def)
  moreover have "?step RouterTask s1 s2"
    using flow_step.forward [of s1 0 demo_req "[]", OF _ _ demo_flow_start] by (simp add: s0 s1 s2 flow_new_def)
  moreover have "?step DispatcherTask s2 s3"
    using flow_step.receive [of s2 "(0, demo_hreq)" "[]"] by (simp add: s0 s1 s2 s3)
  moreover have "?step (WorkerTask 0) s3 s4"
    using flow_step.serve [of "Inr demo_runtime" demo_runtime 0 s3] by (simp add: s0 s3 s4 flow_new_def demo_pool)
  moreover have "?step RouterTask s4 s5"
    using flow_step.answer [of s4 0 demo_req demo_hreq
        "Answered (Inr \<lparr>resp_data = [1], resp_matched_pattern = None, resp_has_children = False\<rparr>)"]
    by (simp add: s0 s1 s2 s3 s4 s5 flow_new_def demo_pool demo_serve outcome_of_def)
  ultimately show ?thesis
    by (simp add: demo_flow_def Let_def s0 s1 s2 s3 s4 s5)
qed

lemma demo_flow_fair:
  "fair_run server_tasks (\<lambda>s. s = flow_new worker_config_default 0)
     (flow_step demo_at worker_config_default echo_call (Inr demo_runtime) 0)
     (fst (finite_run demo_flow (flow_new worker_config_default 0)))
     (snd (finite_run demo_flow (flow_new worker_config_default 0)))"
proof (rule finite_run_fair [OF refl demo_flow_follows])
  let ?s = "last (flow_new worker_config_default 0 # map snd demo_flow)"
  have s: "fl_inbox ?s = []" "fl_current ?s = None" "fl_handler ?s = []"
    "ds_workers (fl_pool ?s) = [\<lparr>wk_queue = [], wk_open = True, wk_finished = False, wk_lua = Suc 0\<rparr>]"
    by (simp_all add: demo_flow_def Let_def flow_new_def demo_pool demo_serve)
  show "\<not> enabled (flow_step demo_at worker_config_default echo_call (Inr demo_runtime) 0) a ?s"
    if "a \<in> server_tasks" for a
    using that s unfolding enabled_def server_tasks_def by (auto elim!: flow_step_E)
qed


lemma demo_flow_reach:
  "reach (\<lambda>s. s = flow_new worker_config_default 0)
     (flow_step demo_at worker_config_default echo_call (Inr demo_runtime) 0) (snd (last demo_flow))"
proof -
  have "snd (last demo_flow) = fst (finite_run demo_flow (flow_new worker_config_default 0)) 5"
    by (simp add: finite_run_def demo_flow_def Let_def)
  then show ?thesis
    using demo_flow_fair is_run_reach unfolding fair_run_def by metis
qed

lemma demo_flow_last:
  "fl_sent (snd (last demo_flow)) = [demo_req] \<and>
   fl_replies (snd (last demo_flow)) = [(0, router_reply demo_at demo_req
     (HandlerReply (Inr \<lparr>resp_data = [1], resp_matched_pattern = None, resp_has_children = False\<rparr>)))]"
  by (simp add: demo_flow_def Let_def)

theorem replies_are_sequential_witness:
  "\<exists>outs. run_router demo_at scripted outs [demo_req] =
     ([router_reply demo_at demo_req
        (HandlerReply (Inr \<lparr>resp_data = [1], resp_matched_pattern = None, resp_has_children = False\<rparr>))], [])"
  using replies_are_sequential [OF demo_flow_reach] demo_flow_last by auto

theorem pool_never_grows_witness:
  "length (ds_workers (fl_pool (snd (last demo_flow)))) \<le> 1 \<and> max_workers worker_config_default = 4"
  using pool_never_grows [OF demo_flow_reach] by (simp add: worker_config_default_def)

end
