(* ===== verification/Self_Call.thy ===== *)
theory Self_Call
  imports Request_Flow
begin

text \<open>
  A handler that is itself a client of the program. The 9P client that scripts can use
  (\<open>src/src/frontend/ninep_client.rs\<close>) waits for its replies on a blocking socket without a timeout. When
  a handler uses it on a listener of its own program, the worker sends a request to the router that
  is waiting for this worker.

  \<open>asks\<close> says which requests are handled so: the handler sends one request to its own program and
  answers when it has the reply. To the state of \<open>Request_Flow\<close> comes the number of the request whose
  reply a worker is waiting for. A worker that waits is inside the call of its handler: it neither
  answers nor notices its idle timeout.
\<close>

type_synonym 'l self_flow = "'l flow \<times> nat option"

definition head_asks :: "(handler_request \<Rightarrow> request option) \<Rightarrow> nat \<Rightarrow> 'l flow \<Rightarrow> request option" where
  "head_asks asks i s =
     (if i < length (ds_workers (fl_pool s)) then
        (case wk_queue (ds_workers (fl_pool s) ! i) of [] \<Rightarrow> None | j # _ \<Rightarrow> asks (snd j))
      else None)"

inductive self_step ::
    "(handler_request \<Rightarrow> request option) \<Rightarrow> trie_at \<Rightarrow> worker_config \<Rightarrow> ('f, 'l) lua_call
      \<Rightarrow> setup_error + 'f handler_runtime \<Rightarrow> 'l \<Rightarrow> task \<Rightarrow> 'l self_flow \<Rightarrow> 'l self_flow \<Rightarrow> bool"
  for asks at cfg call rt lua0 where
  ask: "rt = Inr r \<Longrightarrow> i < length (ds_workers (fl_pool s)) \<Longrightarrow> wk_open (ds_workers (fl_pool s) ! i) \<Longrightarrow>
    head_asks asks i s = Some req \<Longrightarrow> length (fl_inbox s) < 128 \<Longrightarrow>
    self_step asks at cfg call rt lua0 (WorkerTask i) (s, None)
      (s\<lparr>fl_sent := fl_sent s @ [req], fl_inbox := fl_inbox s @ [(length (fl_sent s), req)]\<rparr>, Some (length (fl_sent s)))"
| resume: "head_asks asks i s \<noteq> None \<Longrightarrow> (k, x) \<in> set (fl_replies s) \<Longrightarrow>
    flow_step at cfg call rt lua0 (WorkerTask i) s s' \<Longrightarrow>
    self_step asks at cfg call rt lua0 (WorkerTask i) (s, Some k) (s', None)"
| other: "flow_step at cfg call rt lua0 a s s' \<Longrightarrow>
    \<forall>i r. a = WorkerTask i \<and> rt = Inr r \<longrightarrow> head_asks asks i s = None \<Longrightarrow>
    \<forall>i. a = WorkerStop i \<and> w \<noteq> None \<longrightarrow> head_asks asks i s = None \<Longrightarrow>
    self_step asks at cfg call rt lua0 a (s, w) (s', w)"

lemma self_flow_step:
  assumes "self_step asks at cfg call rt lua0 a (s, w) (s', w')"
  shows "\<exists>b. flow_step at cfg call rt lua0 b s s'"
  using assms by (cases rule: self_step.cases) (auto intro: flow_step.submit)

interpretation self: invariant_system "\<lambda>c. c = (flow_new cfg lua0, None)" "self_step asks at cfg call rt lua0"
    "\<lambda>c. flow_ok at cfg call rt (fst c)"
  for asks at cfg call rt lua0
proof
  show "flow_ok at cfg call rt (fst c)" if "c = (flow_new cfg lua0, None)" for c
    using that by (auto intro: flow.inv_init)
  show "flow_ok at cfg call rt (fst c')" if "flow_ok at cfg call rt (fst c)" "self_step asks at cfg call rt lua0 a c c'" for c a c'
    using that flow.inv_step self_flow_step by (metis prod.collapse)
qed

text \<open>A worker waits for the reply to a request that is behind its own in the channel of the router.\<close>

definition stuck ::
    "(handler_request \<Rightarrow> request option) \<Rightarrow> trie_at \<Rightarrow> worker_config \<Rightarrow> ('f, 'l) lua_call
      \<Rightarrow> setup_error + 'f handler_runtime \<Rightarrow> nat \<Rightarrow> 'l self_flow \<Rightarrow> bool" where
  "stuck asks at cfg call rt k c \<longleftrightarrow>
     flow_ok at cfg call rt (fst c) \<and> snd c = Some k \<and> (\<exists>r. rt = Inr r) \<and>
     (\<exists>n req h. fl_current (fst c) = Some (n, req, h) \<and> n < k \<and> asks h \<noteq> None \<and>
        queued (ds_workers (fl_pool (fst c))) = {#(n, h)#})"

lemma stuck_head:
  assumes "stuck asks at cfg call rt k (s, w)" and "i < length (ds_workers (fl_pool s))"
    and "wk_queue (ds_workers (fl_pool s) ! i) \<noteq> []"
  shows "head_asks asks i s \<noteq> None"
  using assms queued_single(1) [OF _ assms(2,3)] by (auto simp: stuck_def head_asks_def)

lemma stuck_unanswered:
  assumes "stuck asks at cfg call rt k (s, w)"
  shows "(k, x) \<notin> set (fl_replies s)"
proof
  assume "(k, x) \<in> set (fl_replies s)"
  then have "k \<in> set (map fst (fl_replies s))"
    by force
  moreover obtain n req h where "fl_current s = Some (n, req, h)" "n < k" "flow_order at s"
    using assms by (auto simp: stuck_def flow_ok_def)
  ultimately show False
    using order_ids(1,2) [of at s] by auto
qed

lemma stuck_unsettled:
  assumes "stuck asks at cfg call rt k (s, w)"
  shows "\<exists>n req h. fl_current s = Some (n, req, h) \<and> fl_handler s = [] \<and> settled_below n (fl_pool s)"
  using assms by (auto simp: stuck_def flow_ok_def flow_place_def)

text \<open>No step of any task gets the program out of it, and no step sends a reply.\<close>

lemma stuck_step:
  assumes st: "stuck asks at cfg call rt k (s, w)" and step: "self_step asks at cfg call rt lua0 a (s, w) (s', w')"
  shows "stuck asks at cfg call rt k (s', w') \<and> fl_replies s' = fl_replies s"
  using step
proof (cases rule: self_step.cases)
  case (resume i k' x)
  then show ?thesis
    using st stuck_unanswered [OF st] by (auto simp: stuck_def)
next
  case other
  let ?d = "fl_pool s"
  have ok: "flow_ok at cfg call rt s'"
    using st other flow.inv_step by (auto simp: stuck_def)
  obtain n req h where c: "fl_current s = Some (n, req, h)" "fl_handler s = []" "settled_below n ?d"
    using stuck_unsettled [OF st] by blast
  have q: "queued (ds_workers ?d) = {#(n, h)#}"
    using st c(1) by (auto simp: stuck_def)
  have wk: "workers_ok cfg (ds_workers ?d)"
    using st by (auto simp: stuck_def flow_ok_def)
  obtain r where r: "rt = Inr r" and w: "w = Some k"
    using st by (auto simp: stuck_def)
  have "fl_current s' = fl_current s \<and> fl_replies s' = fl_replies s \<and> queued (ds_workers (fl_pool s')) = queued (ds_workers ?d)"
    using other(2)
  proof (cases rule: flow_step.cases)
    case (answer n' req' h' x)
    then show ?thesis
      using c by (force simp: settled_below_def)
  next
    case tick
    then show ?thesis
      using cleanup_keeps [OF wk] by simp
  next
    case (serve R i)
    then show ?thesis
      using other(3) stuck_head [OF st] by auto
  next
    case (stop i)
    then have "wk_queue (ds_workers ?d ! i) = []"
      using other(4) stuck_head [OF st, of i] w by auto
    then show ?thesis
      using stop stop_single [OF wk stop(3)] by simp
  next
    case (finish i)
    then show ?thesis
      using finish_keeps [OF wk] by simp
  qed (use c r in auto)
  then show ?thesis
    using st ok other(1) by (auto simp: stuck_def)
qed (use st in \<open>auto simp: stuck_def\<close>)

interpretation stuck: invariant_system
    "\<lambda>c. stuck asks at cfg call rt k c \<and> fl_replies (fst c) = R" "self_step asks at cfg call rt lua0"
    "\<lambda>c. stuck asks at cfg call rt k c \<and> fl_replies (fst c) = R"
  for asks at cfg call rt lua0 k R
proof
  show "stuck asks at cfg call rt k c' \<and> fl_replies (fst c') = R"
    if "stuck asks at cfg call rt k c \<and> fl_replies (fst c) = R" "self_step asks at cfg call rt lua0 a c c'" for c a c'
    using that stuck_step [of asks at cfg call rt k "fst c" "snd c" lua0 a "fst c'" "snd c'"] by simp
qed

lemma asking_gets_stuck:
  assumes ok: "flow_ok at cfg call rt s" and step: "self_step asks at cfg call rt lua0 a (s, None) (s', Some k)"
  shows "stuck asks at cfg call rt k (s', Some k) \<and> fl_replies s' = fl_replies s"
  using step
proof (cases rule: self_step.cases)
  case (ask r i req)
  obtain b where b: "flow_step at cfg call rt lua0 b s s'"
    using self_flow_step [OF step] by blast
  have place: "flow_place s" and order: "flow_order at s"
    using ok by (simp_all add: flow_ok_def)
  have head: "wk_queue (ds_workers (fl_pool s) ! i) \<noteq> []"
    using ask(7) by (auto simp: head_asks_def split: if_splits)
  obtain j where j: "queued (ds_workers (fl_pool s)) = {#j#}"
    using queued_busy [OF place ask(5) head] .
  then obtain n rq h where c: "fl_current s = Some (n, rq, h)" "j = (n, h)"
    using place by (auto simp: flow_place_def split: option.splits prod.splits)
  have "asks h = Some req"
    using ask(5,7) queued_single(1) [OF j ask(5) head] c(2) by (simp add: head_asks_def)
  moreover have "n < length (fl_sent s)"
    using order_ids(2) [OF order c(1)] order_ids(4) [OF order] c(1) by (simp add: current_ids_def)
  ultimately show ?thesis
    using ask c j flow.inv_step [OF ok b] by (auto simp: stuck_def)
qed

text \<open>
  C16: A handler that calls its own program stops it for ever. Once a worker has sent a request to its
  own program and waits for the reply, then, whatever all the tasks do and however the scheduler
  chooses, no frontend ever gets another reply, and the worker waits for ever.
\<close>

theorem self_call_blocks_forever:
  assumes "reach (\<lambda>c. c = (flow_new cfg lua0, None)) (self_step asks at cfg call rt lua0) (s, None)"
    and "self_step asks at cfg call rt lua0 a (s, None) (s', Some k)"
    and "reach (\<lambda>c. c = (s', Some k)) (self_step asks at cfg call rt lua0) c"
  shows "fl_replies (fst c) = fl_replies s \<and> snd c = Some k"
proof -
  have "flow_ok at cfg call rt s"
    using self.reach_inv [OF assms(1)] by simp
  from asking_gets_stuck [OF this assms(2)]
  have start: "stuck asks at cfg call rt k (s', Some k) \<and> fl_replies (fst (s', Some k)) = fl_replies s"
    by simp
  have "stuck asks at cfg call rt k c \<and> fl_replies (fst c) = fl_replies s"
    using assms(3)
  proof (induction rule: reach.induct)
    case (initial c)
    then show ?case using start by simp
  next
    case (moved c b c')
    from stuck.inv_step [OF moved.IH moved.hyps(2)] show ?case .
  qed
  then show ?thesis
    by (simp add: stuck_def)
qed

lemma self_other:
  assumes "reach init (self_step asks at cfg call rt lua0) (s, None)" and "flow_step at cfg call rt lua0 a s s'"
    and "a \<in> {Frontends, RouterTask, DispatcherTask, CleanupTick}"
  shows "reach init (self_step asks at cfg call rt lua0) (s', None)"
  using reach.moved [OF assms(1) self_step.other [OF assms(2)]] assms(3) by auto

theorem self_call_blocks_forever_witness:
  "\<exists>s'. self_step (\<lambda>h. Some demo_req) demo_at worker_config_default echo_call (Inr demo_runtime) 0 (WorkerTask 0)
      (snd (demo_flow ! 2), None) (s', Some 1) \<and>
    \<not> (\<exists>c. reach (\<lambda>c. c = (s', Some 1))
        (self_step (\<lambda>h. Some demo_req) demo_at worker_config_default echo_call (Inr demo_runtime) 0) c \<and>
      fl_replies (fst c) \<noteq> [])"
proof -
  let ?flow = "flow_step demo_at worker_config_default echo_call (Inr demo_runtime) 0"
  let ?self = "self_step (\<lambda>h. Some demo_req) demo_at worker_config_default echo_call (Inr demo_runtime) 0"
  let ?init = "\<lambda>c. c = (flow_new worker_config_default 0, None)"
  let ?s = "\<lambda>n. snd (demo_flow ! n)"
  have steps: "?flow Frontends (flow_new worker_config_default 0) (?s 0)" "?flow RouterTask (?s 0) (?s 1)"
    "?flow DispatcherTask (?s 1) (?s 2)"
    using demo_flow_follows by (simp_all add: demo_flow_def Let_def)
  have "reach ?init ?self (flow_new worker_config_default 0, None)"
    by (simp add: reach.initial)
  from self_other [OF self_other [OF self_other [OF this steps(1)] steps(2)] steps(3)]
  have reached: "reach ?init ?self (?s 2, None)"
    by simp
  let ?s' = "(?s 2)\<lparr>fl_sent := fl_sent (?s 2) @ [demo_req], fl_inbox := fl_inbox (?s 2) @ [(length (fl_sent (?s 2)), demo_req)]\<rparr>"
  have "length (fl_sent (?s 2)) = 1" "fl_replies (?s 2) = []"
    by (simp_all add: demo_flow_def Let_def flow_new_def)
  moreover have "?self (WorkerTask 0) (?s 2, None) (?s', Some (length (fl_sent (?s 2))))"
    by (rule self_step.ask [OF refl]) (simp_all add: demo_flow_def Let_def flow_new_def demo_pool head_asks_def)
  ultimately show ?thesis
    using self_call_blocks_forever [OF reached, of "WorkerTask 0" ?s' 1] by auto
qed

end
