(* ===== verification/Shutdown.thy ===== *)
theory Shutdown
  imports Request_Flow
begin

text \<open>
  The end of the tasks behind the frontends. When the last frontend has dropped its sender, the
  loop of the router ends after the requests that are still in its channel (\<open>run_router\<close>,
  \<open>src/src/router.rs\<close>); this closes the channel of the dispatcher, which leaves its loop, waits and
  drops the channels of the workers (\<open>dispatcher_loop\<close>, \<open>src/src/worker.rs\<close>); a worker whose channel is
  closed and empty ends (\<open>worker_fn\<close>). To the state of \<open>Request_Flow\<close> comes how far the end has got.
\<close>

subsection \<open>State and steps\<close>

datatype dispatcher_phase = Dispatching | Draining | Returned

record closing =
  cl_open :: bool
  cl_router :: bool
  cl_dispatcher :: dispatcher_phase

definition closing_new :: closing where
  "closing_new = \<lparr>cl_open = True, cl_router = True, cl_dispatcher = Dispatching\<rparr>"

text \<open>Which tasks are still in their loops.\<close>

fun in_loop :: "task \<Rightarrow> closing \<Rightarrow> bool" where
  "in_loop Frontends c = cl_open c"
| "in_loop RouterTask c = cl_router c"
| "in_loop DispatcherTask c = (cl_dispatcher c = Dispatching)"
| "in_loop CleanupTick c = (cl_dispatcher c = Dispatching)"
| "in_loop (WorkerTask i) c = True"
| "in_loop (WorkerStop i) c = True"
| "in_loop (WorkerExit i) c = True"

inductive shutdown_step ::
    "trie_at \<Rightarrow> worker_config \<Rightarrow> ('f, 'l) lua_call \<Rightarrow> setup_error + 'f handler_runtime \<Rightarrow> 'l
      \<Rightarrow> task \<Rightarrow> 'l flow \<times> closing \<Rightarrow> 'l flow \<times> closing \<Rightarrow> bool"
  for at cfg call rt lua0 where
  work: "flow_step at cfg call rt lua0 a s s' \<Longrightarrow> in_loop a c \<Longrightarrow>
    shutdown_step at cfg call rt lua0 a (s, c) (s', c)"
| senders_gone: "cl_open c \<Longrightarrow> shutdown_step at cfg call rt lua0 Frontends (s, c) (s, c\<lparr>cl_open := False\<rparr>)"
| router_ends: "\<not> cl_open c \<Longrightarrow> cl_router c \<Longrightarrow> fl_current s = None \<Longrightarrow> fl_inbox s = [] \<Longrightarrow>
    shutdown_step at cfg call rt lua0 RouterTask (s, c) (s, c\<lparr>cl_router := False\<rparr>)"
| dispatcher_breaks: "\<not> cl_router c \<Longrightarrow> cl_dispatcher c = Dispatching \<Longrightarrow> fl_handler s = [] \<Longrightarrow>
    shutdown_step at cfg call rt lua0 DispatcherTask (s, c) (s, c\<lparr>cl_dispatcher := Draining\<rparr>)"
| dispatcher_returns: "cl_dispatcher c = Draining \<Longrightarrow>
    shutdown_step at cfg call rt lua0 DispatcherTask (s, c) (s, c\<lparr>cl_dispatcher := Returned\<rparr>)"
| worker_ends: "rt = Inr r \<Longrightarrow> cl_dispatcher c = Returned \<Longrightarrow> i < length (ds_workers (fl_pool s)) \<Longrightarrow>
    wk_open (ds_workers (fl_pool s) ! i) \<Longrightarrow> wk_queue (ds_workers (fl_pool s) ! i) = [] \<Longrightarrow>
    shutdown_step at cfg call rt lua0 (WorkerTask i) (s, c) (s\<lparr>fl_pool := worker_stop i (fl_pool s)\<rparr>, c)"

inductive_cases shutdown_step_E: "shutdown_step at cfg call rt lua0 a (s, c) (s', c')"

definition shutdown_tasks :: "task set" where
  "shutdown_tasks = server_tasks \<union> range WorkerExit"

subsection \<open>The invariant\<close>

definition closing_ok ::
    "trie_at \<Rightarrow> worker_config \<Rightarrow> ('f, 'l) lua_call \<Rightarrow> setup_error + 'f handler_runtime \<Rightarrow> 'l flow \<times> closing \<Rightarrow> bool" where
  "closing_ok at cfg call rt x \<longleftrightarrow>
     flow_ok at cfg call rt (fst x) \<and>
     (\<not> cl_router (snd x) \<longrightarrow> \<not> cl_open (snd x) \<and> fl_current (fst x) = None \<and> fl_inbox (fst x) = []) \<and>
     (cl_dispatcher (snd x) \<noteq> Dispatching \<longrightarrow> \<not> cl_router (snd x))"

text \<open>A step is a step of \<open>Request_Flow\<close>, by the same task or by a worker that stops, or leaves its state alone.\<close>

lemma shutdown_flow:
  assumes "shutdown_step at cfg call rt lua0 a (s, c) (s', c')"
  shows "flow_step at cfg call rt lua0 a s s' \<and> c' = c \<or> s' = s \<or>
    (\<exists>i. a = WorkerTask i \<and> flow_step at cfg call rt lua0 (WorkerStop i) s s' \<and> c' = c)"
  using assms by (auto elim!: shutdown_step_E intro: flow_step.stop)

lemma quiet_router:
  assumes "flow_step at cfg call rt lua0 a s s'" and "fl_current s = None" and "fl_inbox s = []" and "a \<noteq> Frontends"
  shows "fl_current s' = None \<and> fl_inbox s' = [] \<and> fl_sent s' = fl_sent s \<and> fl_replies s' = fl_replies s"
  using assms by (auto elim!: flow_step_E)

interpretation closing: invariant_system "\<lambda>x. x = (flow_new cfg lua0, closing_new)" "shutdown_step at cfg call rt lua0"
    "closing_ok at cfg call rt"
  for at cfg call rt lua0
proof
  show "closing_ok at cfg call rt x" if "x = (flow_new cfg lua0, closing_new)" for x
    using that by (simp add: closing_ok_def closing_new_def flow.inv_init)
  show "closing_ok at cfg call rt x'" if "closing_ok at cfg call rt x" "shutdown_step at cfg call rt lua0 a x x'" for x a x'
    using that(2)
  proof (cases rule: shutdown_step.cases)
    case (work s s' c)
    then have "flow_ok at cfg call rt s'"
      using that(1) flow.inv_step [OF _ work(3)] by (simp add: closing_ok_def)
    moreover have "fl_current s' = None \<and> fl_inbox s' = []" if "\<not> cl_router c"
    proof -
      have "\<not> cl_open c" "fl_current s = None" "fl_inbox s = []"
        using \<open>closing_ok at cfg call rt x\<close> work(1) that by (auto simp: closing_ok_def)
      moreover from this(1) have "a \<noteq> Frontends"
        using work(4) by auto
      ultimately show ?thesis
        using quiet_router [OF work(3)] by blast
    qed
    ultimately show ?thesis
      using that(1) work by (simp add: closing_ok_def)
  next
    case (worker_ends r c i s)
    then show ?thesis
      using that(1) flow.inv_step [OF _ flow_step.stop [OF worker_ends(6,7)]] by (auto simp: closing_ok_def)
  qed (use that(1) in \<open>auto simp: closing_ok_def\<close>)
qed

subsection \<open>Runs without their end are runs of the flow\<close>

lemma server_step:
  assumes "shutdown_step at cfg call rt lua0 a (s, c) (s', c')" and "closing_ok at cfg call rt (s, c)"
    and "a \<in> server_tasks" and "enabled (flow_step at cfg call rt lua0) a s"
  shows "flow_step at cfg call rt lua0 a s s'"
  using assms(1)
proof (cases rule: shutdown_step.cases)
  case router_ends
  then show ?thesis
    using assms(4) by (auto simp: enabled_def elim!: router_step_E)
next
  case dispatcher_breaks
  then show ?thesis
    using assms(4) by (auto simp: enabled_def elim!: dispatcher_step_E)
next
  case dispatcher_returns
  then have "fl_handler s = []"
    using assms(2) by (auto simp: closing_ok_def flow_ok_def flow_place_def)
  then show ?thesis
    using assms(4) dispatcher_returns by (auto simp: enabled_def elim!: dispatcher_step_E)
next
  case worker_ends
  then show ?thesis
    using assms(4) by (auto simp: enabled_def elim!: worker_step_E)
qed (use assms(3) in \<open>auto simp: server_tasks_def\<close>)

lemma server_enabled:
  assumes "closing_ok at cfg call rt (s, c)" and "a \<in> server_tasks" and "enabled (flow_step at cfg call rt lua0) a s"
  shows "enabled (shutdown_step at cfg call rt lua0) a (s, c)"
proof -
  obtain s' where step: "flow_step at cfg call rt lua0 a s s'"
    using assms(3) by (auto simp: enabled_def)
  have "fl_handler s = []" if "\<not> cl_router c"
    using assms(1) that by (auto simp: closing_ok_def flow_ok_def flow_place_def)
  then have "in_loop a c"
    using step assms(1,2) by (auto simp: closing_ok_def server_tasks_def elim!: router_step_E dispatcher_step_E)
  from shutdown_step.work [OF step this] show ?thesis
    by (auto simp: enabled_def)
qed

lemma project_run:
  assumes run: "fair_run shutdown_tasks (\<lambda>x. x = (flow_new cfg lua0, closing_new)) (shutdown_step at cfg call rt lua0) \<sigma> \<tau>"
  shows "\<exists>\<tau>'. fair_run server_tasks (\<lambda>s. s = flow_new cfg lua0) (flow_step at cfg call rt lua0) (\<lambda>n. fst (\<sigma> n)) \<tau>'"
proof (rule closing.fair_projection [OF run])
  show "fst x' = fst x \<or> (\<exists>b. flow_step at cfg call rt lua0 b (fst x) (fst x'))"
    if "shutdown_step at cfg call rt lua0 a x x'" for a x x'
    using shutdown_flow [of at cfg call rt lua0 a "fst x" "snd x" "fst x'" "snd x'"] that by auto
  show "flow_step at cfg call rt lua0 a (fst x) (fst x')"
    if "closing_ok at cfg call rt x" "a \<in> server_tasks" "enabled (flow_step at cfg call rt lua0) a (fst x)"
      "shutdown_step at cfg call rt lua0 a x x'" for a x x'
    using server_step [of at cfg call rt lua0 a "fst x" "snd x" "fst x'" "snd x'"] that by simp
  show "enabled (shutdown_step at cfg call rt lua0) a x"
    if "closing_ok at cfg call rt x" "a \<in> server_tasks" "enabled (flow_step at cfg call rt lua0) a (fst x)" for a x
    using server_enabled [of at cfg call rt "fst x" "snd x" a lua0] that by simp
qed (auto simp: shutdown_tasks_def)

subsection \<open>The end\<close>

text \<open>After the senders are gone no request comes, and what is answered stays answered.\<close>

definition all_answered :: "request list \<Rightarrow> 'l flow \<times> closing \<Rightarrow> bool" where
  "all_answered sent x \<longleftrightarrow>
     \<not> cl_open (snd x) \<and> fl_sent (fst x) = sent \<and> fl_current (fst x) = None \<and> fl_inbox (fst x) = []"

lemma closed_step:
  assumes "shutdown_step at cfg call rt lua0 a x x'" and "\<not> cl_open (snd x)"
  shows "\<not> cl_open (snd x') \<and> fl_sent (fst x') = fl_sent (fst x)"
  using assms by (cases rule: shutdown_step.cases) (auto elim!: flow_step_E)

lemma all_answered_step:
  assumes "shutdown_step at cfg call rt lua0 a x x'" and "all_answered sent x"
  shows "all_answered sent x'"
  using assms(1)
proof (cases rule: shutdown_step.cases)
  case (work s s' c)
  then have "a \<noteq> Frontends"
    using assms(2) by (auto simp: all_answered_def)
  with work quiet_router [OF work(3)] assms(2) show ?thesis
    by (auto simp: all_answered_def)
qed (use assms(2) in \<open>auto simp: all_answered_def\<close>)

lemma router_can_end:
  assumes "\<not> cl_open c" and "cl_router c" and "fl_current s = None" and "fl_inbox s = []"
  shows "enabled (shutdown_step at cfg call rt lua0) RouterTask (s, c)"
  unfolding enabled_def by (rule exI, rule shutdown_step.router_ends [OF assms])

lemma dispatcher_can_end:
  assumes "\<not> cl_router c" and "fl_handler s = []" and "cl_dispatcher c \<noteq> Returned"
  shows "enabled (shutdown_step at cfg call rt lua0) DispatcherTask (s, c)"
proof (cases "cl_dispatcher c")
  case Dispatching
  show ?thesis
    unfolding enabled_def by (rule exI, rule shutdown_step.dispatcher_breaks [OF assms(1) Dispatching assms(2)])
next
  case Draining
  show ?thesis
    unfolding enabled_def by (rule exI, rule shutdown_step.dispatcher_returns [OF Draining])
qed (use assms(3) in simp)

lemma closed_run:
  assumes "is_run init (shutdown_step at cfg call rt lua0) \<sigma> \<tau>" and "\<not> cl_open (snd (\<sigma> m))" and "m \<le> n"
  shows "\<not> cl_open (snd (\<sigma> n)) \<and> fl_sent (fst (\<sigma> n)) = fl_sent (fst (\<sigma> m))"
  using assms(3)
proof (induction n rule: dec_induct)
  case (step n)
  then show ?case
    using is_run_cases [OF assms(1), of n] closed_step by metis
qed (use assms(2) in simp)

lemma answers_come:
  assumes run: "fair_run shutdown_tasks (\<lambda>x. x = (flow_new cfg lua0, closing_new)) (shutdown_step at cfg call rt lua0) \<sigma> \<tau>"
    and closed: "\<not> cl_open (snd (\<sigma> m))"
  shows "\<exists>m' \<ge> m. all_answered (fl_sent (fst (\<sigma> m))) (\<sigma> m')"
proof -
  let ?sent = "fl_sent (fst (\<sigma> m))"
  obtain \<tau>' where proj: "fair_run server_tasks (\<lambda>s. s = flow_new cfg lua0) (flow_step at cfg call rt lua0) (\<lambda>n. fst (\<sigma> n)) \<tau>'"
    using project_run [OF run] by blast
  have "\<exists>m' \<ge> m. length ?sent \<le> length (fl_replies (fst (\<sigma> m')))"
  proof (cases "?sent = []")
    case False
    then have "length ?sent - 1 < length ?sent"
      by simp
    from all_replies [OF proj this] show ?thesis
      by (auto simp: Suc_le_eq less_diff_conv)
  qed auto
  then obtain m' where m': "m \<le> m'" "length ?sent \<le> length (fl_replies (fst (\<sigma> m')))"
    by blast
  have "is_run (\<lambda>x. x = (flow_new cfg lua0, closing_new)) (shutdown_step at cfg call rt lua0) \<sigma> \<tau>"
    using run by (simp add: fair_run_def)
  from closed_run [OF this closed m'(1)] have now: "\<not> cl_open (snd (\<sigma> m'))" "fl_sent (fst (\<sigma> m')) = ?sent"
    by simp_all
  have "flow_order at (fst (\<sigma> m'))"
    using closing.run_inv [OF run] by (simp add: closing_ok_def flow_ok_def)
  then have "map fst (fl_replies (fst (\<sigma> m'))) @ current_ids (fst (\<sigma> m')) @ map fst (fl_inbox (fst (\<sigma> m'))) = [0..<length ?sent]"
    using now(2) by (simp add: flow_order_def)
  from arg_cong [OF this, of length] m'(2) have "length (current_ids (fst (\<sigma> m'))) = 0 \<and> length (fl_inbox (fst (\<sigma> m'))) = 0"
    unfolding length_append length_map length_upt by linarith
  then have "fl_current (fst (\<sigma> m')) = None" "fl_inbox (fst (\<sigma> m')) = []"
    by (auto simp: current_ids_def split: option.splits)
  then show ?thesis
    using m'(1) now by (auto simp: all_answered_def)
qed

lemma router_ends_later:
  assumes run: "fair_run shutdown_tasks (\<lambda>x. x = (flow_new cfg lua0, closing_new)) (shutdown_step at cfg call rt lua0) \<sigma> \<tau>"
    and "all_answered sent (\<sigma> m)"
  shows "\<exists>m' \<ge> m. all_answered sent (\<sigma> m') \<and> \<not> cl_router (snd (\<sigma> m'))"
proof (cases "cl_router (snd (\<sigma> m))")
  case True
  show ?thesis
  proof (rule closing.ensures [OF run, where a = RouterTask and P = "\<lambda>x. all_answered sent x \<and> cl_router (snd x)"])
    show "all_answered sent x' \<and> \<not> cl_router (snd x')"
      if "closing_ok at cfg call rt x" "all_answered sent x \<and> cl_router (snd x)" "shutdown_step at cfg call rt lua0 RouterTask x x'" for x x'
    proof -
      have "\<not> cl_router (snd x')"
        using that(3,2) by (cases rule: shutdown_step.cases) (auto simp: all_answered_def elim!: router_step_E)
      then show ?thesis
        using all_answered_step [OF that(3)] that(2) by blast
    qed
    show "enabled (shutdown_step at cfg call rt lua0) RouterTask x"
      if "closing_ok at cfg call rt x" "all_answered sent x \<and> cl_router (snd x)" for x
      using that(2) router_can_end [of "snd x" "fst x"] by (simp add: all_answered_def)
    show "(all_answered sent x' \<and> cl_router (snd x')) \<or> all_answered sent x' \<and> \<not> cl_router (snd x')"
      if "closing_ok at cfg call rt x" "all_answered sent x \<and> cl_router (snd x)" "shutdown_step at cfg call rt lua0 b x x'" for b x x'
      using all_answered_step [OF that(3)] that(2) by blast
  qed (use True assms(2) in \<open>auto simp: shutdown_tasks_def server_tasks_def\<close>)
qed (use assms(2) in blast)

fun phases_left :: "dispatcher_phase \<Rightarrow> nat" where
  "phases_left Dispatching = 2"
| "phases_left Draining = 1"
| "phases_left Returned = 0"

lemma phases_left_0 [simp]: "phases_left p = 0 \<longleftrightarrow> p = Returned" "0 < phases_left p \<longleftrightarrow> p \<noteq> Returned"
  by (cases p; simp)+

text \<open>The dispatcher has \<open>i\<close> phases to go, and nothing else happens but the end of workers.\<close>

definition dispatcher_ending :: "request list \<Rightarrow> nat \<Rightarrow> 'l flow \<times> closing \<Rightarrow> bool" where
  "dispatcher_ending sent i x \<longleftrightarrow>
     all_answered sent x \<and> \<not> cl_router (snd x) \<and> phases_left (cl_dispatcher (snd x)) = i"

lemma ending_handler:
  assumes "closing_ok at cfg call rt x" and "dispatcher_ending sent i x"
  shows "fl_handler (fst x) = []"
  using assms by (auto simp: closing_ok_def flow_ok_def flow_place_def all_answered_def dispatcher_ending_def)

lemma ending_step:
  assumes "dispatcher_ending sent i x" and "shutdown_step at cfg call rt lua0 b x x'"
  shows "\<exists>j \<le> i. dispatcher_ending sent j x'"
proof -
  have "\<not> cl_router (snd x') \<and> phases_left (cl_dispatcher (snd x')) \<le> i"
    using assms(2,1) by (cases rule: shutdown_step.cases) (auto simp: dispatcher_ending_def)
  then show ?thesis
    using all_answered_step [OF assms(2)] assms(1) by (auto simp: dispatcher_ending_def)
qed

lemma ending_acts:
  assumes "closing_ok at cfg call rt x" and "dispatcher_ending sent i x" and "0 < i"
    and "shutdown_step at cfg call rt lua0 DispatcherTask x x'"
  shows "\<exists>j < i. dispatcher_ending sent j x'"
proof -
  have "phases_left (cl_dispatcher (snd x')) < i"
    using assms(4,2,3) ending_handler [OF assms(1,2)]
    by cases (auto simp: dispatcher_ending_def elim!: dispatcher_step_E)
  moreover obtain j where "dispatcher_ending sent j x'"
    using ending_step [OF assms(2,4)] by blast
  ultimately show ?thesis
    by (auto simp: dispatcher_ending_def)
qed

lemma dispatcher_returns_later:
  assumes run: "fair_run shutdown_tasks (\<lambda>x. x = (flow_new cfg lua0, closing_new)) (shutdown_step at cfg call rt lua0) \<sigma> \<tau>"
    and "all_answered sent (\<sigma> m)" and "\<not> cl_router (snd (\<sigma> m))"
  shows "\<exists>m' \<ge> m. dispatcher_ending sent 0 (\<sigma> m')"
proof -
  let ?P = "\<lambda>i x. dispatcher_ending sent i x \<and> 0 < i"
  have start: "dispatcher_ending sent (phases_left (cl_dispatcher (snd (\<sigma> m)))) (\<sigma> m)"
    using assms(2,3) by (simp add: dispatcher_ending_def)
  show ?thesis
  proof (cases "phases_left (cl_dispatcher (snd (\<sigma> m))) = 0")
    case False
    show ?thesis
    proof (rule closing.ensures_ranked [OF run, where act = "\<lambda>_. DispatcherTask" and P = ?P])
      show "(\<exists>j \<le> i. ?P j x') \<or> dispatcher_ending sent 0 x'"
        if "closing_ok at cfg call rt x" "?P i x" "shutdown_step at cfg call rt lua0 b x x'" for b i x x'
        using ending_step [of sent i x] that(2,3) by (metis neq0_conv)
      show "(\<exists>j < i. ?P j x') \<or> dispatcher_ending sent 0 x'"
        if "closing_ok at cfg call rt x" "?P i x" "shutdown_step at cfg call rt lua0 DispatcherTask x x'" for i x x'
        using ending_acts [OF that(1)] that(2,3) by (metis neq0_conv)
      show "enabled (shutdown_step at cfg call rt lua0) DispatcherTask x"
        if "closing_ok at cfg call rt x" "?P i x" for i x
        using dispatcher_can_end [of "snd x" "fst x"] ending_handler [OF that(1)] that(2) by (auto simp: dispatcher_ending_def)
      show "?P (phases_left (cl_dispatcher (snd (\<sigma> m)))) (\<sigma> m)"
        using start False by simp
    qed (simp add: shutdown_tasks_def server_tasks_def)
  qed (use start in auto)
qed

text \<open>What the workers still have to do: an open one ends and then its task is finished.\<close>

definition worker_left :: "'l worker \<Rightarrow> nat" where
  "worker_left w = (if wk_open w then 2 else if wk_finished w then 0 else 1)"

definition workers_left :: "'l flow \<times> closing \<Rightarrow> nat" where
  "workers_left x = (\<Sum>w \<leftarrow> ds_workers (fl_pool (fst x)). worker_left w)"

lemma sum_list_update_less:
  "i < length xs \<Longrightarrow> f y < f (xs ! i) \<Longrightarrow> (\<Sum>x \<leftarrow> xs[i := y]. f x) < ((\<Sum>x \<leftarrow> xs. f x) :: nat)"
  by (induction xs arbitrary: i) (auto simp: nth_Cons split: nat.splits)

definition only_workers :: "request list \<Rightarrow> 'l flow \<times> closing \<Rightarrow> bool" where
  "only_workers sent x \<longleftrightarrow>
     all_answered sent x \<and> \<not> cl_router (snd x) \<and> cl_dispatcher (snd x) = Returned"

lemma no_queues:
  assumes "closing_ok at cfg call rt x" and "only_workers sent x" and "w \<in> set (ds_workers (fl_pool (fst x)))"
  shows "wk_queue w = []"
  using assms queued_empty_iff
  by (auto simp: closing_ok_def only_workers_def all_answered_def flow_ok_def flow_place_def)

lemma worker_end_step:
  assumes ok: "closing_ok at cfg call rt x" and only: "only_workers sent x" and step: "shutdown_step at cfg call rt lua0 a x x'"
  shows "only_workers sent x' \<and> workers_left x' < workers_left x"
proof -
  note empty = no_queues [OF ok only nth_mem]
  have stop: "workers_left (s\<lparr>fl_pool := worker_stop i (fl_pool s)\<rparr>, c) < workers_left (s, c')"
    if "i < length (ds_workers (fl_pool s))" "wk_open (ds_workers (fl_pool s) ! i)" for s :: "'a flow" and i c c'
    using that by (auto simp: workers_left_def worker_stop_def Let_def worker_left_def intro!: sum_list_update_less)
  have finish: "workers_left (s\<lparr>fl_pool := worker_finish i (fl_pool s)\<rparr>, c) < workers_left (s, c')"
    if "i < length (ds_workers (fl_pool s))" "\<not> wk_open (ds_workers (fl_pool s) ! i)" "\<not> wk_finished (ds_workers (fl_pool s) ! i)"
    for s :: "'a flow" and i c c'
    using that by (auto simp: workers_left_def worker_finish_def worker_left_def intro!: sum_list_update_less)
  have handler: "fl_handler (fst x) = []"
    using ok only by (auto simp: closing_ok_def flow_ok_def flow_place_def only_workers_def all_answered_def)
  have "workers_left x' < workers_left x \<and> snd x' = snd x"
    using step
  proof (cases rule: shutdown_step.cases)
    case (work s s' c)
    from work(3) have "workers_left (s', c) < workers_left (s, c)"
      using only work empty handler
      by (cases rule: flow_step.cases) (auto simp: only_workers_def all_answered_def intro: stop finish)
    then show ?thesis
      using work by simp
  qed (use only in \<open>auto simp: only_workers_def all_answered_def intro: stop\<close>)
  then show ?thesis
    using all_answered_step [OF step] only by (auto simp: only_workers_def)
qed

lemma worker_end_ready:
  assumes ok: "closing_ok at cfg call rt (s, c)" and only: "only_workers sent (s, c)"
    and left: "w \<in> set (ds_workers (fl_pool s))" "\<not> wk_finished w"
  shows "\<exists>a \<in> shutdown_tasks. enabled (shutdown_step at cfg call rt lua0) a (s, c)"
proof -
  obtain i where i: "i < length (ds_workers (fl_pool s))" "ds_workers (fl_pool s) ! i = w"
    using left(1) by (auto simp: in_set_conv_nth)
  have phase: "cl_dispatcher c = Returned"
    using only by (simp add: only_workers_def)
  have tasks: "WorkerTask i \<in> shutdown_tasks" "WorkerExit i \<in> shutdown_tasks"
    by (simp_all add: shutdown_tasks_def server_tasks_def)
  consider "\<not> wk_open w" | r where "wk_open w" "rt = Inr r" | e where "wk_open w" "rt = Inl e"
    by (cases rt) auto
  then show ?thesis
  proof cases
    case 1
    have "flow_step at cfg call rt lua0 (WorkerExit i) s (s\<lparr>fl_pool := worker_finish i (fl_pool s)\<rparr>)"
      using flow_step.finish [of i s] i left(2) 1 by simp
    from shutdown_step.work [OF this, of c] tasks(2) show ?thesis
      unfolding enabled_def by (intro bexI [of _ "WorkerExit i"] exI) simp_all
  next
    case 2
    have "wk_queue w = []"
      using no_queues [OF ok only] left(1) by simp
    from shutdown_step.worker_ends [OF 2(2) phase i(1)] this 2(1) i(2) tasks(1) show ?thesis
      unfolding enabled_def by (intro bexI [of _ "WorkerTask i"] exI) simp_all
  next
    case 3
    have "flow_step at cfg call rt lua0 (WorkerTask i) s (s\<lparr>fl_pool := worker_stop i (fl_pool s)\<rparr>)"
      using flow_step.no_runtime [OF 3(2) i(1)] i(2) 3(1) by simp
    from shutdown_step.work [OF this, of c] tasks(1) show ?thesis
      unfolding enabled_def by (intro bexI [of _ "WorkerTask i"] exI) simp_all
  qed
qed


text \<open>A run that answers one request and then ends.\<close>

definition demo_end :: "(task \<times> nat flow \<times> closing) list" where
  "demo_end =
     map (\<lambda>(a, s). (a, s, closing_new)) demo_flow @
     (let s = snd (last demo_flow);
          s1 = s\<lparr>fl_pool := worker_stop 0 (fl_pool s)\<rparr>;
          s2 = s1\<lparr>fl_pool := worker_finish 0 (fl_pool s1)\<rparr>;
          c1 = closing_new\<lparr>cl_open := False\<rparr>;
          c2 = c1\<lparr>cl_router := False\<rparr>;
          c3 = c2\<lparr>cl_dispatcher := Draining\<rparr>;
          c4 = c2\<lparr>cl_dispatcher := Returned\<rparr> in
      [(Frontends, s, c1), (RouterTask, s, c2), (DispatcherTask, s, c3), (DispatcherTask, s, c4),
       (WorkerTask 0, s1, c4), (WorkerExit 0, s2, c4)])"

lemma follows_work:
  "follows (flow_step at cfg call rt lua0) s xs \<Longrightarrow> \<forall>x \<in> set xs. in_loop (fst x) c \<Longrightarrow>
    follows (shutdown_step at cfg call rt lua0) (s, c) (map (\<lambda>(a, s). (a, s, c)) xs)"
  by (induction "flow_step at cfg call rt lua0" s xs rule: follows.induct) (auto intro: shutdown_step.work)

lemma demo_flow_end:
  "fl_inbox (snd (last demo_flow)) = []" "fl_current (snd (last demo_flow)) = None" "fl_handler (snd (last demo_flow)) = []"
  "ds_workers (fl_pool (snd (last demo_flow))) = [\<lparr>wk_queue = [], wk_open = True, wk_finished = False, wk_lua = Suc 0\<rparr>]"
  by (simp_all add: demo_flow_def Let_def flow_new_def demo_pool demo_serve)

lemma demo_end_follows:
  "follows (shutdown_step demo_at worker_config_default echo_call (Inr demo_runtime) 0)
     (flow_new worker_config_default 0, closing_new) demo_end"
proof -
  let ?step = "shutdown_step demo_at worker_config_default echo_call (Inr demo_runtime) 0"
  obtain s s1 s2 c1 c2 c3 c4 where s: "s = snd (last demo_flow)"
    and s1: "s1 = s\<lparr>fl_pool := worker_stop 0 (fl_pool s)\<rparr>" and s2: "s2 = s1\<lparr>fl_pool := worker_finish 0 (fl_pool s1)\<rparr>"
    and c1: "c1 = closing_new\<lparr>cl_open := False\<rparr>" and c2: "c2 = c1\<lparr>cl_router := False\<rparr>"
    and c3: "c3 = c2\<lparr>cl_dispatcher := Draining\<rparr>" and c4: "c4 = c2\<lparr>cl_dispatcher := Returned\<rparr>"
    by blast
  note cs = c1 c2 c3 c4 closing_new_def
  have "?step Frontends (s, closing_new) (s, c1)"
    unfolding c1 by (rule shutdown_step.senders_gone) (simp add: closing_new_def)
  moreover have "?step RouterTask (s, c1) (s, c2)"
    unfolding c2 by (rule shutdown_step.router_ends) (simp_all add: cs s demo_flow_end)
  moreover have "?step DispatcherTask (s, c2) (s, c3)"
    unfolding c3 by (rule shutdown_step.dispatcher_breaks) (simp_all add: cs s demo_flow_end)
  moreover have "?step DispatcherTask (s, c3) (s, c4)"
    using shutdown_step.dispatcher_returns [of c3] by (simp add: c3 c4)
  moreover have "?step (WorkerTask 0) (s, c4) (s1, c4)"
    unfolding s1 by (rule shutdown_step.worker_ends [OF refl]) (simp_all add: c4 s demo_flow_end)
  moreover have "?step (WorkerExit 0) (s1, c4) (s2, c4)"
    unfolding s2 by (rule shutdown_step.work, rule flow_step.finish) (simp_all add: s1 s demo_flow_end worker_stop_def Let_def)
  moreover have "follows ?step (flow_new worker_config_default 0, closing_new) (map (\<lambda>(a, s). (a, s, closing_new)) demo_flow)"
    by (rule follows_work [OF demo_flow_follows]) (simp add: demo_flow_def Let_def closing_new_def)
  moreover have "last ((flow_new worker_config_default 0, closing_new) # map snd (map (\<lambda>(a, s). (a, s, closing_new)) demo_flow)) =
      (s, closing_new)"
    by (simp add: demo_flow_def Let_def s)
  ultimately show ?thesis
    unfolding demo_end_def follows_append by (simp add: Let_def s s1 s2 c1 c2 c3 c4)
qed

lemma demo_end_fair:
  "fair_run shutdown_tasks (\<lambda>x. x = (flow_new worker_config_default 0, closing_new))
     (shutdown_step demo_at worker_config_default echo_call (Inr demo_runtime) 0)
     (fst (finite_run demo_end (flow_new worker_config_default 0, closing_new)))
     (snd (finite_run demo_end (flow_new worker_config_default 0, closing_new)))"
proof (rule finite_run_fair [OF refl demo_end_follows])
  fix a assume a: "a \<in> shutdown_tasks"
  obtain s c where x: "last ((flow_new worker_config_default 0, closing_new) # map snd demo_end) = (s, c)"
    by fastforce
  then have "cl_router c = False" "cl_dispatcher c = Returned"
    "ds_workers (fl_pool s) = [\<lparr>wk_queue = [], wk_open = False, wk_finished = True, wk_lua = Suc 0\<rparr>]"
    by (auto simp: demo_end_def Let_def demo_flow_end worker_stop_def worker_finish_def)
  then show "\<not> enabled (shutdown_step demo_at worker_config_default echo_call (Inr demo_runtime) 0) a
      (last ((flow_new worker_config_default 0, closing_new) # map snd demo_end))"
    using a unfolding x enabled_def shutdown_tasks_def server_tasks_def
    by (auto elim!: shutdown_step_E flow_step_E)
qed


end
