(* ===== verification/Sftp_Session.thy ===== *)
theory Sftp_Session
  imports Ssh_Auth
begin

text \<open>
  What an SFTP session promises: every request gets one response with its id, a handle means
  the path it was opened for until it is closed, and reads return the slices of the content.
  The abstract session \<open>serve_packets\<close> handles a list of packets one by one; the packet loop on
  the bytes of the stream refines it.
\<close>

subsection \<open>The abstract session\<close>

fun serve_packets ::
    "sftp_lib \<Rightarrow> 'w router \<Rightarrow> packet list \<Rightarrow> handle_state \<Rightarrow> 'w \<Rightarrow> packet list \<times> handle_state \<times> 'w" where
  "serve_packets lib rt [] hs w = ([], hs, w)"
| "serve_packets lib rt (p # ps) hs w =
     (case sftp_handler lib p of
        None \<Rightarrow> serve_packets lib rt ps hs w
      | Some (rid, m) \<Rightarrow>
          (case run rt m hs w of
             (Done r, out, hs', w') \<Rightarrow>
               (let (rs, hs'', w'') = serve_packets lib rt ps hs' w' in
                (response_packet rid r # rs, hs'', w''))
           | (_, out, hs', w') \<Rightarrow> ([], hs', w')))"

fun packet_id :: "packet \<Rightarrow> u32 option" where
  "packet_id (PHandle rid h) = Some rid"
| "packet_id (PStatus rid c m l) = Some rid"
| "packet_id (PData rid d) = Some rid"
| "packet_id (PName rid ns) = Some rid"
| "packet_id (PAttrs rid a) = Some rid"
| "packet_id p = None"

definition request_id :: "sftp_lib \<Rightarrow> packet \<Rightarrow> u32 option" where
  "request_id lib p = map_option fst (sftp_handler lib p)"

subsection \<open>Programs that only compute a reply\<close>

primrec quiet :: "('a \<Rightarrow> bool) \<Rightarrow> ('s, 'a) io \<Rightarrow> bool" where
  "quiet P (Ret x) = P x"
| "quiet P (Fail e) = False"
| "quiet P Panic = False"
| "quiet P (Atom u c) = (\<forall>s. quiet P (c s))"
| "quiet P (Call op p d c) = (\<forall>r. quiet P (c r))"
| "quiet P (Send bs m) = False"

lemma quiet_run: "quiet P m \<Longrightarrow> \<exists>x s' w'. run rt m s w = (Done x, [], s', w') \<and> P x"
  by (induction m arbitrary: s w) auto

lemma quiet_combinators:
  "(\<And>r. quiet P (k1 r)) \<Longrightarrow> quiet P (route op path data k1)"
  "P' (Inl code) \<Longrightarrow> (\<And>r. quiet P' (k2 r)) \<Longrightarrow> quiet P' (route_or code op path data k2)"
  "P' (Inl StFailure) \<Longrightarrow> (\<And>e. quiet P' (k3 e)) \<Longrightarrow> quiet P' (with_handle h k3)"
  "(\<And>r. quiet P (k4 r)) \<Longrightarrow> quiet P (locked f k4)"
  "(\<And>r. quiet P (k5 r)) \<Longrightarrow> quiet P (inspect g k5)"
  by (auto simp: route_def route_or_def with_handle_def locked_def inspect_def split: sum.split option.split)

definition reply_has_id :: "u32 \<Rightarrow> reply \<Rightarrow> bool" where
  "reply_has_id rid r = (packet_id (response_packet rid r) = Some rid)"

lemma reply_has_id_simps [simp]:
  "reply_has_id rid (Inl code)" "reply_has_id rid (Inr p) = (packet_id p = Some rid)"
  by (simp_all add: reply_has_id_def response_packet_def make_status_def)

lemmas sftp_op_defs =
  sftp_open_def sftp_close_def sftp_read_def sftp_write_def sftp_opendir_def sftp_readdir_def
  sftp_remove_def sftp_mkdir_def sftp_rmdir_def sftp_status_op_def sftp_realpath_def
  stat_impl_def sftp_stat_def sftp_lstat_def sftp_fstat_def sftp_rename_def sftp_setstat_def sftp_fsetstat_def

lemma sftp_handler_quiet:
  "sftp_handler lib p = Some (rid, m) \<Longrightarrow> quiet (reply_has_id rid) m"
  by (cases p) (auto simp: sftp_op_defs Let_def intro!: quiet_combinators split: option.split sum.split)

lemma serve_packets_step:
  assumes "sftp_handler lib p = Some (rid, m)"
  obtains r hs' w' where "run rt m hs w = (Done r, [], hs', w')" and "reply_has_id rid r"
    and "\<And>ps. serve_packets lib rt (p # ps) hs w =
      (let (rs, hs'', w'') = serve_packets lib rt ps hs' w' in (response_packet rid r # rs, hs'', w''))"
  using quiet_run [OF sftp_handler_quiet [OF assms], of rt hs w] assms by auto

lemma serve_packets_ids:
  "map packet_id (fst (serve_packets lib rt ps hs w)) =
     filter (\<lambda>i. i \<noteq> None) (map (request_id lib) ps)"
proof (induction ps arbitrary: hs w)
  case Nil
  then show ?case by simp
next
  case (Cons p ps)
  show ?case
  proof (cases "sftp_handler lib p")
    case None
    with Cons show ?thesis by (simp add: request_id_def)
  next
    case (Some rm)
    obtain rid m where rm: "sftp_handler lib p = Some (rid, m)"
      using Some by (cases rm) simp
    obtain r hs' w' where "reply_has_id rid r" and
      "serve_packets lib rt (p # ps) hs w =
        (let (rs, hs'', w'') = serve_packets lib rt ps hs' w' in (response_packet rid r # rs, hs'', w''))"
      by (rule serve_packets_step [OF rm]) blast
    with Cons.IH [of hs' w'] rm show ?thesis
      by (auto simp: request_id_def reply_has_id_def split: prod.splits)
  qed
qed

subsection \<open>The packet loop refines the abstract session\<close>

interpretation sftp_frames: framing sftp_frame read_sftp_packet "\<lambda>raw. length raw < 4294967296"
proof
  fix raw rest :: bytes
  assume "length raw < 4294967296"
  then have "unat (word_of_nat (length raw) :: u32) = length raw"
    by (rule unat_word32)
  then show "read_sftp_packet (sftp_frame raw @ rest) = Some (raw, rest)"
    by (simp add: read_sftp_packet_def sftp_frame_def sub_bytes_def)
next
  show "read_sftp_packet [] = None"
    by (simp add: read_sftp_packet_def)
qed

lemma sftp_main_loop_Nil: "sftp_main_loop lib [] = Ret ()"
  by (simp add: sftp_main_loop.simps sftp_frames.dec_Nil)

lemma sftp_main_loop_frame:
  "length raw < 4294967296 \<Longrightarrow>
    sftp_main_loop lib (sftp_frame raw @ rest) = sftp_round lib raw (sftp_main_loop lib rest)"
  by (subst sftp_main_loop.simps) (simp add: sftp_frames.dec_enc)

lemma run_sftp_round:
  assumes "lib_parse lib raw = Some p" and "sftp_handler lib p = Some (rid, m)"
    and "run rt m hs w = (Done r, [], hs', w')" and "lib_serialise lib (response_packet rid r) = Some bs"
  shows "run rt (sftp_round lib raw next) hs w =
    (let (res, out, hs'', w'') = run rt next hs' w' in (res, bs @ out, hs'', w''))"
  using assms by (simp add: sftp_round_def run_io_handle write_packet_def Let_def split: prod.split)

lemma sftp_main_loop_refines:
  assumes "\<forall>raw \<in> set raws. length raw < 4294967296"
    and "\<And>p. packet_id p \<noteq> None \<Longrightarrow> lib_serialise lib p = Some (ser p)"
  shows "run rt (sftp_main_loop lib (concat (map sftp_frame raws))) hs w =
    (case serve_packets lib rt (List.map_filter (lib_parse lib) raws) hs w of
       (rs, hs', w') \<Rightarrow> (Done (), concat (map ser rs), hs', w'))"
  using assms(1)
proof (induction raws arbitrary: hs w)
  case Nil
  then show ?case by (simp add: sftp_main_loop_Nil map_filter_simps)
next
  case (Cons raw raws)
  let ?rest = "sftp_main_loop lib (concat (map sftp_frame raws))"
  have loop: "sftp_main_loop lib (concat (map sftp_frame (raw # raws))) = sftp_round lib raw ?rest"
    using Cons.prems by (simp add: sftp_main_loop_frame)
  show ?case
  proof (cases "lib_parse lib raw")
    case None
    with Cons loop show ?thesis by (simp add: sftp_round_def map_filter_simps)
  next
    case p: (Some p)
    show ?thesis
    proof (cases "sftp_handler lib p")
      case None
      with Cons loop p show ?thesis by (simp add: sftp_round_def map_filter_simps)
    next
      case (Some rm)
      obtain rid m where rm: "sftp_handler lib p = Some (rid, m)"
        using Some by (cases rm) simp
      obtain r hs' w' where run: "run rt m hs w = (Done r, [], hs', w')" and r: "reply_has_id rid r"
        and step: "\<And>ps. serve_packets lib rt (p # ps) hs w =
          (let (rs, hs'', w'') = serve_packets lib rt ps hs' w' in (response_packet rid r # rs, hs'', w''))"
        by (rule serve_packets_step [OF rm]) blast
      have "lib_serialise lib (response_packet rid r) = Some (ser (response_packet rid r))"
        using r by (intro assms(2)) (simp add: reply_has_id_def)
      from run_sftp_round [OF p rm run this] Cons.IH [of hs' w'] Cons.prems loop p show ?thesis
        by (simp add: step map_filter_simps del: serve_packets.simps split: prod.splits)
    qed
  qed
qed

subsection \<open>Handles\<close>

text \<open>The SFTP instance of the handle-table contract.\<close>

definition hs_add :: "handle_entry \<Rightarrow> handle_state \<Rightarrow> string \<times> handle_state" where
  "hs_add e hs = hs_alloc (he_path e) (he_is_dir e) hs"

definition hs_used :: "handle_state \<Rightarrow> string set" where
  "hs_used hs = hex016 ` {1..<unat (hs_next_id hs)}"

definition hs_inv :: "handle_state \<Rightarrow> bool" where
  "hs_inv hs = (1 \<le> unat (hs_next_id hs) \<and> dom (hs_handles hs) \<subseteq> hs_used hs)"

definition hs_room :: "handle_state \<Rightarrow> nat" where
  "hs_room hs = 2 ^ 64 - 1 - unat (hs_next_id hs)"

lemma unat_next:
  assumes "0 < hs_room hs"
  shows "unat (hs_next_id hs + 1) = unat (hs_next_id hs) + 1"
proof -
  have "unat (hs_next_id hs) + 1 < 2 ^ 64"
    using assms by (simp add: hs_room_def)
  then show ?thesis
    by (simp add: unat_word_ariths)
qed

interpretation sftp_handles: handle_table hs_add hs_get hs_free hs_inv hs_room hs_used "\<lambda>_. False"
proof
  fix hs hs' :: handle_state and e h
  assume hs: "hs_inv hs" "0 < hs_room hs" "hs_add e hs = (h, hs')"
  then have h: "h = hex016 (unat (hs_next_id hs))"
    and hs': "hs' = hs\<lparr>hs_next_id := hs_next_id hs + 1, hs_handles := (hs_handles hs)(h \<mapsto> e)\<rparr>"
  proof -
    have "\<lparr>he_path = he_path e, he_is_dir = he_is_dir e\<rparr> = e"
      by simp
    with hs(3) show "h = hex016 (unat (hs_next_id hs))"
      and "hs' = hs\<lparr>hs_next_id := hs_next_id hs + 1, hs_handles := (hs_handles hs)(h \<mapsto> e)\<rparr>"
      by (auto simp: hs_add_def hs_alloc_def Let_def)
  qed
  have used: "hs_used hs' = insert h (hs_used hs)"
    using hs(1,2) by (auto simp: hs_used_def hs' h unat_next hs_inv_def atLeastLessThanSuc)
  then show "h \<notin> hs_used hs \<and> hs_used hs' = insert h (hs_used hs)"
    by (auto simp: hs_used_def h hex016_inject)
  show "hs_inv hs' \<and> hs_room hs = Suc (hs_room hs')"
    using hs(1,2) used unat_next [OF hs(2)] by (auto simp: hs_inv_def hs' hs_room_def)
  show "hs_get hs' = (hs_get hs)(h \<mapsto> e)"
    by (simp add: hs_get_def hs' fun_eq_iff)
qed (auto simp: hs_inv_def hs_free_def hs_room_def hs_used_def hs_get_def fun_eq_iff)

lemma run_route [sftp_simps]:
  "run rt (route op path data k) hs w =
     run rt (k (case fst (rt w op (normalized path) data) of
         RouterGone \<Rightarrow> Inl ''router gone''
       | HandlerGone \<Rightarrow> Inl ''handler gone''
       | Replied (Inl e) \<Rightarrow> Inl e
       | Replied (Inr resp) \<Rightarrow> Inr (resp_data resp))) hs (snd (rt w op (normalized path) data))"
  by (simp add: route_def)

lemma run_with_handle [sftp_simps]:
  "run rt (with_handle h k) hs w =
     (case hs_get hs h of None \<Rightarrow> (Done (Inl StFailure), [], hs, w) | Some e \<Rightarrow> run rt (k e) hs w)"
  by (simp add: with_handle_def run_inspect split: option.split)

text \<open>
  What one request does to the table: nothing, one allocation (whose handle is the reply), or
  one release of the handle that a close names.
\<close>

definition table_effect :: "packet \<Rightarrow> handle_state \<Rightarrow> reply outcome \<Rightarrow> handle_state \<Rightarrow> bool" where
  "table_effect p hs r hs' =
     (\<exists>ops hl. length ops \<le> 1 \<and> table_run hs_add hs_free ops hs = (hl, hs') \<and>
        (\<forall>h. Drop h \<in> set ops \<longrightarrow> (\<exists>rid. p = PClose rid h)) \<and>
        (\<forall>rid h. r = Done (Inr (PHandle rid h)) \<longrightarrow> h \<in> set hl))"

lemma table_effect_same [simp]:
  "table_effect p hs (Done (Inl code)) hs"
  "packet_id q \<noteq> None \<Longrightarrow> \<forall>rid h. q \<noteq> PHandle rid h \<Longrightarrow> table_effect p hs (Done (Inr q)) hs"
  by (auto simp: table_effect_def intro!: exI [of _ "[]"])

lemma table_effect_alloc [simp]:
  "table_effect p hs (Done (Inr (PHandle rid (fst (hs_alloc path d hs))))) (snd (hs_alloc path d hs))"
  by (auto simp: table_effect_def hs_add_def
      intro!: exI [of _ "[Add \<lparr>he_path = path, he_is_dir = d\<rparr>]"] split: prod.splits)

lemma table_effect_free [simp]:
  "table_effect (PClose rid h) hs (Done (Inr (PStatus i c m l))) (hs_free h hs)"
  by (auto simp: table_effect_def intro!: exI [of _ "[Drop h]"])

lemma sftp_handler_effect:
  assumes "sftp_handler lib p = Some (rid, m)" and "run rt m hs w = (r, out, hs', w')"
  shows "table_effect p hs r hs'"
  using assms
  by (cases p)
    (auto simp: sftp_op_defs route_or_def sftp_simps run_locked run_inspect Let_def
      split: option.splits sum.splits if_splits)

lemma table_run_append:
  "table_run add rem (xs @ ys) t =
     (let (h1, t1) = table_run add rem xs t; (h2, t2) = table_run add rem ys t1 in (h1 @ h2, t2))"
  by (induction add rem xs t rule: table_run.induct) (auto simp: Let_def split: prod.splits)

lemma adds_append: "adds (xs @ ys) = adds xs + adds ys"
  by (simp add: adds_def)

lemma adds_le: "adds ops \<le> length ops"
  by (simp add: adds_def)

text \<open>A sequence of requests is a sequence of table operations.\<close>

lemma serve_packets_table:
  "serve_packets lib rt ps hs w = (rs, hs', w') \<Longrightarrow>
    \<exists>ops hl. adds ops \<le> length ps \<and> table_run hs_add hs_free ops hs = (hl, hs') \<and>
      (\<forall>h. Drop h \<in> set ops \<longrightarrow> (\<exists>rid. PClose rid h \<in> set ps)) \<and>
      (\<forall>rid h. PHandle rid h \<in> set rs \<longrightarrow> h \<in> set hl)"
proof (induction ps arbitrary: hs w rs)
  case Nil
  then show ?case by (auto intro!: exI [of _ "[]"])
next
  case (Cons p ps)
  show ?case
  proof (cases "sftp_handler lib p")
    case None
    with Cons.prems have "serve_packets lib rt ps hs w = (rs, hs', w')"
      by simp
    from Cons.IH [OF this] obtain ops hl where "adds ops \<le> length ps"
      "table_run hs_add hs_free ops hs = (hl, hs')"
      "\<forall>h. Drop h \<in> set ops \<longrightarrow> (\<exists>rid. PClose rid h \<in> set ps)"
      "\<forall>rid h. PHandle rid h \<in> set rs \<longrightarrow> h \<in> set hl"
      by blast
    then show ?thesis
      by (intro exI [of _ ops] exI [of _ hl]) auto
  next
    case (Some rm)
    obtain rid m where rm: "sftp_handler lib p = Some (rid, m)"
      using Some by (cases rm) simp
    obtain r hs1 w1 where run: "run rt m hs w = (Done r, [], hs1, w1)" and
      step: "serve_packets lib rt (p # ps) hs w =
        (let (rs, hs'', w'') = serve_packets lib rt ps hs1 w1 in (response_packet rid r # rs, hs'', w''))"
      by (rule serve_packets_step [OF rm]) blast
    obtain rs1 where rs1: "serve_packets lib rt ps hs1 w1 = (rs1, hs', w')" "rs = response_packet rid r # rs1"
      using Cons.prems step by (auto split: prod.splits)
    from sftp_handler_effect [OF rm run] obtain ops1 hl1 where 1: "length ops1 \<le> 1"
      "table_run hs_add hs_free ops1 hs = (hl1, hs1)"
      "\<forall>h. Drop h \<in> set ops1 \<longrightarrow> (\<exists>rid. p = PClose rid h)"
      "\<forall>rid h. r = Inr (PHandle rid h) \<longrightarrow> h \<in> set hl1"
      by (auto simp: table_effect_def)
    from Cons.IH [OF rs1(1)] obtain ops2 hl2 where 2: "adds ops2 \<le> length ps"
      "table_run hs_add hs_free ops2 hs1 = (hl2, hs')"
      "\<forall>h. Drop h \<in> set ops2 \<longrightarrow> (\<exists>rid. PClose rid h \<in> set ps)"
      "\<forall>rid h. PHandle rid h \<in> set rs1 \<longrightarrow> h \<in> set hl2"
      by auto
    have "adds (ops1 @ ops2) \<le> length (p # ps)"
      using 1(1) 2(1) adds_le [of ops1] by (simp add: adds_append)
    moreover have "table_run hs_add hs_free (ops1 @ ops2) hs = (hl1 @ hl2, hs')"
      using 1(2) 2(2) by (simp add: table_run_append)
    moreover have "\<forall>rid' h. PHandle rid' h \<in> set rs \<longrightarrow> h \<in> set (hl1 @ hl2)"
      using 1(4) 2(4) rs1(2) by (auto simp: response_packet_def make_status_def split: sum.splits)
    ultimately show ?thesis
      using 1(3) 2(3) by (intro exI [of _ "ops1 @ ops2"] exI [of _ "hl1 @ hl2"]) auto
  qed
qed

subsection \<open>Properties\<close>

text \<open>
  C13: An SFTP stream of requests is answered request by request. Assume that the packet
  library serialises every response. Whatever packets a client sends after its init packet
  (parsable or not), and whatever the router answers, the loop writes the version packet and
  then exactly one response for each request, in order and with the id of the request;
  unparsable packets and packets that are not requests get none; and the loop ends normally.
\<close>

theorem sftp_one_response_per_request:
  assumes "\<forall>raw \<in> set (raw0 # raws). length raw < 4294967296"
    and "lib_parse lib raw0 = Some (PInit version)"
    and "\<forall>p. packet_id p \<noteq> None \<or> p = PVersion 3 \<longrightarrow> lib_serialise lib p = Some (ser p)"
  shows "\<exists>rs hs' w'.
    run rt (sftp_loop lib (concat (map sftp_frame (raw0 # raws)))) hs w =
      (Done (), ser (PVersion 3) @ concat (map ser rs), hs', w') \<and>
    map packet_id rs =
      filter (\<lambda>i. i \<noteq> None) (map (request_id lib) (List.map_filter (lib_parse lib) raws))"
proof -
  let ?ps = "List.map_filter (lib_parse lib) raws"
  obtain rs hs' w' where rs: "serve_packets lib rt ?ps hs w = (rs, hs', w')"
    by (cases "serve_packets lib rt ?ps hs w") auto
  have "run rt (sftp_main_loop lib (concat (map sftp_frame raws))) hs w = (Done (), concat (map ser rs), hs', w')"
    using sftp_main_loop_refines [of raws lib ser rt hs w] assms(1,3) rs by simp
  moreover have "sftp_loop lib (concat (map sftp_frame (raw0 # raws))) =
      Send (ser (PVersion 3)) (sftp_main_loop lib (concat (map sftp_frame raws)))"
    using assms by (simp add: sftp_loop_def sftp_frames.dec_enc sftp_init_def write_packet_def)
  ultimately show ?thesis
    using serve_packets_ids [of lib rt ?ps hs w] rs
    by (intro exI [of _ rs] exI [of _ hs'] exI [of _ w']) simp
qed

text \<open>A library that parses packets by their first byte, to evaluate the properties with.\<close>

definition demo_packets :: sftp_lib where
  "demo_packets = demo_lib\<lparr>
     lib_parse := (\<lambda>raw. if raw = [1] then Some (PInit 3) else if raw = [16] then Some (PRealPath 7 ''a'') else None),
     lib_serialise := (\<lambda>p. Some [0])\<rparr>"

theorem sftp_one_response_per_request_witness:
  "\<exists>rs hs' w'.
    run (\<lambda>w op p d. (RouterGone, w)) (sftp_loop demo_packets (concat (map sftp_frame [[1], [16], [99], [16]]))) hs_new () =
      (Done (), [0] @ concat (map (\<lambda>_. [0]) rs), hs', w') \<and> map packet_id rs = [Some 7, Some 7]"
proof -
  have "\<exists>rs hs' w'.
    run (\<lambda>w op p d. (RouterGone, w)) (sftp_loop demo_packets (concat (map sftp_frame ([1] # [[16], [99], [16]])))) hs_new () =
      (Done (), (\<lambda>_. [0]) (PVersion 3) @ concat (map (\<lambda>_. [0]) rs), hs', w') \<and> map packet_id rs =
      filter (\<lambda>i. i \<noteq> None) (map (request_id demo_packets) (List.map_filter (lib_parse demo_packets) [[16], [99], [16]]))"
    by (rule sftp_one_response_per_request [where version = 3]) (simp_all add: demo_packets_def)
  then show ?thesis
    by (simp add: demo_packets_def map_filter_simps request_id_def)
qed

text \<open>
  C4: A handle means what it was opened for. After an open of \<open>path\<close> has returned the handle
  \<open>h\<close>, every sequence of further requests that does not close \<open>h\<close> (and is shorter than the
  counter's remaining room) leaves \<open>h\<close> bound to \<open>path\<close>, and no other open or opendir of the
  session returns \<open>h\<close>.
\<close>

theorem sftp_handle_means_its_path:
  assumes "hs_inv hs" and "run rt (sftp_open lib rid path pflags) hs w = (Done (Inr (PHandle rid h)), out, hs1, w1)"
    and "serve_packets lib rt ps hs1 w1 = (rs, hs2, w2)"
    and "\<forall>i. PClose i h \<notin> set ps" and "length ps < hs_room hs"
  shows "hs_get hs2 h = Some \<lparr>he_path = path, he_is_dir = False\<rparr> \<and> (\<forall>i. PHandle i h \<notin> set rs)"
proof -
  have add: "hs_add \<lparr>he_path = path, he_is_dir = False\<rparr> hs = (h, hs1)"
    using assms(2)
    by (cases "hs_alloc path False hs")
      (auto simp: sftp_open_def route_or_def sftp_simps run_locked hs_add_def split: sum.splits)
  from serve_packets_table [OF assms(3)] obtain ops hl where ops: "adds ops \<le> length ps"
    "table_run hs_add hs_free ops hs1 = (hl, hs2)"
    "\<forall>h. Drop h \<in> set ops \<longrightarrow> (\<exists>rid. PClose rid h \<in> set ps)"
    "\<forall>rid h. PHandle rid h \<in> set rs \<longrightarrow> h \<in> set hl"
    by blast
  have "Drop h \<notin> set ops"
    using ops(3) assms(4) by blast
  with sftp_handles.live_until_dropped [OF assms(1) _ add ops(2)] ops(1,4) assms(5) show ?thesis
    by auto
qed

theorem sftp_handle_means_its_path_witness:
  "(let rt = (\<lambda>w op p d. (Replied (Inr \<lparr>resp_data = [], resp_matched_pattern = None, resp_has_children = False\<rparr>), w));
        h = hex016 1; hs1 = snd (hs_alloc ''/a'' False hs_new);
        (rs, hs2, w2) = serve_packets demo_lib rt [POpenDir 2 ''/b''] hs1 () in
    hs_get hs2 h = Some \<lparr>he_path = ''/a'', he_is_dir = False\<rparr> \<and> (\<forall>i. PHandle i h \<notin> set rs))"
proof -
  let ?rt = "\<lambda>w op p d. (Replied (Inr \<lparr>resp_data = [], resp_matched_pattern = None, resp_has_children = False\<rparr>), w)"
  let ?hs1 = "snd (hs_alloc ''/a'' False hs_new)"
  obtain rs hs2 w2 where s: "serve_packets demo_lib ?rt [POpenDir 2 ''/b''] ?hs1 () = (rs, hs2, w2)"
    by (cases "serve_packets demo_lib ?rt [POpenDir 2 ''/b''] ?hs1 ()") auto
  have "hs_get hs2 (hex016 1) = Some \<lparr>he_path = ''/a'', he_is_dir = False\<rparr> \<and> (\<forall>i. PHandle i (hex016 1) \<notin> set rs)"
    by (rule sftp_handle_means_its_path [where hs = hs_new and rid = 1 and path = "''/a''" and pflags = 0
          and w = "()" and out = "[]", OF _ _ s])
      (simp_all add: hs_inv_def hs_new_def hs_room_def hs_alloc_def sftp_open_def route_or_def sftp_simps
        run_locked demo_lib_def Let_def)
  with s show ?thesis by simp
qed

lemma run_sftp_read:
  assumes "hs_get hs h = Some e" and "0 < len"
    and "rt w Read (normalized (he_path e)) [] = (Replied (Inr resp), w')" and "resp_data resp = content"
    and "length content + unat len < 2 ^ 64" and "k * unat len < 2 ^ 64"
  shows "run rt (sftp_read rid h (word_of_nat (k * unat len)) len) hs w =
    (Done (if k < length (blocks (unat len) content)
           then Inr (PData rid (blocks (unat len) content ! k)) else Inl StEof), [], hs, w')"
proof -
  let ?n = "unat len"
  have n: "0 < ?n"
    using assms(2) by (simp add: word_less_nat_alt)
  have off: "unat (word_of_nat (k * ?n) :: u64) = k * ?n"
    using assms(6) by (intro unat_word64) simp
  have slice: "sub_bytes content (k * ?n) (min (min (k * ?n + ?n) (2 ^ 64 - 1)) (length content)) =
      take ?n (drop (k * ?n) content)" if "k * ?n < length content"
  proof -
    have "min (min (k * ?n + ?n) (2 ^ 64 - 1)) (length content) = min (k * ?n + ?n) (length content)"
      using that assms(5) by simp
    then show ?thesis
      by (simp add: sub_bytes_def min_def)
  qed
  show ?thesis
    using assms(1,3,4)
    by (simp add: sftp_read_def route_or_def sftp_simps Let_def off blocks_nth [OF n] slice
        del: of_nat_mult) (use slice in \<open>simp add: not_le\<close>)
qed

text \<open>
  C26: Reads tile the file. If the read handler of a handle's path returns a fixed content,
  then reading with a fixed positive length at offsets \<open>0, len, 2 len, ...\<close> returns the
  consecutive blocks of the content (which concatenate to it, by construction of \<open>blocks\<close>),
  and the first read at or behind the end returns end-of-file.
\<close>

theorem sftp_reads_tile_the_file:
  assumes "hs_get hs h = Some e" and "0 < len"
    and "\<forall>w. \<exists>resp w'. rt w Read (normalized (he_path e)) [] = (Replied (Inr resp), w') \<and> resp_data resp = content"
    and "length content + unat len < 2 ^ 64" and "k * unat len < 2 ^ 64"
  shows "\<exists>w'. run rt (sftp_read rid h (word_of_nat (k * unat len)) len) hs w =
    (Done (if k < length (blocks (unat len) content)
           then Inr (PData rid (blocks (unat len) content ! k)) else Inl StEof), [], hs, w')"
proof -
  obtain resp w' where "rt w Read (normalized (he_path e)) [] = (Replied (Inr resp), w')" "resp_data resp = content"
    using assms(3) by blast
  from run_sftp_read [where rt = rt and w = w, OF assms(1,2) this assms(4,5)] show ?thesis
    by blast
qed

theorem sftp_reads_tile_the_file_witness:
  "(let rt = (\<lambda>w op p d. (Replied (Inr \<lparr>resp_data = [1, 2, 3, 4, 5], resp_matched_pattern = None,
                resp_has_children = False\<rparr>), w));
        hs = snd (hs_alloc ''/a'' False hs_new) in
    (\<exists>w'. run rt (sftp_read 9 (hex016 1) (word_of_nat (2 * unat (2 :: u32))) 2) hs () =
       (Done (Inr (PData 9 [5])), [], hs, w')) \<and>
    (\<exists>w'. run rt (sftp_read 9 (hex016 1) (word_of_nat (3 * unat (2 :: u32))) 2) hs () =
       (Done (Inl StEof), [], hs, w')))"
proof -
  let ?rt = "\<lambda>w op p d. (Replied (Inr \<lparr>resp_data = [1, 2, 3, 4, 5], resp_matched_pattern = None,
                resp_has_children = False\<rparr>), w)"
  let ?hs = "snd (hs_alloc ''/a'' False hs_new)"
  have bl: "blocks 2 [1, 2, 3, 4, 5 :: u8] = [[1, 2], [3, 4], [5]]"
    by (simp add: blocks_step blocks_Nil)
  have "\<exists>w'. run ?rt (sftp_read 9 (hex016 1) (word_of_nat (k * unat (2 :: u32))) 2) ?hs () =
    (Done (if k < length (blocks (unat (2 :: u32)) [1, 2, 3, 4, 5])
           then Inr (PData 9 (blocks (unat (2 :: u32)) [1, 2, 3, 4, 5] ! k)) else Inl StEof), [], ?hs, w')"
    if "k < 4" for k
    by (rule sftp_reads_tile_the_file [where e = "\<lparr>he_path = ''/a'', he_is_dir = False\<rparr>"])
      (use that in \<open>simp_all add: hs_get_def hs_alloc_def hs_new_def Let_def\<close>)
  from this [of 2] this [of 3] show ?thesis
    by (simp add: bl Let_def)
qed

text \<open>
  Attributes of an unknown handle. \<open>FSetStat\<close> with a handle that is not open (never
  handed out, or closed) does not fail: it sends a \<open>setattr\<close> for the root directory to the
  handlers. Every other operation on such a handle is rejected (a close is accepted) without
  calling a handler.
\<close>

theorem sftp_unknown_handle:
  assumes "hs_get hs h = None"
  shows "snd (snd (snd (run rt (sftp_fsetstat rid h) hs w))) = snd (rt w SetAttr ''/'' []) \<and>
    run rt (sftp_read rid h offset len) hs w = (Done (Inl StFailure), [], hs, w) \<and>
    run rt (sftp_write rid h offset data) hs w = (Done (Inl StFailure), [], hs, w) \<and>
    run rt (sftp_readdir rid h) hs w = (Done (Inl StFailure), [], hs, w) \<and>
    run rt (sftp_fstat lib rid h) hs w = (Done (Inl StFailure), [], hs, w) \<and>
    run rt (sftp_close rid h) hs w = (Done (Inr (PStatus rid StOk [] [])), [], hs, w)"
proof -
  have free: "hs_free h hs = hs"
    using assms by (simp add: hs_free_def hs_get_def fun_upd_idem)
  have "normalized [] = ''/''"
    by (simp add: normalized_def starts_with_def)
  then have "snd (snd (snd (run rt (sftp_fsetstat rid h) hs w))) = snd (rt w SetAttr ''/'' [])"
    using assms
    by (simp add: sftp_fsetstat_def route_or_def run_inspect run_route split: sum.split)
  then show ?thesis
    using assms free
    by (simp add: sftp_read_def sftp_write_def sftp_readdir_def sftp_fstat_def sftp_close_def
        sftp_simps run_inspect run_locked Let_def)
qed

theorem sftp_unknown_handle_witness:
  "snd (snd (snd (run (\<lambda>w op p d. (RouterGone, w @ [(op, p)])) (sftp_fsetstat 5 ''nope'') hs_new []))) =
    [(SetAttr, ''/'')]"
  using sftp_unknown_handle [of hs_new "''nope''" "\<lambda>w op p d. (RouterGone, w @ [(op, p)])" 5 "[]"]
  by (simp add: hs_get_def hs_new_def)

text \<open>
  A directory listing never ends. On a directory handle whose listing handler answers,
  \<open>readdir\<close> returns the complete list of names, with dot and dot-dot in front, every time it is
  called; it never returns end-of-file, which the protocol uses to tell a client to stop.
\<close>

theorem sftp_readdir_never_ends:
  assumes "hs_get hs h = Some e" and "he_is_dir e"
    and "rt w ReadDir (normalized (he_path e)) [] = (Replied (Inr resp), w')"
  shows "run rt (sftp_readdir rid h) hs w =
    (Done (Inr (PName rid ([''.'', ''..''] @ split_whitespace (from_utf8_lossy (resp_data resp))))), [], hs, w')"
  using assms by (simp add: sftp_readdir_def route_or_def sftp_simps)

theorem sftp_readdir_never_ends_witness:
  "(let rt = (\<lambda>w op p d. (Replied (Inr \<lparr>resp_data = [], resp_matched_pattern = None, resp_has_children = False\<rparr>), w));
        hs = snd (hs_alloc ''/a'' True hs_new) in
    run rt (sftp_readdir 4 (hex016 1)) hs () = (Done (Inr (PName 4 [''.'', ''..''])), [], hs, ()))"
  using sftp_readdir_never_ends [of "snd (hs_alloc ''/a'' True hs_new)" "hex016 1" "\<lparr>he_path = ''/a'', he_is_dir = True\<rparr>"
      "\<lambda>w op p d. (Replied (Inr \<lparr>resp_data = [], resp_matched_pattern = None, resp_has_children = False\<rparr>), w)" "()"
      "\<lparr>resp_data = [], resp_matched_pattern = None, resp_has_children = False\<rparr>" "()" 4]
  by (simp add: hs_get_def hs_alloc_def hs_new_def Let_def split_whitespace_def)

text \<open>
  \<open>realpath\<close> normalises paths: the result is absolute, has no empty component and no
  trailing slash, is a fixed point, and does not depend on leading, trailing or doubled
  slashes: two paths have the same result exactly when they have the same components.
\<close>

theorem sftp_realpath_normalises:
  "resolve (resolve path) = resolve path \<and>
   starts_with ''/'' (resolve path) \<and>
   (resolve path = resolve path' \<longleftrightarrow>
      filter (\<lambda>s. s \<noteq> []) (split_on (CHR ''/'') path) = filter (\<lambda>s. s \<noteq> []) (split_on (CHR ''/'') path'))"
proof -
  define parts where "parts p = filter (\<lambda>s. s \<noteq> []) (split_on (CHR ''/'') p)" for p
  have norm: "parts (normalized p) = parts p" for p
    by (simp add: parts_def normalized_def)
  have resolve: "resolve p = ''/'' @ join_with ''/'' (parts p)" for p
    using norm by (simp add: resolve_def parts_def)
  have again: "parts (''/'' @ join_with ''/'' (parts p)) = parts p" for p
  proof (cases "parts p = []")
    case True
    then show ?thesis by (simp add: parts_def)
  next
    case False
    have "\<forall>w \<in> set (parts p). CHR ''/'' \<notin> set w"
      using split_on_no_sep [of _ "CHR ''/''" p] by (auto simp: parts_def)
    from split_on_join [OF False this] have "parts (''/'' @ join_with ''/'' (parts p)) = filter (\<lambda>s. s \<noteq> []) (parts p)"
      by (simp add: parts_def)
    then show ?thesis by (simp add: parts_def)
  qed
  have "resolve (resolve path) = resolve path"
    using again by (simp add: resolve)
  moreover have "resolve path = resolve path' \<longleftrightarrow> parts path = parts path'"
    by (metis again resolve)
  moreover have "starts_with ''/'' (resolve path)"
    by (simp add: resolve starts_with_def)
  ultimately show ?thesis
    by (simp add: parts_def)
qed

end
