(* ===== verification/Fuse_Inodes.thy ===== *)
theory Fuse_Inodes
  imports Fuse_Frontend
begin

text \<open>
  The inode table of the FUSE frontend. The table meets the contract \<open>handle_table\<close> (inode 1,
  the root, is pinned); every operation but a rename acts on it as a sequence of allocations
  and drops, so an inode number means one path for as long as the kernel holds it. Inode
  numbers come from a 64-bit counter: the statements ask that fewer critical sections are
  executed than the counter has values left.
\<close>

subsection \<open>Serving requests\<close>

text \<open>The FUSE session serves the kernel's requests one after the other.\<close>

fun fuse_serve ::
    "fuse_env \<Rightarrow> 'w router \<Rightarrow> fuse_request list \<Rightarrow> fuse_state \<Rightarrow> 'w \<Rightarrow> fuse_reply list \<times> fuse_state \<times> 'w" where
  "fuse_serve env rt [] s w = ([], s, w)"
| "fuse_serve env rt (q # qs) s w =
     (case run rt (fuse_handler env q) s w of
        (Done r, out, s', w') \<Rightarrow>
          (let (rs, s'', w'') = fuse_serve env rt qs s' w' in (r # rs, s'', w''))
      | (_, out, s', w') \<Rightarrow> ([], s', w'))"

text \<open>The number of critical sections a task executes.\<close>

primrec sections :: "'w router \<Rightarrow> ('s, 'a) io \<Rightarrow> 's \<Rightarrow> 'w \<Rightarrow> nat" where
  "sections rt (Ret x) s w = 0"
| "sections rt (Fail e) s w = 0"
| "sections rt Panic s w = 0"
| "sections rt (Atom u c) s w = Suc (sections rt (c s) (u s) w)"
| "sections rt (Call op p d c) s w = sections rt (c (fst (rt w op p d))) s (snd (rt w op p d))"
| "sections rt (Send bs m) s w = sections rt m s w"

fun serve_sections :: "fuse_env \<Rightarrow> 'w router \<Rightarrow> fuse_request list \<Rightarrow> fuse_state \<Rightarrow> 'w \<Rightarrow> nat" where
  "serve_sections env rt [] s w = 0"
| "serve_sections env rt (q # qs) s w =
     (case run rt (fuse_handler env q) s w of
        (_, _, s', w') \<Rightarrow> sections rt (fuse_handler env q) s w + serve_sections env rt qs s' w')"

subsection \<open>The table\<close>

definition inode_add :: "string \<Rightarrow> fuse_state \<Rightarrow> u64 \<times> fuse_state" where
  "inode_add path s = (let (ino, s1) = next_ino s in (ino, record_path ino path s1))"

definition inode_inv :: "fuse_state \<Rightarrow> bool" where
  "inode_inv s =
     (1 < ino_next s \<and> distinct (map fst (ino_paths s)) \<and> (\<forall>i \<in> hm_keys (ino_paths s). i < ino_next s))"

definition inode_room :: "fuse_state \<Rightarrow> nat" where
  "inode_room s = 18446744073709551615 - unat (ino_next s)"

lemma unat_Suc_u64: "unat (n :: u64) < 18446744073709551615 \<Longrightarrow> unat (n + 1) = Suc (unat n)"
  using unat_word64 [of "Suc (unat n)"] by (simp add: add.commute)

lemma path_for_record [simp, fuse_simps]:
  "path_for (record_path ino path s) = (path_for s)(ino \<mapsto> path)"
  by (rule ext) (simp add: path_for_def record_path_def)

lemma path_for_forget [simp, fuse_simps]:
  "path_for (fuse_forget ino s) = (if ino = 1 then path_for s else (path_for s)(ino := None))"
proof -
  have "map_of (filter (\<lambda>(i, p). i \<noteq> ino) xs) = (map_of xs)(ino := None)" for xs :: "(u64 \<times> string) list"
    by (induction xs) (auto simp: fun_eq_iff)
  then show ?thesis
    by (auto simp: path_for_def fuse_forget_def fun_eq_iff)
qed

interpretation fuse_inodes: handle_table inode_add path_for fuse_forget inode_inv inode_room
  "\<lambda>s. {i. i < ino_next s}" "\<lambda>i. i = 1"
proof
  fix s s' v h
  assume inv: "inode_inv s" and room: "0 < inode_room s" and add: "inode_add v s = (h, s')"
  then have s': "h = ino_next s" "s' = record_path h v (s\<lparr>ino_next := h + 1\<rparr>)"
    by (auto simp: inode_add_def next_ino_def)
  have n: "unat (h + 1) = Suc (unat h)"
    using room s'(1) by (intro unat_Suc_u64) (simp add: inode_room_def)
  show "inode_inv s' \<and> inode_room s = Suc (inode_room s')"
    using inv room n
    by (auto simp: s' inode_inv_def inode_room_def record_path_def word_less_nat_alt)
  show "h \<notin> {i. i < ino_next s} \<and> {i. i < ino_next s'} = insert h {i. i < ino_next s}"
    using n by (auto simp: s' record_path_def word_less_nat_alt less_Suc_eq dest: word_unat_eq_iff [THEN iffD2])
  show "path_for s' = (path_for s)(h \<mapsto> v)"
    by (simp add: s') (simp add: path_for_def fun_eq_iff)
next
  fix s h
  assume "inode_inv s"
  then show "inode_inv (fuse_forget h s) \<and> inode_room (fuse_forget h s) = inode_room s \<and>
      {i. i < ino_next (fuse_forget h s)} = {i. i < ino_next s}"
    by (auto simp: inode_inv_def inode_room_def fuse_forget_def hm_keys_def distinct_map_filter)
next
  fix s h
  show "path_for (fuse_forget h s) = (if h = 1 then path_for s else (path_for s)(h := None))"
    by simp
next
  fix s h
  assume "inode_inv s" and "path_for s h \<noteq> None"
  then show "h \<in> {i. i < ino_next s}"
    by (force simp: path_for_def inode_inv_def hm_keys_def dest: map_of_SomeD)
qed

subsection \<open>Operations as sequences of allocations\<close>

text \<open>Programs that touch the inode table by allocating only.\<close>

inductive allocates :: "fprog \<Rightarrow> bool" where
  ret: "allocates (Ret r)"
| call: "(\<And>r. allocates (c r)) \<Longrightarrow> allocates (Call op p d c)"
| look: "(\<And>s. allocates (c s)) \<Longrightarrow> allocates (Atom (\<lambda>s. s) c)"
| alloc: "(\<And>i. allocates (k i)) \<Longrightarrow> allocates (new_inode p k)"
| cache: "(\<And>s. allocates (c s)) \<Longrightarrow> allocates (Atom (\<lambda>s. s\<lparr>size_cache := f s\<rparr>) c)"

lemma allocates_inspect: "(\<And>r. allocates (k r)) \<Longrightarrow> allocates (inspect f k)"
  by (simp add: inspect_def allocates.look)

lemma allocates_cache:
  "(\<And>u. allocates (k u)) \<Longrightarrow> allocates (locked (\<lambda>s. ((), s\<lparr>size_cache := f s\<rparr>)) k)"
  by (simp add: locked_def allocates.cache)

lemma allocates_send_req: "(\<And>r. allocates (k r)) \<Longrightarrow> allocates (send_req op p d k)"
  by (simp add: send_req_def allocates.call)

lemma allocates_with:
  "(\<And>p. allocates (k p)) \<Longrightarrow> allocates (with_path ino k)"
  "(\<And>p. allocates (k p)) \<Longrightarrow> allocates (with_parent ino k)"
  by (auto simp: with_path_def with_parent_def intro!: allocates_inspect allocates.ret split: option.split)

lemma allocates_add_entries: "(\<And>v. allocates (k v)) \<Longrightarrow> allocates (add_entries path names v k)"
  by (induction path names v k rule: add_entries.induct) (auto simp: Let_def intro: allocates.alloc)

lemmas fuse_op_defs =
  fuse_lookup_def fuse_getattr_def fuse_setattr_def fuse_readdir_def fuse_opendir_def
  fuse_releasedir_def fuse_mkdir_def fuse_remove_def fuse_unlink_def fuse_rmdir_def fuse_read_def
  fuse_write_def fuse_release_def fuse_create_def

lemma allocates_handler:
  assumes "\<And>i. q \<noteq> FForget i" and "\<And>a b c d. q \<noteq> FRename a b c d"
  shows "allocates (fuse_handler env q)"
  using assms
  by (cases q)
    (auto simp: fuse_op_defs Let_def split: sum.split option.split prod.split
      intro!: allocates.ret allocates.alloc allocates_inspect allocates_cache allocates_send_req allocates_with
        allocates_add_entries)

lemma run_new_inode:
  "run rt (new_inode p k) s w = run rt (k (fst (inode_add p s))) (snd (inode_add p s)) w"
  "sections rt (new_inode p k) s w =
     Suc (Suc (sections rt (k (fst (inode_add p s))) (snd (inode_add p s)) w))"
  by (simp_all add: new_inode_def locked_def inode_add_def next_ino_def)

lemma table_run_cache:
  "table_run inode_add fuse_forget ops (s\<lparr>size_cache := c\<rparr>) =
     (let (hs, t) = table_run inode_add fuse_forget ops s in (hs, t\<lparr>size_cache := c\<rparr>))"
proof (induction ops arbitrary: s)
  case (Cons op ops)
  show ?case
  proof (cases op)
    case (Add p)
    have "inode_add p (s\<lparr>size_cache := c\<rparr>) = (fst (inode_add p s), (snd (inode_add p s))\<lparr>size_cache := c\<rparr>)"
      by (simp add: inode_add_def next_ino_def record_path_def)
    then show ?thesis
      using Add Cons.IH by (simp add: Let_def split: prod.split)
  next
    case (Drop i)
    have "fuse_forget i (s\<lparr>size_cache := c\<rparr>) = (fuse_forget i s)\<lparr>size_cache := c\<rparr>"
      by (simp add: fuse_forget_def)
    then show ?thesis
      using Drop Cons.IH by simp
  qed
qed simp

text \<open>What a program did to the table: \<open>t\<close> is the table after the operations \<open>ops\<close> on that of \<open>s\<close>.\<close>

definition inode_ops :: "(string, u64) table_op list \<Rightarrow> fuse_state \<Rightarrow> fuse_state \<Rightarrow> bool" where
  "inode_ops ops s t =
     (ino_next (snd (table_run inode_add fuse_forget ops s)) = ino_next t \<and>
      ino_paths (snd (table_run inode_add fuse_forget ops s)) = ino_paths t)"

lemma inode_ops_Nil: "inode_ops [] s s"
  by (simp add: inode_ops_def)

lemma inode_ops_Add: "inode_ops ops (snd (inode_add p s)) t \<Longrightarrow> inode_ops (Add p # ops) s t"
  by (auto simp: inode_ops_def Let_def split: prod.split)

lemma inode_ops_Drop: "inode_ops ops (fuse_forget i s) t \<Longrightarrow> inode_ops (Drop i # ops) s t"
  by (simp add: inode_ops_def)

lemma inode_ops_cache: "inode_ops ops (s\<lparr>size_cache := c\<rparr>) t \<longleftrightarrow> inode_ops ops s t"
  by (simp add: inode_ops_def table_run_cache Let_def split: prod.split)

lemma allocates_run:
  "allocates m \<Longrightarrow> \<exists>r s' w' ps. run rt m s w = (Done r, [], s', w') \<and>
     inode_ops (map Add ps) s s' \<and> length ps \<le> sections rt m s w"
proof (induction m arbitrary: s w rule: allocates.induct)
  case (ret r)
  have "inode_ops (map Add []) s s"
    by (simp add: inode_ops_Nil)
  then show ?case by fastforce
next
  case (call c op p d)
  from call.IH [of "fst (rt w op p d)" s "snd (rt w op p d)"] show ?case by simp
next
  case (look c)
  from look.IH [of s s w] show ?case by (auto intro: le_SucI)
next
  case (alloc k p)
  obtain r s' w' ps where ih: "run rt (k (fst (inode_add p s))) (snd (inode_add p s)) w = (Done r, [], s', w')"
    "inode_ops (map Add ps) (snd (inode_add p s)) s'"
    "length ps \<le> sections rt (k (fst (inode_add p s))) (snd (inode_add p s)) w"
    using alloc.IH by blast
  then have "inode_ops (map Add (p # ps)) s s'"
    by (simp add: inode_ops_Add)
  with ih(1,3) show ?case
    unfolding run_new_inode by (metis Suc_le_mono le_SucI length_Cons)
next
  case (cache c f)
  from cache.IH [of s "s\<lparr>size_cache := f s\<rparr>" w] show ?case
    by (auto simp: inode_ops_cache intro: le_SucI)
qed

lemma request_ops:
  assumes "\<And>a b c d. q \<noteq> FRename a b c d"
  obtains r s' w' ops where "run rt (fuse_handler env q) s w = (Done r, [], s', w')"
    and "inode_ops ops s s'" and "adds ops \<le> sections rt (fuse_handler env q) s w"
    and "\<And>i. Drop i \<in> set ops \<Longrightarrow> q = FForget i"
proof (cases "\<exists>i. q = FForget i")
  case True
  then obtain i where q: "q = FForget i" by blast
  have "inode_ops [Drop i] s (fuse_forget i s)"
    by (simp add: inode_ops_Drop inode_ops_Nil)
  with q that [of RNone "fuse_forget i s" w "[Drop i]"] show ?thesis
    by (simp add: locked_def)
next
  case False
  have adds: "adds (map Add ps) = length ps" for ps :: "string list"
    by (induction ps) auto
  from False assms have "allocates (fuse_handler env q)"
    by (intro allocates_handler) auto
  then obtain r s' w' ps where "run rt (fuse_handler env q) s w = (Done r, [], s', w')"
    "inode_ops (map Add ps) s s'" "length ps \<le> sections rt (fuse_handler env q) s w"
    using allocates_run [of _ rt s w] by blast
  then show ?thesis
    by (intro that [of r s' w' "map Add ps"]) (auto simp: adds)
qed

subsection \<open>Renames\<close>

text \<open>A hash map is iterated over its entries, each once.\<close>

definition fair_order :: "fuse_env \<Rightarrow> bool" where
  "fair_order env = (\<forall>xs. mset (fv_order env xs) = mset xs)"

lemma fair_order_set: "fair_order env \<Longrightarrow> set (fv_order env xs) = set xs"
  by (metis fair_order_def set_mset_mset)

lemma run_send_req [fuse_simps]:
  "run rt (send_req op p d k) s w =
     run rt (k (case fst (rt w op p d) of
         RouterGone \<Rightarrow> Inl ''router channel closed''
       | HandlerGone \<Rightarrow> Inl ''handler did not reply''
       | Replied (Inl e) \<Rightarrow> Inl e
       | Replied (Inr resp) \<Rightarrow> Inr (resp_data resp))) s (snd (rt w op p d))"
  by (simp add: send_req_def)

lemma run_rename_inode:
  assumes "fair_order env"
  shows "\<exists>s'. run rt (rename_inode env old new) s w = (Done ROk, [], s', w) \<and>
    (if old \<in> snd ` set (ino_paths s)
     then \<exists>i. (i, old) \<in> set (ino_paths s) \<and> s' = record_path i new s else s' = s)"
proof (cases "find (\<lambda>(i, p). p = old) (fv_order env (ino_paths s))")
  case None
  then have "old \<notin> snd ` set (ino_paths s)"
    using fair_order_set [OF assms] by (auto simp: find_None_iff)
  with None show ?thesis
    by (simp add: rename_inode_def io_simps)
next
  case (Some x)
  then have "(fst x, old) \<in> set (ino_paths s)"
    using fair_order_set [OF assms] by (auto dest!: find_SomeD)
  with Some show ?thesis
    by (auto simp: rename_inode_def io_simps intro: rev_image_eqI split: prod.splits)
qed

lemma rename_run:
  assumes "fair_order env"
  shows "\<exists>r s' w'. run rt (fuse_rename env a b c d) s w = (Done r, [], s', w') \<and>
    (s' = s \<or> (\<exists>i p new. (i, p) \<in> set (ino_paths s) \<and> s' = record_path i new s))"
proof -
  define old where "old = entry_path (case path_for s a of Some p \<Rightarrow> p | None \<Rightarrow> ''/'') (from_utf8_lossy b)"
  define new where "new = entry_path (case path_for s c of Some p \<Rightarrow> p | None \<Rightarrow> ''/'') (from_utf8_lossy d)"
  note ri = run_rename_inode [OF assms, of rt old new s "snd (rt w Rename old (as_bytes new))"]
  show ?thesis
  proof (cases "\<exists>resp. fst (rt w Rename old (as_bytes new)) = Replied (Inr resp)")
    case True
    then have "run rt (fuse_rename env a b c d) s w =
        run rt (rename_inode env old new) s (snd (rt w Rename old (as_bytes new)))"
      by (auto simp: fuse_rename_def with_parent_def io_simps fuse_simps Let_def old_def new_def)
    with ri show ?thesis by (auto split: if_splits)
  next
    case False
    then have "run rt (fuse_rename env a b c d) s w =
        (Done (RErr EIO), [], s, snd (rt w Rename old (as_bytes new)))"
      by (auto simp: fuse_rename_def with_parent_def io_simps fuse_simps Let_def old_def new_def
          split: router_result.splits sum.splits)
    then show ?thesis by blast
  qed
qed

subsection \<open>Sequences of requests\<close>

lemma record_path_inv:
  "inode_inv s \<Longrightarrow> (i, p) \<in> set (ino_paths s) \<Longrightarrow>
    inode_inv (record_path i new s) \<and> inode_room (record_path i new s) = inode_room s"
  by (auto simp: inode_inv_def inode_room_def record_path_def) (metis fst_conv hm_keys_def imageI)

lemma request_keeps:
  assumes "fair_order env" and "inode_inv s"
    and "sections rt (fuse_handler env q) s w \<le> inode_room s"
  obtains r s' w' where "run rt (fuse_handler env q) s w = (Done r, [], s', w')" and "inode_inv s'"
    and "inode_room s \<le> inode_room s' + sections rt (fuse_handler env q) s w"
    and "\<And>i p. path_for s i = Some p \<Longrightarrow> q \<noteq> FForget i \<or> i = 1 \<Longrightarrow> (\<And>a b c d. q \<noteq> FRename a b c d) \<Longrightarrow>
      path_for s' i = Some p"
proof (cases "\<exists>a b c d. q = FRename a b c d")
  case True
  then obtain a b c d where q: "q = FRename a b c d" by blast
  obtain r s' w' where r: "run rt (fuse_rename env a b c d) s w = (Done r, [], s', w')"
    "s' = s \<or> (\<exists>i p new. (i, p) \<in> set (ino_paths s) \<and> s' = record_path i new s)"
    using rename_run [OF assms(1)] by metis
  then have "inode_inv s' \<and> inode_room s' = inode_room s"
    using assms(2) record_path_inv by auto
  with r(1) q show ?thesis
    by (intro that [of r s' w']) auto
next
  case False
  then obtain r s' w' ops where r: "run rt (fuse_handler env q) s w = (Done r, [], s', w')"
    and ops: "inode_ops ops s s'" "adds ops \<le> sections rt (fuse_handler env q) s w"
    and drop: "\<And>i. Drop i \<in> set ops \<Longrightarrow> q = FForget i"
    using request_ops [of q rt env s w] by metis
  obtain hs t where t: "table_run inode_add fuse_forget ops s = (hs, t)"
    by (cases "table_run inode_add fuse_forget ops s")
  then have s': "ino_next s' = ino_next t" "ino_paths s' = ino_paths t"
    using ops(1) by (simp_all add: inode_ops_def)
  have room: "adds ops \<le> inode_room s"
    using ops(2) assms(3) by simp
  have "inode_inv s' \<and> inode_room s \<le> inode_room s' + sections rt (fuse_handler env q) s w"
    using fuse_inodes.run_inv [OF assms(2) room t] fuse_inodes.run_room [OF assms(2) room t] s' ops(2)
    by (simp add: inode_inv_def inode_room_def)
  moreover have "path_for s' i = Some p" if "path_for s i = Some p" "q \<noteq> FForget i \<or> i = 1" for i p
    using fuse_inodes.run_keeps [OF assms(2) room t that(1)] drop that(2) s' by (auto simp: path_for_def)
  ultimately show ?thesis
    using that [of r s' w'] r by blast
qed

lemma serve_keeps:
  assumes "fair_order env" and "inode_inv s" and "serve_sections env rt qs s w \<le> inode_room s"
    and "fuse_serve env rt qs s w = (rs, s', w')"
  shows "inode_inv s' \<and> length rs = length qs \<and> inode_room s \<le> inode_room s' + serve_sections env rt qs s w \<and>
    (\<forall>i p. path_for s i = Some p \<longrightarrow> FForget i \<notin> set qs \<or> i = 1 \<longrightarrow>
       (\<forall>a b c d. FRename a b c d \<notin> set qs) \<longrightarrow> path_for s' i = Some p)"
  using assms(2-4)
proof (induction qs arbitrary: s w rs)
  case (Cons q qs)
  have "sections rt (fuse_handler env q) s w \<le> inode_room s"
    using Cons.prems(2) by (auto split: prod.splits)
  then obtain r s1 w1 where r: "run rt (fuse_handler env q) s w = (Done r, [], s1, w1)" and i1: "inode_inv s1"
    and room: "inode_room s \<le> inode_room s1 + sections rt (fuse_handler env q) s w"
    and keep: "\<And>i p. path_for s i = Some p \<Longrightarrow> q \<noteq> FForget i \<or> i = 1 \<Longrightarrow>
      (\<And>a b c d. q \<noteq> FRename a b c d) \<Longrightarrow> path_for s1 i = Some p"
    using request_keeps [OF assms(1) Cons.prems(1), of rt q w] by metis
  obtain rs1 where rs1: "fuse_serve env rt qs s1 w1 = (rs1, s', w')" "rs = r # rs1"
    using Cons.prems(3) r by (auto split: prod.splits)
  have "serve_sections env rt qs s1 w1 \<le> inode_room s1"
    using Cons.prems(2) room r by simp
  note ih = Cons.IH [OF i1 this rs1(1)]
  have "path_for s' i = Some p"
    if "path_for s i = Some p" "FForget i \<notin> set (q # qs) \<or> i = 1" "\<forall>a b c d. FRename a b c d \<notin> set (q # qs)"
    for i p
  proof -
    have "path_for s1 i = Some p"
      using that by (intro keep) auto
    with ih that show ?thesis by auto
  qed
  with ih room r rs1(2) show ?case by auto
qed simp

end
