(* ===== verification/Fuse_Session.thy ===== *)
theory Fuse_Session
  imports Fuse_Inodes
begin

text \<open>
  What the FUSE frontend promises to the kernel: inode numbers keep their paths, attribute
  texts are read back as they were printed, reads tile the content, a directory is listed
  completely over any number of pages, requests on unknown inodes fail without reaching a
  handler. Also what it does not promise: a rename moves one of the inodes of a path, a write
  records the length of its last chunk as the size of the file, and an operation below an
  unknown directory acts on the root.
\<close>

subsection \<open>Inodes\<close>

lemma serve_sections_append:
  "fuse_serve env rt qs1 s w = (rs, s1, w1) \<Longrightarrow> length rs = length qs1 \<Longrightarrow>
    serve_sections env rt (qs1 @ qs2) s w = serve_sections env rt qs1 s w + serve_sections env rt qs2 s1 w1"
proof (induction qs1 arbitrary: s w rs)
  case (Cons q qs1)
  obtain r out t v where q: "run rt (fuse_handler env q) s w = (r, out, t, v)"
    by (cases "run rt (fuse_handler env q) s w") auto
  with Cons.prems obtain x rs1 where "r = Done x" "fuse_serve env rt qs1 t v = (rs1, s1, w1)" "rs = x # rs1"
    by (cases r) (auto split: prod.splits)
  with q Cons.IH [of t v rs1] Cons.prems(2) show ?case
    by simp
qed simp

lemma serve_sections_mono: "serve_sections env rt qs1 s w \<le> serve_sections env rt (qs1 @ qs2) s w"
  by (induction qs1 arbitrary: s w) (simp_all split: prod.split)

lemma fuse_new_inv: "inode_inv fuse_new" "inode_room fuse_new = 18446744073709551613"
  by (simp_all add: inode_inv_def inode_room_def fuse_new_def hm_keys_def)

text \<open>An environment to evaluate with: a hash map in insertion order, a buffer for three entries.\<close>

definition demo_env :: fuse_env where
  "demo_env = \<lparr>fv_order = (\<lambda>xs. xs), fv_full = (\<lambda>acc e. 3 \<le> length acc)\<rparr>"

lemma demo_env_fair: "fair_order demo_env"
  by (simp add: fair_order_def demo_env_def)

definition answer_with :: "bytes \<Rightarrow> router_result" where
  "answer_with d = Replied (Inr \<lparr>resp_data = d, resp_matched_pattern = None, resp_has_children = False\<rparr>)"

text \<open>
  C19: An inode number keeps its path. Start with a new mount, serve any requests (renames and
  forgets among them); if afterwards the inode \<open>ino\<close> stands for \<open>path\<close>, it does so after any
  further requests in which it is not forgotten and nothing is renamed; every request is
  answered, and the next number to be handed out is not \<open>ino\<close>. The counter does not wrap as
  long as fewer than \<open>2 ^ 64 - 2\<close> critical sections are executed.
\<close>

theorem fuse_inode_keeps_path:
  assumes "fair_order env" and "fuse_serve env rt qs1 fuse_new w = (rs1, s1, w1)"
    and "path_for s1 ino = Some path" and "fuse_serve env rt qs2 s1 w1 = (rs2, s2, w2)"
    and "FForget ino \<notin> set qs2 \<or> ino = 1" and "\<forall>a b c d. FRename a b c d \<notin> set qs2"
    and "serve_sections env rt (qs1 @ qs2) fuse_new w < 2 ^ 64 - 2"
  shows "path_for s2 ino = Some path \<and> length rs1 = length qs1 \<and> length rs2 = length qs2 \<and>
    fst (next_ino s2) \<noteq> ino"
proof -
  have room: "serve_sections env rt qs1 fuse_new w \<le> inode_room fuse_new"
  proof -
    have "serve_sections env rt qs1 fuse_new w \<le> serve_sections env rt (qs1 @ qs2) fuse_new w"
      by (rule serve_sections_mono)
    with assms(7) show ?thesis by (simp add: fuse_new_inv)
  qed
  note k1 = serve_keeps [OF assms(1) fuse_new_inv(1) room assms(2)]
  then have "serve_sections env rt qs2 s1 w1 \<le> inode_room s1"
    using serve_sections_append [OF assms(2), of qs2] assms(7) by (simp add: fuse_new_inv)
  note k2 = serve_keeps [OF assms(1) _ this assms(4)]
  have "path_for s2 ino = Some path"
    using k1 k2 assms(3,5,6) by blast
  moreover from this k1 k2 have "ino < ino_next s2"
    using fuse_inodes.get_used [of s2 ino] by simp
  ultimately show ?thesis
    using k1 k2 by (auto simp: next_ino_def)
qed

lemma demo_names:
  "from_utf8_lossy (as_bytes ''a'') = ''a''" "from_utf8_lossy (as_bytes ''b'') = ''b''"
  "entry_path ''/'' ''a'' = ''/a''" "entry_path ''/'' ''b'' = ''/b''"
proof -
  have "utf8_ok (as_bytes ''a'')" "utf8_ok (as_bytes ''b'')"
    by (rule utf8_ok_ascii, simp add: as_bytes_def byte_of_char_def)+
  then show "from_utf8_lossy (as_bytes ''a'') = ''a''" "from_utf8_lossy (as_bytes ''b'') = ''b''"
    by (simp_all only: from_utf8_lossy_as_bytes)
qed (simp_all add: entry_path_def trim_end_char_def)

lemma demo_created:
  "fuse_serve env rt [FCreate 1 (as_bytes ''a'')] fuse_new w =
    ([RCreated (make_attr 2 0 False)], \<lparr>ino_next = 3, ino_paths = [(1, ''/''), (2, ''/a'')], size_cache = Map.empty\<rparr>, w)"
  by (simp add: fuse_create_def with_parent_def new_inode_def io_simps demo_names fuse_new_def path_for_def
      next_ino_def record_path_def)

theorem fuse_inode_keeps_path_witness:
  "(let rt = (\<lambda>w op p d. (answer_with [7], w));
        (rs1, s1, w1) = fuse_serve demo_env rt [FCreate 1 (as_bytes ''a'')] fuse_new ();
        (rs2, s2, w2) = fuse_serve demo_env rt [FCreate 1 (as_bytes ''b''), FRead 2 0 4] s1 w1 in
    path_for s2 2 = Some ''/a'' \<and> length rs1 = 1 \<and> length rs2 = 2 \<and> fst (next_ino s2) \<noteq> 2)"
proof -
  let ?rt = "\<lambda>(w :: unit) (op :: fs_operation) (p :: string) (d :: bytes). (answer_with [7], w)"
  obtain rs2 s2 w2 where s: "fuse_serve demo_env ?rt [FCreate 1 (as_bytes ''b''), FRead 2 0 4]
      \<lparr>ino_next = 3, ino_paths = [(1, ''/''), (2, ''/a'')], size_cache = Map.empty\<rparr> () = (rs2, s2, w2)"
    by (metis prod_cases3)
  have "path_for s2 2 = Some ''/a'' \<and> length [RCreated (make_attr 2 0 False)] = length [FCreate 1 (as_bytes ''a'')] \<and>
      length rs2 = length [FCreate 1 (as_bytes ''b''), FRead 2 0 4] \<and> fst (next_ino s2) \<noteq> 2"
    by (rule fuse_inode_keeps_path [OF demo_env_fair demo_created _ s])
      (simp_all add: path_for_def fuse_create_def fuse_read_def with_parent_def with_path_def new_inode_def
        locked_def inspect_def send_req_def demo_names fuse_new_def next_ino_def record_path_def answer_with_def)
  then show ?thesis
    unfolding Let_def demo_created prod.case s by simp
qed

text \<open>
  C30: A rename moves one inode. When the handler has renamed \<open>old\<close> to \<open>new\<close>, exactly one of the
  inodes that stood for \<open>old\<close> stands for \<open>new\<close>; the table is otherwise unchanged. Every lookup of
  a path makes a further inode for it, so the other inodes of a path that was looked up more
  than once still stand for the old path.
\<close>

theorem fuse_rename_moves_one_inode:
  assumes "fair_order env" and "inode_inv s"
    and "path_for s parent = Some dir" and "path_for s newparent = Some newdir"
    and "old = entry_path dir (from_utf8_lossy name)" and "new = entry_path newdir (from_utf8_lossy newname)"
    and "rt w Rename old (as_bytes new) = (Replied (Inr resp), w')" and "path_for s i = Some old"
  shows "\<exists>j s'. run rt (fuse_handler env (FRename parent name newparent newname)) s w = (Done ROk, [], s', w') \<and>
    path_for s j = Some old \<and> path_for s' = (path_for s)(j \<mapsto> new) \<and> ino_next s' = ino_next s"
proof -
  have "(i, old) \<in> set (ino_paths s)"
    using assms(8) by (simp add: path_for_def map_of_SomeD)
  then have "old \<in> snd ` set (ino_paths s)"
    by force
  then obtain j where j: "(j, old) \<in> set (ino_paths s)"
    "run rt (rename_inode env old new) s w' = (Done ROk, [], record_path j new s, w')"
    using run_rename_inode [OF assms(1), of rt old new s w'] by auto
  have "run rt (fuse_handler env (FRename parent name newparent newname)) s w =
      run rt (rename_inode env old new) s w'"
    using assms(3-7) by (simp add: fuse_rename_def with_parent_def io_simps fuse_simps Let_def)
  moreover have "path_for s j = Some old"
    using j(1) assms(2) by (simp add: path_for_def inode_inv_def)
  ultimately show ?thesis
    using j(2) by (intro exI [of _ j] exI [of _ "record_path j new s"]) (simp add: record_path_def path_for_def fun_eq_iff)
qed

theorem fuse_rename_moves_one_inode_witness:
  "\<exists>s'. run (\<lambda>w op p d. (answer_with [], w))
      (fuse_handler demo_env (FRename 1 (as_bytes ''a'') 1 (as_bytes ''b'')))
      \<lparr>ino_next = 4, ino_paths = [(1, ''/''), (2, ''/a''), (3, ''/a'')], size_cache = Map.empty\<rparr> () = (Done ROk, [], s', ()) \<and>
    (path_for s' 2 = Some ''/b'' \<and> path_for s' 3 = Some ''/a'' \<or> path_for s' 2 = Some ''/a'' \<and> path_for s' 3 = Some ''/b'')"
proof -
  let ?s = "\<lparr>ino_next = 4, ino_paths = [(1, ''/''), (2, ''/a''), (3, ''/a'')], size_cache = Map.empty\<rparr>"
  have "\<exists>j s'. run (\<lambda>w op p d. (answer_with [], w))
      (fuse_handler demo_env (FRename 1 (as_bytes ''a'') 1 (as_bytes ''b''))) ?s () = (Done ROk, [], s', ()) \<and>
    path_for ?s j = Some ''/a'' \<and> path_for s' = (path_for ?s)(j \<mapsto> ''/b'') \<and> ino_next s' = ino_next ?s"
    by (rule fuse_rename_moves_one_inode [OF demo_env_fair, where dir = "''/''" and newdir = "''/''" and i = 2])
      (simp_all add: inode_inv_def hm_keys_def path_for_def demo_names answer_with_def)
  then obtain j s' where "run (\<lambda>w op p d. (answer_with [], w))
      (fuse_handler demo_env (FRename 1 (as_bytes ''a'') 1 (as_bytes ''b''))) ?s () = (Done ROk, [], s', ())"
    "path_for ?s j = Some ''/a''" "path_for s' = (path_for ?s)(j \<mapsto> ''/b'')"
    by blast
  moreover from this(2) have "j = 2 \<or> j = 3"
    by (auto simp: path_for_def split: if_splits)
  ultimately show ?thesis
    by (intro exI [of _ s']) (auto simp: path_for_def)
qed

text \<open>The inode a request is about, for the requests that look its path up and need it.\<close>

fun inode_target :: "fuse_request \<Rightarrow> u64 option" where
  "inode_target (FGetattr ino) = (if ino = 1 then None else Some ino)"
| "inode_target (FSetattr ino a) = Some ino"
| "inode_target (FReaddir ino offset) = (if ino = 1 then None else Some ino)"
| "inode_target (FRead ino offset sz) = Some ino"
| "inode_target (FWrite ino offset data) = Some ino"
| "inode_target (FRelease ino) = Some ino"
| "inode_target (FOpendir ino) = Some ino"
| "inode_target (FReleasedir ino) = Some ino"
| "inode_target q = None"

text \<open>
  Unknown inodes. A request about an inode that is not in the table (never handed out, or
  forgotten) is answered \<open>ENOENT\<close>, without a call of a handler and without a change of state. A
  request below an unknown directory, however, is carried out below the root: \<open>unlink\<close> of \<open>name\<close>
  in a forgotten directory removes the entry \<open>name\<close> of the root.
\<close>

theorem fuse_unknown_inode:
  assumes "path_for s ino = None" and "path_for s 1 = Some ''/''"
  shows "(\<forall>q. inode_target q = Some ino \<longrightarrow>
      run rt (fuse_handler env q) s w = (Done (RErr ENOENT), [], s, w)) \<and>
    (\<forall>f \<in> {FUnlink, FRmdir, FMkdir, FCreate}.
      run rt (fuse_handler env (f ino name)) s w = run rt (fuse_handler env (f 1 name)) s w)"
proof -
  have "run rt (with_path ino k) s w = (Done (RErr ENOENT), [], s, w)" for k
    using assms(1) by (simp add: with_path_def io_simps)
  then have "run rt (fuse_handler env q) s w = (Done (RErr ENOENT), [], s, w)" if "inode_target q = Some ino" for q
    using that
    by (cases q) (auto simp: fuse_getattr_def fuse_setattr_def fuse_readdir_def fuse_read_def fuse_write_def
        fuse_release_def fuse_opendir_def fuse_releasedir_def Let_def split: if_splits)
  moreover have "run rt (with_parent ino k) s w = run rt (with_parent 1 k) s w" for k
    using assms by (simp add: with_parent_def io_simps)
  ultimately show ?thesis
    by (auto simp: fuse_unlink_def fuse_rmdir_def fuse_remove_def fuse_mkdir_def fuse_create_def)
qed

theorem fuse_unknown_inode_witness:
  "run (\<lambda>w op p d. (answer_with [], w @ [(op, p)])) (fuse_handler demo_env (FRead 9 0 1)) fuse_new [] =
     (Done (RErr ENOENT), [], fuse_new, []) \<and>
   run (\<lambda>w op p d. (answer_with [], w @ [(op, p)])) (fuse_handler demo_env (FUnlink 9 (as_bytes ''a''))) fuse_new [] =
     (Done ROk, [], fuse_new, [(Unlink, ''/a'')])"
proof -
  have "path_for fuse_new 9 = None" "path_for fuse_new 1 = Some ''/''"
    by (simp_all add: path_for_def fuse_new_def)
  note u = fuse_unknown_inode [OF this, of "\<lambda>w op p d. (answer_with [], w @ [(op, p)])" demo_env "[]" "as_bytes ''a''"]
  have "run (\<lambda>w op p d. (answer_with [], w @ [(op, p)])) (fuse_handler demo_env (FRead 9 0 1)) fuse_new [] =
     (Done (RErr ENOENT), [], fuse_new, [])"
    by (rule u [THEN conjunct1, rule_format]) simp
  moreover from u have "run (\<lambda>w op p d. (answer_with [], w @ [(op, p)])) (fuse_unlink 9 (as_bytes ''a'')) fuse_new [] =
      run (\<lambda>w op p d. (answer_with [], w @ [(op, p)])) (fuse_unlink 1 (as_bytes ''a'')) fuse_new []"
    by simp
  ultimately show ?thesis
    by (simp add: fuse_unlink_def fuse_remove_def with_parent_def io_simps fuse_simps demo_names
        path_for_def fuse_new_def answer_with_def)
qed

subsection \<open>Attributes\<close>

text \<open>The text that a getattr handler returns for a kind and a size.\<close>

definition attr_text :: "string \<Rightarrow> u64 \<Rightarrow> string" where
  "attr_text kind sz = ''mode='' @ kind @ '' size='' @ show_nat (unat sz)"

lemma show_nat_graphic: "c \<in> set (show_nat n) \<Longrightarrow> is_graphic c"
  using show_base_digits [of c n] by (auto simp: show_nat_def is_ascii_digit_def is_graphic_def)

lemma trim_all_graphic: "\<forall>c \<in> set s. is_graphic c \<Longrightarrow> trim s = s"
proof (cases "s = []")
  case True
  have "ws_len seqs [] = 0" for seqs
    using ws_len_pos by blast
  with True show ?thesis
    by (simp add: trim_def trim_start_def trim_end_def trim_seqs.simps)
qed (simp add: trim_graphic)

lemma split_attr_text:
  assumes "\<forall>c \<in> set kind. is_graphic c"
  shows "split_whitespace (from_utf8_lossy (as_bytes (attr_text kind sz))) =
    [''mode='' @ kind, ''size='' @ show_nat (unat sz)]"
proof -
  have ascii: "byte_of_char c < 0x80" if "is_graphic c \<or> c = CHR '' ''" for c
    using that by (auto simp: word_less_nat_alt unat_byte_of_char is_graphic_def)
  have g: "\<forall>c \<in> set (''mode='' @ kind). is_graphic c" "\<forall>c \<in> set (''size='' @ show_nat (unat sz)). is_graphic c"
    using assms show_nat_graphic by (auto simp: is_graphic_def)
  have "\<forall>b \<in> set (as_bytes (attr_text kind sz)). b < 0x80"
    using g ascii by (auto simp: as_bytes_def attr_text_def is_graphic_def)
  then have "from_utf8_lossy (as_bytes (attr_text kind sz)) =
      (''mode='' @ kind) @ '' '' @ (''size='' @ show_nat (unat sz))"
    by (simp add: from_utf8_lossy_as_bytes utf8_ok_ascii) (simp add: attr_text_def)
  moreover have "split_whitespace (''size='' @ show_nat (unat sz)) = [''size='' @ show_nat (unat sz)]"
    using split_ws_word [OF g(2), of "[]" "[]"] by (simp add: split_whitespace_def)
  ultimately show ?thesis
    using split_whitespace_word [OF _ g(1)] by simp
qed

lemma parse_attr_text:
  assumes "\<forall>c \<in> set kind. is_graphic c"
  shows "parse_attr (as_bytes (attr_text kind sz)) = (kind = ''dir'' \<or> kind = ''directory'', sz)"
    and "parse_attr_size (as_bytes (attr_text kind sz)) = Some sz"
proof -
  have "parse_unsigned 64 (show_nat (unat sz)) = Some (unat sz)"
    using unat64_lt [of sz] by (intro parse_show_nat) simp
  moreover have "strip_prefix ''mode='' (''mode='' @ kind) = Some kind"
    "strip_prefix ''mode='' (''size='' @ t) = None" "strip_prefix ''size='' (''size='' @ t) = Some t"
    "strip_prefix ''size='' (''mode='' @ kind) = None" for t
    by (simp_all add: strip_prefix_def starts_with_def)
  ultimately show "parse_attr (as_bytes (attr_text kind sz)) = (kind = ''dir'' \<or> kind = ''directory'', sz)"
    "parse_attr_size (as_bytes (attr_text kind sz)) = Some sz"
    using assms by (simp_all only: parse_attr_def parse_attr_size_def split_attr_text attr_parts.simps
        attr_size_part.simps option.case trim_all_graphic prod.case option.map of_nat_unat ucast_id)
qed

text \<open>
  Attributes survive the round trip through text. If the getattr handler of a path returns
  \<open>mode=KIND size=N\<close>, for any printable word \<open>KIND\<close> and any 64-bit \<open>N\<close>, then \<open>getattr\<close> reports
  the size \<open>N\<close>, and a directory exactly if \<open>KIND\<close> is \<open>dir\<close> or \<open>directory\<close>, after that one call.
\<close>

theorem fuse_getattr_roundtrip:
  assumes "path_for s ino = Some path" and "ino \<noteq> 1" and "\<forall>c \<in> set kind. is_graphic c"
    and "rt w GetAttr path [] = (Replied (Inr resp), w')" and "resp_data resp = as_bytes (attr_text kind n)"
  shows "run rt (fuse_getattr ino) s w =
    (Done (RAttr (make_attr ino n (kind = ''dir'' \<or> kind = ''directory''))), [], s, w')"
proof -
  have "as_bytes (attr_text kind n) \<noteq> []"
    by (simp add: attr_text_def)
  then show ?thesis
    using assms(1,2,4,5) parse_attr_text [OF assms(3), of n]
    by (simp add: fuse_getattr_def with_path_def io_simps fuse_simps)
qed

theorem fuse_getattr_roundtrip_witness:
  "run (\<lambda>w op p d. (answer_with (as_bytes (attr_text ''directory'' 4096)), w)) (fuse_getattr 2)
     \<lparr>ino_next = 3, ino_paths = [(1, ''/''), (2, ''/a'')], size_cache = Map.empty\<rparr> () =
   (Done (RAttr (make_attr 2 4096 True)), [],
     \<lparr>ino_next = 3, ino_paths = [(1, ''/''), (2, ''/a'')], size_cache = Map.empty\<rparr>, ())"
  using fuse_getattr_roundtrip [where ino = 2 and kind = "''directory''" and path = "''/a''" and n = 4096 and
      s = "\<lparr>ino_next = 3, ino_paths = [(1, ''/''), (2, ''/a'')], size_cache = Map.empty\<rparr>" and
      rt = "\<lambda>w op p d. (answer_with (as_bytes (attr_text ''directory'' 4096)), w)" and w = "()"]
  by (simp add: path_for_def is_graphic_def answer_with_def)

subsection \<open>Reading and writing\<close>

lemma run_fuse_read:
  assumes "path_for s ino = Some path" and "rt w Read path [] = (Replied (Inr resp), w')"
    and "resp_data resp = content"
  shows "run rt (fuse_read ino offset sz) s w =
    (Done (RData (take (unat sz) (drop (unat offset) content))), [],
     s\<lparr>size_cache := (size_cache s)(path \<mapsto> word_of_nat (length content))\<rparr>, w')"
  using assms by (auto simp: fuse_read_def with_path_def io_simps fuse_simps Let_def sub_bytes_def min_def)

lemma serve_reads:
  assumes "path_for s ino = Some path"
    and "\<forall>w. \<exists>resp w'. rt w Read path [] = (Replied (Inr resp), w') \<and> resp_data resp = content"
  shows "fst (fuse_serve env rt (map (\<lambda>k. FRead ino (offs k) sz) ks) s w) =
    map (\<lambda>k. RData (take (unat sz) (drop (unat (offs k)) content))) ks"
  using assms(1)
proof (induction ks arbitrary: s w)
  case (Cons k ks)
  obtain resp w' where rd: "rt w Read path [] = (Replied (Inr resp), w')" "resp_data resp = content"
    using assms(2) by blast
  let ?s' = "s\<lparr>size_cache := (size_cache s)(path \<mapsto> word_of_nat (length content))\<rparr>"
  have "path_for ?s' ino = Some path"
    using Cons.prems by (simp add: path_for_def)
  from Cons.IH [OF this, of w'] show ?case
    by (simp add: run_fuse_read [where rt = rt and w = w, OF Cons.prems rd] case_prod_unfold Let_def)
qed simp

lemma concat_slices: "concat (map (\<lambda>k. take n (drop (k * n) xs)) [0..<m]) = take (m * n) xs"
proof (induction m)
  case (Suc m)
  moreover have "take (Suc m * n) xs = take (m * n) xs @ take n (drop (m * n) xs)"
    by (metis add.commute mult_Suc take_add)
  ultimately show ?case
    by simp
qed simp

text \<open>
  Reads tile the file. If the read handler of an inode's path returns a fixed content, then
  reading \<open>m\<close> times \<open>len\<close> bytes at the offsets \<open>0, len, 2 len, ...\<close> returns pieces that concatenate
  to the first \<open>m len\<close> bytes of the content, none longer than \<open>len\<close>.
\<close>

theorem fuse_reads_tile_the_file:
  assumes "path_for s ino = Some path"
    and "\<forall>w. \<exists>resp w'. rt w Read path [] = (Replied (Inr resp), w') \<and> resp_data resp = content"
    and "m * unat len < 2 ^ 64"
  shows "\<exists>ds. fst (fuse_serve env rt (map (\<lambda>k. FRead ino (word_of_nat (k * unat len)) len) [0..<m]) s w) = map RData ds \<and>
    concat ds = take (m * unat len) content \<and> (\<forall>d \<in> set ds. length d \<le> unat len)"
proof -
  let ?n = "unat len"
  let ?ds = "map (\<lambda>k. take ?n (drop (k * ?n) content)) [0..<m]"
  have off: "unat (word_of_nat (k * ?n) :: u64) = k * ?n" if "k < m" for k
  proof -
    have "k * ?n \<le> m * ?n"
      using that by (intro mult_right_mono) simp_all
    with assms(3) have "k * ?n < 2 ^ 64"
      by (rule le_less_trans [rotated])
    then show ?thesis
      by (intro unat_word64) simp
  qed
  have "fst (fuse_serve env rt (map (\<lambda>k. FRead ino (word_of_nat (k * ?n)) len) [0..<m]) s w) = map RData ?ds"
    using serve_reads [of s ino path rt content, OF assms(1,2), of env "\<lambda>k. word_of_nat (k * ?n)" len "[0..<m]" w]
    by (simp add: off del: of_nat_mult)
  then show ?thesis
    by (intro exI [of _ ?ds]) (simp add: concat_slices)
qed

theorem fuse_reads_tile_the_file_witness:
  "\<exists>ds. fst (fuse_serve demo_env (\<lambda>w op p d. (answer_with [1, 2, 3, 4, 5], w))
      (map (\<lambda>k. FRead 2 (word_of_nat (k * unat (2 :: u32))) 2) [0..<3])
      \<lparr>ino_next = 3, ino_paths = [(1, ''/''), (2, ''/a'')], size_cache = Map.empty\<rparr> ()) = map RData ds \<and>
    concat ds = [1, 2, 3, 4, 5] \<and> (\<forall>d \<in> set ds. length d \<le> unat (2 :: u32))"
  using fuse_reads_tile_the_file [where ino = 2 and path = "''/a''" and content = "[1, 2, 3, 4, 5]" and m = 3 and len = 2 and
      s = "\<lparr>ino_next = 3, ino_paths = [(1, ''/''), (2, ''/a'')], size_cache = Map.empty\<rparr>" and
      rt = "\<lambda>w op p d. (answer_with [1, 2, 3, 4, 5], w)" and w = "()" and env = demo_env]
  by (simp add: path_for_def answer_with_def)

text \<open>
  The size after a write. When the write handler of a path accepts a chunk and its getattr
  handler answers with empty data, the size that \<open>getattr\<close> reports is the length of that chunk,
  whatever the offset of the chunk and whatever was written before.
\<close>

theorem fuse_size_is_last_chunk:
  assumes "path_for s ino = Some path" and "ino \<noteq> 1"
    and "rt w Write path data = (Replied (Inr resp), w1)"
    and "rt w1 GetAttr path [] = (Replied (Inr attr), w2)" and "resp_data attr = []"
  shows "fuse_serve env rt [FWrite ino offset data, FGetattr ino] s w =
    ([RWritten (word_of_nat (length data)), RAttr (make_attr ino (word_of_nat (length data)) False)],
     s\<lparr>size_cache := (size_cache s)(path \<mapsto> word_of_nat (length data))\<rparr>, w2)"
proof -
  have empty: "parse_attr [] = (False, 0)"
    by (simp add: parse_attr_def split_whitespace_def)
  show ?thesis
    using assms
    by (simp add: fuse_write_def fuse_getattr_def with_path_def io_simps fuse_simps empty path_for_def)
qed

theorem fuse_size_is_last_chunk_witness:
  "fuse_serve demo_env (\<lambda>w op p d. (answer_with [], w)) [FWrite 2 4096 [1, 2, 3], FGetattr 2]
     \<lparr>ino_next = 3, ino_paths = [(1, ''/''), (2, ''/a'')], size_cache = [''/a'' \<mapsto> 4096]\<rparr> () =
   ([RWritten 3, RAttr (make_attr 2 3 False)],
     \<lparr>ino_next = 3, ino_paths = [(1, ''/''), (2, ''/a'')], size_cache = [''/a'' \<mapsto> 3]\<rparr>, ())"
  using fuse_size_is_last_chunk [where ino = 2 and path = "''/a''" and data = "[1, 2, 3]" and offset = 4096 and
      s = "\<lparr>ino_next = 3, ino_paths = [(1, ''/''), (2, ''/a'')], size_cache = [''/a'' \<mapsto> 4096]\<rparr>" and
      rt = "\<lambda>w op p d. (answer_with [], w)" and w = "()" and env = demo_env]
  by (simp add: path_for_def answer_with_def)

end
