(* ===== verification/Same_File.thy ===== *)
theory Same_File
  imports Program Sftp_Session Fuse_Session
begin

text \<open>
  A file of a script through the other frontends. \<open>script_file_over_9p\<close> follows a file from the script
  to a 9P client; here the same router, dispatcher and workers are behind an SFTP session
  (\<open>src/src/frontend/sshfs.rs\<close>) and a FUSE mount (\<open>src/src/frontend/fuse.rs\<close>). What the two frontends need of
  the program behind them is the locale \<open>file_service\<close>; the interpretation shows that a compiled
  script provides it.
\<close>

lemma read_offset:
  assumes "k < length (blocks n c)" and "0 < n" and "length c < 2 ^ 64"
  shows "unat (word_of_nat (k * n) :: u64) = k * n"
proof -
  have "k * n < length c"
    using assms(1,2) by (simp add: blocks_nth)
  with assms(3) have "k * n < 2 ^ 64"
    by simp
  then show ?thesis
    by (intro unat_word64) simp
qed

lemma slices_are_blocks:
  assumes "0 < n" and "length c < 2 ^ 64"
  shows "map (\<lambda>k. take n (drop (unat (word_of_nat (k * n) :: u64)) c)) [0..<length (blocks n c)] = blocks n c"
proof (rule nth_equalityI)
  fix k
  assume "k < length (map (\<lambda>k. take n (drop (unat (word_of_nat (k * n) :: u64)) c)) [0..<length (blocks n c)])"
  then have "k < length (blocks n c)"
    by simp
  with assms show "map (\<lambda>k. take n (drop (unat (word_of_nat (k * n) :: u64)) c)) [0..<length (blocks n c)] ! k = blocks n c ! k"
    by (simp add: read_offset blocks_nth(2) del: of_nat_mult)
qed simp

lemma run_fuse_lookup:
  assumes "path_for s parent = Some pp" and "name \<noteq> ''.''" and "name \<noteq> ''..''" and "from_utf8_lossy os_name = name"
    and "fst (rt w Lookup (lookup_path pp name) []) = Replied (Inr resp)"
  shows "\<exists>sz is_dir. run rt (fuse_lookup parent os_name) s w =
    (Done (REntry (make_attr (ino_next s) sz is_dir)), [], record_path (ino_next s) (lookup_path pp name) (snd (next_ino s)),
     snd (rt (snd (rt w Lookup (lookup_path pp name) [])) GetAttr (lookup_path pp name) []))"
  using assms
  by (simp add: fuse_lookup_def with_parent_def new_inode_def io_simps fuse_simps next_ino_def Let_def case_prod_unfold) blast

subsection \<open>What a frontend relies on\<close>

text \<open>
  \<open>ready\<close> is a state of the service that every request keeps; in it, a file that \<open>has_file\<close> names is
  found and opened, and read with its content.
\<close>

locale file_service =
  fixes rt :: "'w router" and ready :: "'w \<Rightarrow> bool" and has_file :: "string \<Rightarrow> bytes \<Rightarrow> bool"
  assumes keeps: "ready w \<Longrightarrow> ready (snd (rt w op p d))"
    and accepts: "ready w \<Longrightarrow> has_file p c \<Longrightarrow> op = Lookup \<or> op = Open \<Longrightarrow> \<exists>resp. fst (rt w op p []) = Replied (Inr resp)"
    and content: "ready w \<Longrightarrow> has_file p c \<Longrightarrow> \<exists>resp. fst (rt w Read p []) = Replied (Inr resp) \<and> resp_data resp = c"
begin

lemma reads:
  assumes "ready w" and "has_file p c"
  obtains resp w' where "rt w Read p [] = (Replied (Inr resp), w')" and "resp_data resp = c" and "ready w'"
  using content [OF assms] keeps [OF assms(1), of Read p "[]"] by (metis prod.collapse)

lemma sftp_reads:
  assumes "ready w" and "has_file (normalized (he_path e)) c" and "hs_get hs h = Some e" and "0 < len"
    and "length c + unat len < 2 ^ 64" and "\<forall>k \<in> set ks. k < length (blocks (unat len) c) \<and> k * unat len < 2 ^ 64"
  shows "fst (serve_packets lib rt (map (\<lambda>k. PRead rid h (word_of_nat (k * unat len)) len) ks) hs w) =
    map (\<lambda>k. PData rid (blocks (unat len) c ! k)) ks"
  using assms(1,6)
proof (induction ks arbitrary: w)
  case (Cons k ks)
  obtain resp w' where rd: "rt w Read (normalized (he_path e)) [] = (Replied (Inr resp), w')" "resp_data resp = c" "ready w'"
    using reads [OF Cons.prems(1) assms(2)] .
  have "run rt (sftp_read rid h (word_of_nat (k * unat len)) len) hs w = (Done (Inr (PData rid (blocks (unat len) c ! k))), [], hs, w')"
    using run_sftp_read [where rt = rt and w = w, OF assms(3,4) rd(1,2) assms(5), of k rid] Cons.prems(2) by simp
  with Cons.IH [OF rd(3)] Cons.prems(2) show ?case
    by (simp add: case_prod_unfold Let_def response_packet_def del: of_nat_mult)
qed simp

lemma fuse_reads:
  assumes "ready w" and "has_file path c" and "path_for s ino = Some path"
  shows "fst (fuse_serve env rt (map (\<lambda>k. FRead ino (offs k) sz) ks) s w) =
    map (\<lambda>k. RData (take (unat sz) (drop (unat (offs k)) c))) ks"
  using assms(1,3)
proof (induction ks arbitrary: s w)
  case (Cons k ks)
  obtain resp w' where rd: "rt w Read path [] = (Replied (Inr resp), w')" "resp_data resp = c" "ready w'"
    using reads [OF Cons.prems(1) assms(2)] .
  let ?s' = "s\<lparr>size_cache := (size_cache s)(path \<mapsto> word_of_nat (length c))\<rparr>"
  have "path_for ?s' ino = Some path"
    using Cons.prems(2) by (simp add: path_for_def)
  from Cons.IH [OF rd(3) this] show ?case
    by (simp add: run_fuse_read [where rt = rt and w = w, OF Cons.prems(2) rd(1,2)] case_prod_unfold Let_def)
qed simp

text \<open>A client that opens a file over SFTP and reads it block by block.\<close>

lemma sftp_fetch:
  assumes "ready w" and "has_file (normalized path) c" and "0 < len" and "length c + unat len < 2 ^ 64"
    and "pflags AND lib_creat lib = 0"
  shows "fst (serve_packets lib rt (POpen rid path pflags # map (\<lambda>k. PRead rid (hex016 (unat (hs_next_id hs)))
        (word_of_nat (k * unat len)) len) [0..<length (blocks (unat len) c)]) hs w) =
    PHandle rid (hex016 (unat (hs_next_id hs))) # map (PData rid) (blocks (unat len) c)"
proof -
  let ?n = "unat len" and ?h = "hex016 (unat (hs_next_id hs))"
  let ?hs = "snd (hs_alloc path False hs)" and ?w = "snd (rt w Open (normalized path) [])"
  have n: "0 < ?n"
    using assms(3) by (simp add: word_less_nat_alt)
  have bound: "k * ?n < 2 ^ 64" if "k < length (blocks ?n c)" for k
    using that assms(4) blocks_nth(1) [OF n] by (meson add_leD1 less_le_trans order_less_imp_le)
  obtain resp where "fst (rt w Open (normalized path) []) = Replied (Inr resp)"
    using accepts [OF assms(1,2)] by blast
  then have open_it: "run rt (sftp_open lib rid path pflags) hs w = (Done (Inr (PHandle rid ?h)), [], ?hs, ?w)"
    using assms(5) by (simp add: sftp_open_def route_or_def sftp_simps run_locked hs_alloc_def Let_def)
  have "hs_get ?hs ?h = Some \<lparr>he_path = path, he_is_dir = False\<rparr>"
    by (simp add: hs_get_def hs_alloc_def Let_def)
  from sftp_reads [OF keeps [OF assms(1)] _ this assms(3,4)] assms(2) bound
  have "fst (serve_packets lib rt (map (\<lambda>k. PRead rid ?h (word_of_nat (k * ?n)) len) [0..<length (blocks ?n c)]) ?hs ?w) =
      map (\<lambda>k. PData rid (blocks ?n c ! k)) [0..<length (blocks ?n c)]"
    by simp
  moreover have "map (\<lambda>k. PData rid (blocks ?n c ! k)) [0..<length (blocks ?n c)] = map (PData rid) (blocks ?n c)"
    by (intro nth_equalityI) simp_all
  ultimately show ?thesis
    by (simp add: open_it case_prod_unfold Let_def response_packet_def del: of_nat_mult)
qed

text \<open>A kernel that looks a name up in a FUSE mount and reads the inode it gets block by block.\<close>

lemma fuse_fetch:
  assumes "ready w" and "path_for s parent = Some pp" and "name \<noteq> ''.''" and "name \<noteq> ''..''"
    and "from_utf8_lossy os_name = name" and "has_file (lookup_path pp name) c" and "0 < len" and "length c < 2 ^ 64"
  shows "\<exists>sz is_dir. fst (fuse_serve env rt (FLookup parent os_name # map (\<lambda>k. FRead (ino_next s)
        (word_of_nat (k * unat len)) len) [0..<length (blocks (unat len) c)]) s w) =
    REntry (make_attr (ino_next s) sz is_dir) # map RData (blocks (unat len) c)"
proof -
  let ?n = "unat len" and ?path = "lookup_path pp name" and ?ino = "ino_next s"
  let ?s = "record_path ?ino ?path (snd (next_ino s))"
  let ?w1 = "snd (rt w Lookup ?path [])" let ?w2 = "snd (rt ?w1 GetAttr ?path [])"
  have n: "0 < ?n"
    using assms(7) by (simp add: word_less_nat_alt)
  obtain resp where "fst (rt w Lookup ?path []) = Replied (Inr resp)"
    using accepts [OF assms(1,6)] by blast
  from run_fuse_lookup [where rt = rt and w = w, OF assms(2-5) this]
  obtain sz is_dir where look: "run rt (fuse_lookup parent os_name) s w = (Done (REntry (make_attr ?ino sz is_dir)), [], ?s, ?w2)"
    by blast
  have "path_for ?s ?ino = Some ?path"
    by simp
  from fuse_reads [OF keeps [OF keeps [OF assms(1)]] assms(6) this]
  have "fst (fuse_serve env rt (map (\<lambda>k. FRead ?ino (word_of_nat (k * ?n)) len) [0..<length (blocks ?n c)]) ?s ?w2) =
      map RData (map (\<lambda>k. take ?n (drop (unat (word_of_nat (k * ?n) :: u64)) c)) [0..<length (blocks ?n c)])"
    by (simp add: comp_def del: of_nat_mult)
  then have "fst (fuse_serve env rt (map (\<lambda>k. FRead ?ino (word_of_nat (k * ?n)) len) [0..<length (blocks ?n c)]) ?s ?w2) =
      map RData (blocks ?n c)"
    unfolding slices_are_blocks [OF n assms(8)] .
  then show ?thesis
    by (intro exI [of _ sz] exI [of _ is_dir]) (simp add: look case_prod_unfold Let_def del: of_nat_mult)
qed

end

subsection \<open>A compiled script as a file service\<close>

text \<open>
  The script serves a path with a content: the trie maps the path to the entry of a pattern, and the
  functions that the script registered last for \<open>lookup\<close> and \<open>open\<close> of the pattern return without an
  error, and the one for \<open>read\<close> returns the content, in every state of the Lua machine.
\<close>

definition script_serves ::
    "'f interpreter \<Rightarrow> string \<Rightarrow> trie_at \<Rightarrow> ('f, 'l) lua_call \<Rightarrow> 'f handler_runtime \<Rightarrow> string \<Rightarrow> bytes \<Rightarrow> bool" where
  "script_serves interp script at call rt path c \<longleftrightarrow>
     (\<exists>cfg rs code wc pat meta params f_lookup f_open f_read.
        compile interp script = Inr (cfg, rs, code, wc) \<and> from_bytecodes interp code = Inr rt \<and>
        pattern_map rs pat = Some meta \<and> at path = Inr (meta, params) \<and> \<not> has_children at path (rm_pattern meta) \<and>
        script_func (registrations (fst (interp script))) pat Lookup = Some f_lookup \<and>
        script_func (registrations (fst (interp script))) pat Open = Some f_open \<and>
        script_func (registrations (fst (interp script))) pat Read = Some f_read \<and>
        (\<forall>l. \<exists>x. fst (call l f_lookup (map_of (rev params)) LNil) = Inr x) \<and>
        (\<forall>l. \<exists>x. fst (call l f_open (map_of (rev params)) LNil) = Inr x) \<and>
        (\<forall>l. fst (call l f_read (map_of (rev params)) LNil) = Inr c))"

interpretation served: file_service "program_router at wc call rt lua0" pool_idle "script_serves interp script at call rt"
  for at wc call rt lua0 interp script
proof
  show "pool_idle (snd (program_router at wc call rt lua0 d op p x))" if "pool_idle d" for d op p x
    using that by (rule program_router_idle)
  show "\<exists>resp. fst (program_router at wc call rt lua0 d op p []) = Replied (Inr resp)"
    if idle: "pool_idle d" and has: "script_serves interp script at call rt p c" and op: "op = Lookup \<or> op = Open" for d p c op
  proof -
    obtain cfg rs code wc' pat meta params f where s: "compile interp script = Inr (cfg, rs, code, wc')" "from_bytecodes interp code = Inr rt"
        "pattern_map rs pat = Some meta" "at p = Inr (meta, params)" "\<not> has_children at p (rm_pattern meta)"
        "script_func (registrations (fst (interp script))) pat op = Some f"
      and f: "\<forall>l. \<exists>x. fst (call l f (map_of (rev params)) LNil) = Inr x"
      using has op unfolding script_serves_def by blast
    obtain x where x: "\<And>l. fst (call l f (map_of (rev params)) LNil) = Inr (x l)"
      using f by metis
    from script_answers [where call = call and content = x, OF s x idle] show ?thesis
      by blast
  qed
  show "\<exists>resp. fst (program_router at wc call rt lua0 d Read p []) = Replied (Inr resp) \<and> resp_data resp = c"
    if idle: "pool_idle d" and has: "script_serves interp script at call rt p c" for d p c
  proof -
    obtain cfg rs code wc' pat meta params f where s: "compile interp script = Inr (cfg, rs, code, wc')" "from_bytecodes interp code = Inr rt"
        "pattern_map rs pat = Some meta" "at p = Inr (meta, params)" "\<not> has_children at p (rm_pattern meta)"
        "script_func (registrations (fst (interp script))) pat Read = Some f"
      and f: "\<forall>l. fst (call l f (map_of (rev params)) LNil) = Inr c"
      using has unfolding script_serves_def by blast
    have "fst (call l f (map_of (rev params)) LNil) = Inr c" for l
      using f by blast
    from script_answers [where call = call and content = "\<lambda>_. c", OF s this idle] show ?thesis
      by blast
  qed
qed


lemma demo_serves:
  assumes "from_bytecodes demo_interp [] = Inr rt"
  shows "script_serves demo_interp [] demo_trie demo_call rt ''/a'' (as_bytes ''hello'')"
proof -
  have compiled: "compile demo_interp [] = Inr (config_default\<lparr>ninep_listeners := [''sock:/y'']\<rparr>, demo_routes, [], worker_config_default)"
    using demo_compile by (simp add: demo_routes_def)
  have route: "demo_trie ''/a'' = Inr (demo_meta, [])" "\<not> has_children demo_trie ''/a'' (rm_pattern demo_meta)"
    by (simp_all add: demo_trie_def has_children_def)
  have calls: "\<forall>l. \<exists>x. fst (demo_call l 1 (map_of (rev [])) LNil) = Inr x"
      "\<forall>l. fst (demo_call l 2 (map_of (rev [])) LNil) = Inr (as_bytes ''hello'')"
    by (simp_all add: demo_call_def)
  show ?thesis
    unfolding script_serves_def using compiled assms demo_meta route demo_funcs calls by blast
qed


end
