(* ===== verification/Write_Offsets.thy ===== *)
theory Write_Offsets
  imports Ninep_Replies Ninep_Session Sftp_Session Fuse_Session
begin

text \<open>
  What a handler learns of writes. All three protocols write at an offset: \<open>handle_write\<close> of
  \<open>src/src/frontend/ninep.rs\<close>, \<open>SftpSession::write\<close> of \<open>src/src/frontend/sshfs.rs\<close> and
  \<open>FuseFilesystem::write\<close> of \<open>src/src/frontend/fuse.rs\<close>. The request that they send to the router has no
  place for it.
\<close>

lemma run_log_write:
  assumes "fids s fid = Some e" and "length d < 4294967296"
  shows "\<exists>r out. run (log_router ans) (handle_write tag (write_body fid offset d)) s calls =
    (r, out, s, calls @ [(Write, fe_path e, d)]) \<and> (r = Done () \<or> (\<exists>m. r = Failed m))"
proof -
  have "sub_bytes (write_body fid offset d) 16
      (16 + min (unat (word_of_nat (length d) :: u32)) (length (write_body fid offset d) - 16)) = d"
    using assms(2) by (simp add: write_body_def unat_word32 sub_bytes_def)
  with assms(1) show ?thesis
    by (simp add: handle_write_def Let_def)
      (simp add: write_body_def wire_simps io_simps log_router_def split: router_result.splits sum.splits)
qed

lemma connection_writes:
  assumes "fids s fid = Some e" and "\<forall>(off, d) \<in> set ws. length d \<le> 65520"
  shows "snd (snd (snd (run (log_router ans)
      (run_connection env (concat (map (\<lambda>(off, d). frame TWRITE tag (write_body fid off d)) ws))) s calls))) =
    calls @ map (\<lambda>(off, d). (Write, fe_path e, d)) ws"
  using assms(2)
proof (induction ws arbitrary: calls)
  case Nil
  then show ?case
    by (simp add: run_connection_Nil)
next
  case (Cons w ws)
  obtain off d where w: "w = (off, d)"
    by (cases w)
  have d: "length d \<le> 65520" "length d < 4294967296"
    using Cons.prems by (simp_all add: w)
  have body: "length (write_body fid off d) \<le> 65536"
    using d(1) by (simp add: write_body_def)
  obtain r out where r: "run (log_router ans) (handle_write tag (write_body fid off d)) s calls =
      (r, out, s, calls @ [(Write, fe_path e, d)])" "r = Done () \<or> (\<exists>m. r = Failed m)"
    using run_log_write [OF assms(1) d(2)] by blast
  have send: "run rt (send_error tag m) s w = (Done (), frame RERROR tag (error_body m), s, w)" for rt m and w :: call_log
    by (simp add: send_error_def send_reply_def)
  from r(2) show ?case
    using Cons r(1) by (auto simp: w run_connection_frame [OF body] run_io_handle send case_prod_unfold Let_def)
qed

lemma sftp_writes:
  assumes "hs_get hs h = Some e"
  shows "snd (snd (serve_packets lib (log_router ans) (map (\<lambda>(off, d). PWrite rid h off d) ws) hs calls)) =
    calls @ map (\<lambda>(off, d). (Write, normalized (he_path e), d)) ws"
proof (induction ws arbitrary: calls)
  case (Cons w ws)
  obtain off d where w: "w = (off, d)"
    by (cases w)
  have "\<exists>r. run (log_router ans) (sftp_write rid h off d) hs calls =
      (Done r, [], hs, calls @ [(Write, normalized (he_path e), d)])"
    using assms by (simp add: sftp_write_def route_or_def sftp_simps log_router_def split: router_result.split sum.split)
  then show ?case
    using Cons.IH [of "calls @ [(Write, normalized (he_path e), d)]"] by (auto simp: w case_prod_unfold Let_def)
qed simp

lemma fuse_writes:
  assumes "path_for s ino = Some path"
  shows "snd (snd (fuse_serve env (log_router ans) (map (\<lambda>(off, d). FWrite ino off d) ws) s calls)) =
    calls @ map (\<lambda>(off, d). (Write, path, d)) ws"
  using assms
proof (induction ws arbitrary: s calls)
  case (Cons w ws)
  obtain off d where w: "w = (off, d)"
    by (cases w)
  have "\<exists>r s'. run (log_router ans) (fuse_write ino off d) s calls = (Done r, [], s', calls @ [(Write, path, d)]) \<and>
      path_for s' ino = Some path"
    using Cons.prems by (simp add: fuse_write_def with_path_def io_simps fuse_simps log_router_def path_for_def
        split: router_result.split sum.split)
  then obtain r s' where "run (log_router ans) (fuse_write ino off d) s calls = (Done r, [], s', calls @ [(Write, path, d)])"
      "path_for s' ino = Some path"
    by blast
  then show ?case
    using Cons.IH [of s' "calls @ [(Write, path, d)]"] by (simp add: w case_prod_unfold Let_def)
qed simp

text \<open>
  C17: Writes lose their offsets. Whatever the offsets of a sequence of writes to one file are, the
  handlers are called once per write, in the order of arrival, with the bytes of the write and
  nothing else: over a 9P connection, in an SFTP session and through a FUSE mount. Two sequences
  that differ in their offsets only are the same to the script, so a file that is not written from
  its beginning to its end in order cannot be put together.
\<close>

theorem writes_lose_offsets:
  assumes "fids st fid = Some fe" and "hs_get hs h = Some he" and "path_for s ino = Some path"
    and "\<forall>(off, d) \<in> set ws. length d \<le> 65520"
  shows "snd (snd (snd (run (log_router ans)
        (run_connection env (concat (map (\<lambda>(off, d). frame TWRITE tag (write_body fid off d)) ws))) st calls))) =
      calls @ map (\<lambda>d. (Write, fe_path fe, d)) (map snd ws) \<and>
    snd (snd (serve_packets lib (log_router ans) (map (\<lambda>(off, d). PWrite rid h off d) ws) hs calls)) =
      calls @ map (\<lambda>d. (Write, normalized (he_path he), d)) (map snd ws) \<and>
    snd (snd (fuse_serve fenv (log_router ans) (map (\<lambda>(off, d). FWrite ino off d) ws) s calls)) =
      calls @ map (\<lambda>d. (Write, path, d)) (map snd ws)"
  using connection_writes [OF assms(1,4)] sftp_writes [OF assms(2)] fuse_writes [OF assms(3)]
  by (simp add: case_prod_unfold comp_def)

text \<open>The second half of a file written before the first half, and the first after the second.\<close>

theorem writes_lose_offsets_witness:
  "(let ans = (\<lambda>calls op p d. answer_with []);
        hs = snd (hs_alloc ''/a'' False hs_new);
        s = \<lparr>ino_next = 3, ino_paths = [(1, ''/''), (2, ''/a'')], size_cache = Map.empty\<rparr> in
    snd (snd (serve_packets demo_lib (log_router ans) [PWrite 1 (hex016 1) 2 [3, 4], PWrite 1 (hex016 1) 0 [1, 2]] hs [])) =
      [(Write, ''/a'', [3, 4]), (Write, ''/a'', [1, 2])] \<and>
    snd (snd (fuse_serve demo_env (log_router ans) [FWrite 2 0 [3, 4], FWrite 2 2 [1, 2]] s [])) =
      [(Write, ''/a'', [3, 4]), (Write, ''/a'', [1, 2])])"
proof -
  let ?ans = "\<lambda>(calls :: call_log) op p d. answer_with []"
  let ?hs = "snd (hs_alloc ''/a'' False hs_new)"
  let ?s = "\<lparr>ino_next = 3, ino_paths = [(1, ''/''), (2, ''/a'')], size_cache = Map.empty\<rparr> :: fuse_state"
  let ?fe = "\<lparr>fe_qid = 0, fe_path = ''/'', fe_open = False, fe_is_dir = True\<rparr>"
  have files: "fids demo_state 1 = Some ?fe" "hs_get ?hs (hex016 1) = Some \<lparr>he_path = ''/a'', he_is_dir = False\<rparr>"
      "path_for ?s 2 = Some ''/a''"
    by (simp_all add: demo_state_def set_fid_def hs_get_def hs_alloc_def hs_new_def Let_def path_for_def)
  have path: "normalized ''/a'' = ''/a''"
    by (simp add: normalized_def starts_with_def)
  note w = writes_lose_offsets [OF files, where calls = "[]" and ans = ?ans and lib = demo_lib and fenv = demo_env and rid = 1]
  show ?thesis
    using w [of "[(2, [3, 4]), (0, [1, 2])]"] w [of "[(0, [3, 4]), (2, [1, 2])]"] by (simp add: path Let_def)
qed

end
