(* ===== verification/Fuse_Readdir.thy ===== *)
theory Fuse_Readdir
  imports Fuse_Session
begin

text \<open>
  Directory listings of the FUSE frontend. The kernel reads a directory in pages: it repeats
  \<open>readdir\<close> with the offset of the last entry it got until a page is empty. The pages together
  are the whole listing, once, in order; every entry has an inode of its own that stands for
  its path.
\<close>

subsection \<open>One page\<close>

definition entry_kind :: "string \<Rightarrow> file_type" where
  "entry_kind name = (if ends_with_char (CHR ''/'') name then Directory else RegularFile)"

definition clean_name :: "string \<Rightarrow> string" where
  "clean_name name = trim_end_char (CHR ''/'') name"

text \<open>The entries for \<open>names\<close> with the inodes that the table hands out for them.\<close>

definition named_entries :: "string \<Rightarrow> string list \<Rightarrow> fuse_state \<Rightarrow> dir_entry list \<times> fuse_state" where
  "named_entries path names s =
     (let (inos, s') = table_run inode_add fuse_forget
            (map (\<lambda>n. Add (entry_path path (clean_name n))) names) s in
      (map2 (\<lambda>i n. (i, entry_kind n, clean_name n)) inos names, s'))"

lemma table_run_Adds_length: "length (fst (table_run add rem (map Add vs) t)) = length vs"
  by (induction vs arbitrary: t) (simp_all add: case_prod_unfold Let_def)

lemma named_entries_Cons:
  "named_entries path (n # ns) s =
     (let (i, s1) = inode_add (entry_path path (clean_name n)) s; (es, s2) = named_entries path ns s1 in
      ((i, entry_kind n, clean_name n) # es, s2))"
  by (simp add: named_entries_def case_prod_unfold Let_def)

lemma run_add_entries:
  "run rt (add_entries path names v k) s w =
     run rt (k (v @ fst (named_entries path names s))) (snd (named_entries path names s)) w"
proof (induction names arbitrary: v s)
  case Nil
  then show ?case by (simp add: named_entries_def)
next
  case (Cons n ns)
  show ?case
    by (simp add: Let_def run_new_inode Cons.IH named_entries_Cons case_prod_unfold
        flip: entry_kind_def clean_name_def)
qed

definition numbered :: "nat \<Rightarrow> dir_entry list \<Rightarrow> (u64 \<times> dir_entry) list" where
  "numbered k es = map (\<lambda>(n, e). (word_of_nat n, e)) (enumerate k es)"

lemma numbered_simps [simp]:
  "numbered k [] = []" "numbered k (e # es) = (word_of_nat k, e) # numbered (Suc k) es"
  "length (numbered k es) = length es"
  by (simp_all add: numbered_def)

lemma numbered_mem: "(n, e) \<in> set (numbered k es) \<Longrightarrow> e \<in> set es"
  by (induction es arbitrary: k) auto

text \<open>The page that starts behind \<open>offset\<close> is a prefix of the rest, and not empty unless the rest is.\<close>

lemma fill_reply_prefix:
  assumes "k + length es < 2 ^ 64"
  shows "\<exists>m. fill_reply env offset (word_of_nat k) es acc = acc @ take m (drop (unat offset - k) (numbered (Suc k) es)) \<and>
    (acc = [] \<longrightarrow> (\<forall>e. \<not> fv_full env [] e) \<longrightarrow> 0 < m)"
  using assms
proof (induction es arbitrary: k acc)
  case Nil
  then show ?case by (intro exI [of _ 1]) simp
next
  case (Cons e es)
  have seq: "word_of_nat k + 1 = (word_of_nat (Suc k) :: u64)"
    by simp
  have "unat (word_of_nat (Suc k) :: u64) = Suc k"
    using Cons.prems by (intro unat_word64) simp
  then have le: "(word_of_nat (Suc k) :: u64) \<le> offset \<longleftrightarrow> Suc k \<le> unat offset"
    by (simp add: word_le_nat_alt)
  have step: "fill_reply env offset (word_of_nat k) (e # es) acc =
      (if Suc k \<le> unat offset then fill_reply env offset (word_of_nat (Suc k)) es acc
       else if fv_full env acc (word_of_nat (Suc k), e) then acc
       else fill_reply env offset (word_of_nat (Suc k)) es (acc @ [(word_of_nat (Suc k), e)]))"
    by (simp only: fill_reply.simps Let_def seq le)
  have len: "Suc k + length es < 2 ^ 64"
    using Cons.prems by simp
  consider "Suc k \<le> unat offset" | "\<not> Suc k \<le> unat offset" "fv_full env acc (word_of_nat (Suc k), e)"
    | "\<not> Suc k \<le> unat offset" "\<not> fv_full env acc (word_of_nat (Suc k), e)"
    by blast
  then show ?case
  proof cases
    case 1
    then have "drop (unat offset - k) (numbered (Suc k) (e # es)) = drop (unat offset - Suc k) (numbered (Suc (Suc k)) es)"
      by (simp add: drop_Cons' del: of_nat_Suc)
    with Cons.IH [OF len, of acc] 1 show ?thesis
      unfolding step by simp
  next
    case 2
    then show ?thesis
      unfolding step by (intro exI [of _ 0]) (auto simp del: split_paired_All split_paired_Ex)
  next
    case 3
    obtain m where m: "fill_reply env offset (word_of_nat (Suc k)) es (acc @ [(word_of_nat (Suc k), e)]) =
        (acc @ [(word_of_nat (Suc k), e)]) @ take m (drop (unat offset - Suc k) (numbered (Suc (Suc k)) es))"
      using Cons.IH [OF len] by blast
    show ?thesis
      unfolding step using 3 m by (intro exI [of _ "Suc m"]) simp
  qed
qed

definition dir_path :: "fuse_state \<Rightarrow> u64 \<Rightarrow> string option" where
  "dir_path s ino = (if ino = 1 then Some ''/'' else path_for s ino)"

lemma run_fuse_readdir:
  assumes "dir_path s ino = Some path" and "rt w ReadDir path [] = (Replied (Inr resp), w')"
  shows "run rt (fuse_readdir env ino offset) s w =
    (Done (RDirectory (fill_reply env offset 0
       ([(1, Directory, ''.''), (if ino = 1 then 1 else parent_ino env path s, Directory, ''..'')] @
       fst (named_entries path (listing_names (resp_data resp)) s)) [])), [],
     snd (named_entries path (listing_names (resp_data resp)) s), w')"
  using assms
  by (cases "ino = 1")
    (simp_all add: fuse_readdir_def dir_path_def with_path_def io_simps fuse_simps run_add_entries Let_def
      del: fill_reply.simps)

subsection \<open>All pages\<close>

text \<open>The kernel's loop; \<open>None\<close> if \<open>n\<close> calls do not reach the end.\<close>

fun readdir_pages ::
    "nat \<Rightarrow> fuse_env \<Rightarrow> 'w router \<Rightarrow> u64 \<Rightarrow> u64 \<Rightarrow> fuse_state \<Rightarrow> 'w \<Rightarrow> (u64 \<times> dir_entry) list list option" where
  "readdir_pages 0 env rt ino offset s w = None"
| "readdir_pages (Suc n) env rt ino offset s w =
     (case run rt (fuse_handler env (FReaddir ino offset)) s w of
        (Done (RDirectory es), out, s', w') \<Rightarrow>
          if es = [] then Some []
          else map_option (\<lambda>ps. es # ps) (readdir_pages n env rt ino (fst (last es)) s' w')
      | _ \<Rightarrow> None)"

definition page_key :: "u64 \<times> dir_entry \<Rightarrow> u64 \<times> file_type \<times> string" where
  "page_key e = (fst e, snd (snd e))"

text \<open>What a directory whose handler returns \<open>data\<close> should be listed as.\<close>

definition full_listing :: "bytes \<Rightarrow> (u64 \<times> file_type \<times> string) list" where
  "full_listing data =
     map (\<lambda>(n, e). (word_of_nat n, e))
       (enumerate 1 ([(Directory, ''.''), (Directory, ''..'')] @
          map (\<lambda>n. (entry_kind n, clean_name n)) (listing_names data)))"

lemma map_snd_named_entries:
  "map snd (fst (named_entries path names s)) = map (\<lambda>n. (entry_kind n, clean_name n)) names"
  by (induction names arbitrary: s) (simp_all add: named_entries_Cons case_prod_unfold Let_def, simp add: named_entries_def)

lemma page_key_numbered:
  "map page_key (numbered k es) = map (\<lambda>(n, e). (word_of_nat n, e)) (enumerate k (map snd es))"
  by (induction es arbitrary: k) (simp_all add: page_key_def)

lemma numbered_nth: "j < length es \<Longrightarrow> fst (numbered k es ! j) = word_of_nat (k + j)"
  by (simp add: numbered_def nth_enumerate_eq)

lemma named_entries_keep:
  assumes "inode_inv s" and "length names \<le> inode_room s"
  shows "inode_inv (snd (named_entries path names s)) \<and>
    inode_room s = inode_room (snd (named_entries path names s)) + length names \<and>
    (path_for s i = Some p \<longrightarrow> path_for (snd (named_entries path names s)) i = Some p)"
proof -
  let ?ops = "map (\<lambda>n. Add (entry_path path (clean_name n))) names :: (string, u64) table_op list"
  obtain hs t where t: "table_run inode_add fuse_forget ?ops s = (hs, t)"
    by (cases "table_run inode_add fuse_forget ?ops s")
  have "adds ?ops = length names"
    by (induction names) simp_all
  moreover have "Drop i \<notin> set ?ops"
    by auto
  ultimately show ?thesis
    using fuse_inodes.run_inv [OF assms(1) _ t] fuse_inodes.run_room [OF assms(1) _ t]
      fuse_inodes.run_keeps [OF assms(1) _ t, of i p] assms(2)
    by (simp add: named_entries_def t)
qed

lemma readdir_page:
  assumes "dir_path s ino = Some path" and "rt w ReadDir path [] = (Replied (Inr resp), w')"
    and "length (full_listing (resp_data resp)) < 2 ^ 64" and "\<forall>e. \<not> fv_full env [] e"
    and "unat offset \<le> length (full_listing (resp_data resp))"
  obtains m es where "run rt (fuse_handler env (FReaddir ino offset)) s w =
      (Done (RDirectory es), [], snd (named_entries path (listing_names (resp_data resp)) s), w')"
    and "map page_key es = take m (drop (unat offset) (full_listing (resp_data resp)))" and "0 < m"
    and "es \<noteq> [] \<Longrightarrow> unat (fst (last es)) = unat offset + length es"
proof -
  let ?names = "listing_names (resp_data resp)"
  let ?v = "[(1, Directory, ''.''), (if ino = 1 then 1 else parent_ino env path s, Directory, ''..'')] @
      fst (named_entries path ?names s)"
  have keys: "map page_key (numbered (Suc 0) ?v) = full_listing (resp_data resp)"
    by (simp only: page_key_numbered map_append map_snd_named_entries) (simp add: full_listing_def)
  then have len: "length ?v = length (full_listing (resp_data resp))"
    by (metis length_map numbered_simps(3))
  obtain m where m: "fill_reply env offset 0 ?v [] = take m (drop (unat offset) (numbered (Suc 0) ?v))" "0 < m"
    using fill_reply_prefix [of 0 ?v env offset "[]"] assms(3,4) len by auto
  let ?es = "take m (drop (unat offset) (numbered (Suc 0) ?v))"
  have "unat (fst (last ?es)) = unat offset + length ?es" if "?es \<noteq> []"
  proof -
    let ?j = "unat offset + (length ?es - 1)"
    have j: "?j < length ?v"
      using that by (auto simp: min_def)
    have "last ?es = numbered (Suc 0) ?v ! ?j"
      using that assms(5) len by (subst last_conv_nth) (auto simp: nth_append min_def)
    then have "fst (last ?es) = word_of_nat (Suc ?j)"
      using numbered_nth [OF j, of "Suc 0"] by simp
    moreover have "Suc ?j = unat offset + length ?es"
      using that by (cases ?es) simp_all
    moreover have "Suc ?j < 2 ^ 64"
      using j len assms(3) by simp
    ultimately show ?thesis
      using unat_word64 [of "Suc ?j"] by simp
  qed
  moreover have "map page_key ?es = take m (drop (unat offset) (full_listing (resp_data resp)))"
    by (simp only: take_map drop_map flip: keys)
  ultimately show ?thesis
    using that [of ?es m] run_fuse_readdir [OF assms(1), of rt w resp w' env offset] assms(2) m
    by (simp del: fill_reply.simps)
qed

lemma readdir_pages_from:
  assumes "\<forall>w. \<exists>resp w'. rt w ReadDir path [] = (Replied (Inr resp), w') \<and> resp_data resp = data"
    and "length (full_listing data) < 2 ^ 64" and "\<forall>e. \<not> fv_full env [] e"
  shows "inode_inv s \<Longrightarrow> dir_path s ino = Some path \<Longrightarrow> n * length (listing_names data) \<le> inode_room s \<Longrightarrow>
    unat offset \<le> length (full_listing data) \<Longrightarrow> length (full_listing data) < n + unat offset \<Longrightarrow>
    \<exists>pages. readdir_pages n env rt ino offset s w = Some pages \<and>
      map page_key (concat pages) = drop (unat offset) (full_listing data)"
proof (induction n arbitrary: offset s w)
  case (Suc n)
  let ?L = "full_listing data" and ?s' = "snd (named_entries path (listing_names data) s)"
  obtain resp w' where rd: "rt w ReadDir path [] = (Replied (Inr resp), w')" "resp_data resp = data"
    using assms(1) by blast
  obtain m es where page: "run rt (fuse_handler env (FReaddir ino offset)) s w = (Done (RDirectory es), [], ?s', w')"
    "map page_key es = take m (drop (unat offset) ?L)" "0 < m"
    and last: "es \<noteq> [] \<Longrightarrow> unat (fst (last es)) = unat offset + length es"
    using readdir_page [of s ino path rt w resp w' env offset] Suc.prems(2,4) rd assms(2,3) by metis
  have len: "length es = min m (length ?L - unat offset)"
    using arg_cong [OF page(2), of length] by simp
  show ?case
  proof (cases "es = []")
    case True
    then have "drop (unat offset) ?L = []"
      using len page(3) by (simp add: min_def split: if_splits)
    with True page(1) show ?thesis
      by simp
  next
    case False
    have off: "unat (fst (last es)) = unat offset + length es"
      using last False by simp
    note keep = named_entries_keep [OF Suc.prems(1), of "listing_names data" path]
    have "dir_path ?s' ino = Some path"
      using keep Suc.prems(2,3) by (auto simp: dir_path_def)
    moreover have "0 < length es"
      using False by simp
    then have "unat offset + length es \<le> length ?L" "length ?L < n + (unat offset + length es)"
      using len Suc.prems(4,5) by linarith+
    ultimately obtain pages where "readdir_pages n env rt ino (fst (last es)) ?s' w' = Some pages"
      "map page_key (concat pages) = drop (unat offset + length es) ?L"
      using Suc.IH [of ?s' "fst (last es)" w'] keep Suc.prems(3) off by auto
    moreover have "take m (drop (unat offset) ?L) @ drop (unat offset + length es) ?L = drop (unat offset) ?L"
    proof -
      have "take m (drop (unat offset) ?L) = take (length es) (drop (unat offset) ?L)"
        using len by (simp add: min_def)
      moreover have "drop (unat offset + length es) ?L = drop (length es) (drop (unat offset) ?L)"
        by (simp add: add.commute)
      ultimately show ?thesis
        by (simp only: append_take_drop_id)
    qed
    ultimately show ?thesis
      using False page by simp
  qed
qed simp

text \<open>
  C31: A directory is listed completely. If the listing handler of a directory keeps returning
  the same text and the reply buffer takes at least one entry, then the kernel's loop ends
  within the stated number of calls, and the pages together are the whole listing: dot,
  dot-dot and the entries of the text in order, numbered from 1, each once, a directory iff its
  name ends in a slash.
\<close>

theorem fuse_readdir_pages_complete:
  assumes "inode_inv s" and "dir_path s ino = Some path"
    and "\<forall>w. \<exists>resp w'. rt w ReadDir path [] = (Replied (Inr resp), w') \<and> resp_data resp = data"
    and "\<forall>e. \<not> fv_full env [] e" and "length (full_listing data) < 2 ^ 64"
    and "(length (full_listing data) + 1) * length (listing_names data) \<le> inode_room s"
  shows "\<exists>pages. readdir_pages (length (full_listing data) + 1) env rt ino 0 s w = Some pages \<and>
    map page_key (concat pages) = full_listing data"
  using readdir_pages_from [where rt = rt and path = path and data = data and env = env, OF assms(3,5,4,1,2,6), of 0 w]
  by simp

lemma demo_listing:
  "listing_names (as_bytes ''a'') = [''a'']"
proof -
  have "trim ''a'' = ''a''"
    by (rule trim_graphic) (simp_all add: is_graphic_def)
  moreover have "str_lines ''a'' = [''a'']"
    by (simp add: str_lines_def strip_cr_def ends_with_char_def)
  ultimately show ?thesis
    by (simp add: listing_names_def demo_names line_name_def split_once_def Let_def map_filter_simps)
qed

lemma demo_full_listing:
  "full_listing (as_bytes ''a'') = [(1, Directory, ''.''), (2, Directory, ''..''), (3, RegularFile, ''a'')]"
  by (simp add: full_listing_def demo_listing entry_kind_def clean_name_def ends_with_char_def trim_end_char_def)

theorem fuse_readdir_pages_complete_witness:
  "\<exists>pages. readdir_pages 4 demo_env (\<lambda>w op p d. (answer_with (as_bytes ''a''), w)) 1 0 fuse_new () = Some pages \<and>
    map page_key (concat pages) = [(1, Directory, ''.''), (2, Directory, ''..''), (3, RegularFile, ''a'')]"
proof -
  have "\<exists>pages. readdir_pages (length (full_listing (as_bytes ''a'')) + 1) demo_env
      (\<lambda>w op p d. (answer_with (as_bytes ''a''), w)) 1 0 fuse_new () = Some pages \<and>
    map page_key (concat pages) = full_listing (as_bytes ''a'')"
    by (rule fuse_readdir_pages_complete [where path = "''/''"])
      (simp_all add: fuse_new_inv dir_path_def answer_with_def demo_env_def demo_listing demo_full_listing)
  then show ?thesis
    by (simp add: demo_full_listing eval_nat_numeral del: readdir_pages.simps)
qed

text \<open>
  The inodes of a listing. Every entry behind dot and dot-dot of a page has an inode that
  was not in the table before and stands for the path of the entry afterwards; so each call of
  \<open>readdir\<close> makes new inodes for all the entries of the directory.
\<close>

theorem fuse_readdir_inodes:
  assumes "inode_inv s" and "dir_path s ino = Some path"
    and "rt w ReadDir path [] = (Replied (Inr resp), w')"
    and "length (listing_names (resp_data resp)) \<le> inode_room s"
    and "length (full_listing (resp_data resp)) < 2 ^ 64"
    and "run rt (fuse_handler env (FReaddir ino offset)) s w = (Done (RDirectory es), out, s', w'')"
    and "(seq, i, kind, name) \<in> set es" and "2 < seq"
  shows "path_for s i = None \<and> path_for s' i = Some (entry_path path name) \<and>
    unat (ino_next s') = unat (ino_next s) + length (listing_names (resp_data resp))"
proof -
  let ?names = "listing_names (resp_data resp)"
  let ?vs = "map (\<lambda>n. entry_path path (clean_name n)) ?names"
  let ?dots = "[(1, Directory, ''.''), (if ino = 1 then 1 else parent_ino env path s, Directory, ''..'')]"
  obtain hs t where t: "table_run inode_add fuse_forget (map Add ?vs) s = (hs, t)"
    by (cases "table_run inode_add fuse_forget (map Add ?vs) s")
  then have ne: "named_entries path ?names s = (map2 (\<lambda>i n. (i, entry_kind n, clean_name n)) hs ?names, t)"
    by (simp add: named_entries_def comp_def)
  have room: "adds (map Add ?vs :: (string, u64) table_op list) \<le> inode_room s"
    using assms(4) by (simp add: adds_def comp_def)
  note r = run_fuse_readdir [where rt = rt and w = w, OF assms(2,3), of env offset]
  have es: "es = fill_reply env offset 0 (?dots @ fst (named_entries path ?names s)) []" "s' = t"
    using r assms(6) ne by (simp_all del: fill_reply.simps)
  have len: "length hs = length ?names"
    using fuse_inodes.run_adds [OF assms(1) _ t] assms(4) by simp
  have "(seq, i, kind, name) \<in> set (numbered (Suc 0) (?dots @ fst (named_entries path ?names s)))"
    using es(1) assms(5,7) fill_reply_prefix [of 0 "?dots @ fst (named_entries path ?names s)" env offset "[]"] len
    by (auto simp: ne full_listing_def simp del: fill_reply.simps dest!: in_set_takeD in_set_dropD)
  then have "(i, kind, name) \<in> set (fst (named_entries path ?names s))"
    using assms(8) by (auto dest: numbered_mem)
  then obtain k where k: "k < length ?names" "i = hs ! k" "name = clean_name (?names ! k)"
    using len by (auto simp: ne in_set_zip)
  then have "path_for t i = Some (entry_path path name)"
    using fuse_inodes.run_adds [OF assms(1) _ t] assms(4) by simp
  moreover have "path_for s i = None"
    using fuse_inodes.run_inv [OF assms(1) room t] fuse_inodes.get_used [OF assms(1), of i] k len
    by (metis disjoint_iff nth_mem)
  moreover have "unat (ino_next t) = unat (ino_next s) + length ?names"
    using fuse_inodes.run_room [OF assms(1) room t] assms(4) unat64_lt [of "ino_next s"] unat64_lt [of "ino_next t"]
    by (simp add: adds_def comp_def inode_room_def)
  ultimately show ?thesis
    using es(2) by simp
qed

lemma demo_page:
  "run (\<lambda>w op p d. (answer_with (as_bytes ''a''), w)) (fuse_handler demo_env (FReaddir 1 0)) fuse_new () =
    (Done (RDirectory [(1, 1, Directory, ''.''), (2, 1, Directory, ''..''), (3, 2, RegularFile, ''a'')]), [],
     \<lparr>ino_next = 3, ino_paths = [(1, ''/''), (2, ''/a'')], size_cache = Map.empty\<rparr>, ())"
proof -
  have "named_entries ''/'' [''a''] fuse_new = ([(2, RegularFile, ''a'')],
      \<lparr>ino_next = 3, ino_paths = [(1, ''/''), (2, ''/a'')], size_cache = Map.empty\<rparr>)"
    by (simp add: named_entries_def inode_add_def next_ino_def record_path_def fuse_new_def entry_kind_def
        clean_name_def ends_with_char_def trim_end_char_def entry_path_def)
  then show ?thesis
    using run_fuse_readdir [where s = fuse_new and ino = 1 and path = "''/''" and w = "()" and env = demo_env and offset = 0 and
        rt = "\<lambda>w op p d. (answer_with (as_bytes ''a''), w)"]
    by (simp add: dir_path_def answer_with_def demo_listing demo_env_def)
qed

theorem fuse_readdir_inodes_witness:
  "path_for fuse_new 2 = None \<and>
   path_for \<lparr>ino_next = 3, ino_paths = [(1, ''/''), (2, ''/a'')], size_cache = Map.empty\<rparr> 2 = Some (entry_path ''/'' ''a'') \<and>
   unat (ino_next \<lparr>ino_next = 3, ino_paths = [(1, ''/''), (2, ''/a'')], size_cache = Map.empty\<rparr>) =
     unat (ino_next fuse_new) + length (listing_names (as_bytes ''a''))"
  using fuse_readdir_inodes [where s = fuse_new and ino = 1 and path = "''/''" and seq = 3 and i = 2 and
      kind = RegularFile and name = "''a''", OF _ _ _ _ _ demo_page]
  by (simp add: fuse_new_inv dir_path_def answer_with_def demo_listing demo_full_listing)

end
