(* ===== verification/Serialize.thy ===== *)
theory Serialize
  imports Lua_Values "HOL-Library.Char_ord" "HOL-Library.List_Lexorder"
begin

text \<open>
  The serialisation functions for scripts (\<open>src/src/serialize.rs\<close>; \<open>src/src/json.rs\<close> is an older
  copy of the JSON part that is not compiled): the conversions between Lua values and JSON
  values, encoders and decoders, path queries and CSV.

  Texts are printed and parsed by third-party crates (serde_json, serde_yaml, toml, csv), and
  the Lua virtual machine decides what a number becomes when it is stored (LuaJIT keeps
  floats), in which order \<open>pairs\<close> runs and which border the length operator returns. All of
  this is the parameter \<open>ser_lib\<close>. Allocation failures of the virtual machine are left out.
\<close>

named_theorems json_simps \<open>evaluation rules for JSON conversions\<close>

subsection \<open>Values\<close>

text \<open>\<open>serde_json::Number\<close>: a non-negative integer, a negative integer or a finite float.\<close>

datatype json_number = PosInt u64 | NegInt i64 | JFloat f64

text \<open>An object is a map ordered by its keys (\<open>serde_json::Map\<close> is a B-tree).\<close>

datatype json =
    JNull
  | JBool bool
  | JNumber json_number
  | JString string
  | JArray "json list"
  | JObject "(string \<times> json) list"

record ser_lib =
  sl_push :: "lua_value \<Rightarrow> lua_value"
  sl_pairs :: "lua_table \<Rightarrow> lua_table"
  sl_border :: "lua_table \<Rightarrow> nat"
  sl_f64_of_u64 :: "u64 \<Rightarrow> f64"
  sl_f64_of_i64 :: "i64 \<Rightarrow> f64"
  sl_show_f64 :: "f64 \<Rightarrow> string"
  sl_utf8_error :: "bytes \<Rightarrow> string"
  sl_json_print :: "json \<Rightarrow> string + string"
  sl_json_pretty :: "json \<Rightarrow> string + string"
  sl_json_parse :: "string \<Rightarrow> string + json"
  sl_yaml_print :: "json \<Rightarrow> string + string"
  sl_yaml_parse :: "string \<Rightarrow> string + json"
  sl_toml_print :: "json \<Rightarrow> string + string"
  sl_toml_parse :: "string \<Rightarrow> string + json"
  sl_parse_f64 :: "string \<Rightarrow> f64 option"
  sl_csv_write :: "string list list \<Rightarrow> string + bytes"
  sl_csv_read :: "string \<Rightarrow> (string + string list) \<times> (string + string list) list"

definition is_finite :: "f64 \<Rightarrow> bool" where
  "is_finite f = (take_bit 11 (drop_bit 52 f) \<noteq> 0x7FF)"

definition number_from_i64 :: "i64 \<Rightarrow> json_number" where
  "number_from_i64 i = (if 0 \<le> sint i then PosInt i else NegInt i)"

definition as_i64 :: "json_number \<Rightarrow> i64 option" where
  "as_i64 n = (case n of
      PosInt k \<Rightarrow> if k < 0x8000000000000000 then Some k else None
    | NegInt k \<Rightarrow> Some k
    | JFloat f \<Rightarrow> None)"

definition as_f64 :: "ser_lib \<Rightarrow> json_number \<Rightarrow> f64" where
  "as_f64 lib n = (case n of PosInt k \<Rightarrow> sl_f64_of_u64 lib k | NegInt k \<Rightarrow> sl_f64_of_i64 lib k | JFloat f \<Rightarrow> f)"

text \<open>\<open>Iterator::collect\<close> into a \<open>Result\<close>: the first error or all the values.\<close>

fun collect_results :: "('e + 'a) list \<Rightarrow> 'e + 'a list" where
  "collect_results [] = Inr []"
| "collect_results (Inl e # rs) = Inl e"
| "collect_results (Inr x # rs) = (case collect_results rs of Inl e \<Rightarrow> Inl e | Inr xs \<Rightarrow> Inr (x # xs))"

text \<open>\<open>Map::insert\<close>\<close>

fun bt_insert :: "string \<Rightarrow> 'a \<Rightarrow> (string \<times> 'a) list \<Rightarrow> (string \<times> 'a) list" where
  "bt_insert k v [] = [(k, v)]"
| "bt_insert k v ((k', v') # m) =
     (if k < k' then (k, v) # (k', v') # m
      else if k = k' then (k, v) # m
      else (k', v') # bt_insert k v m)"

subsection \<open>From Lua to JSON\<close>

definition show_i64 :: "i64 \<Rightarrow> string" where
  "show_i64 i = (if sint i < 0 then ''-'' @ show_nat (nat (- sint i)) else show_nat (nat (sint i)))"

definition lua_utf8 :: "ser_lib \<Rightarrow> bytes \<Rightarrow> string + string" where
  "lua_utf8 lib s = (if utf8_ok s then Inr (str_of_bytes s) else Inl (sl_utf8_error lib s))"

fun object_key :: "ser_lib \<Rightarrow> lua_value \<Rightarrow> string + string" where
  "object_key lib (LStr s) = lua_utf8 lib s"
| "object_key lib (LInt i) = Inr (show_i64 i)"
| "object_key lib (LNum f) = Inr (sl_show_f64 lib f)"
| "object_key lib k = Inl ''object keys must be strings or numbers''"

text \<open>The entries of a table in the order of \<open>pairs\<close>.\<close>

definition pairs_of :: "ser_lib \<Rightarrow> lua_table \<Rightarrow> lua_table" where
  "pairs_of lib t = filter (\<lambda>p. p \<in> set t) (sl_pairs lib t)"

text \<open>The pairs with their values converted, as far as the keys are good, collected into a map.\<close>

fun build_object :: "(string + string \<times> (string + json)) list \<Rightarrow> (string \<times> json) list \<Rightarrow> string + json" where
  "build_object [] m = Inr (JObject m)"
| "build_object (Inl e # ps) m = Inl e"
| "build_object (Inr (k, Inl e) # ps) m = Inl e"
| "build_object (Inr (k, Inr v) # ps) m = build_object ps (bt_insert k v m)"

lemma tget_size: "tget t k \<noteq> LNil \<Longrightarrow> size (tget t k) < size_list (size_prod size size) t"
proof (induction t)
  case (Cons p t)
  then show ?case
    by (cases p) (auto simp: tget_def split: if_splits)
qed simp

lemma element_size: "size (tget t k) < Suc (size_list (size_prod size size) t)"
  using tget_size [of t k] by (cases "tget t k = LNil") auto

lemma pair_size: "(k, v) \<in> set (pairs_of lib t) \<Longrightarrow> size v < Suc (size_list (size_prod size size) t)"
proof -
  assume "(k, v) \<in> set (pairs_of lib t)"
  then have "(k, v) \<in> set t"
    by (simp add: pairs_of_def)
  then have "size v < size_list (size_prod size size) t"
    by (rule size_list_estimation) simp
  then show ?thesis by simp
qed

function lua_to_json :: "ser_lib \<Rightarrow> lua_value \<Rightarrow> string + json" where
  "lua_to_json lib LNil = Inr JNull"
| "lua_to_json lib (LBool b) = Inr (JBool b)"
| "lua_to_json lib (LInt i) = Inr (JNumber (number_from_i64 i))"
| "lua_to_json lib (LNum f) =
     (if is_finite f then Inr (JNumber (JFloat f)) else Inl ''cannot encode non-finite number'')"
| "lua_to_json lib (LStr s) = map_sum id JString (lua_utf8 lib s)"
| "lua_to_json lib (LTable t) =
     (let len = sl_border lib t in
      if 0 < len \<and> len < 2 ^ 63 then
        map_sum id JArray (collect_results (map (\<lambda>i. lua_to_json lib (tget t (lua_index i))) [1..<len + 1]))
      else
        build_object (map (\<lambda>(k, v). map_sum id (\<lambda>key. (key, lua_to_json lib v)) (object_key lib k)) (pairs_of lib t)) [])"
| "lua_to_json lib LOther = Inl ''cannot encode this Lua type''"
  by pat_completeness auto

termination
  by (relation "measure (\<lambda>(lib, v). size v)") (auto intro: element_size pair_size)

declare lua_to_json.simps [simp del]
lemmas lua_to_json_simps [simp, json_simps] = lua_to_json.simps(1-5,7)

subsection \<open>From JSON to Lua\<close>

text \<open>
  \<open>t.set(i + 1, v)\<close> for the elements from index \<open>i\<close> on, and \<open>t.set(k, v)\<close>; what is stored is what
  the virtual machine makes of the value.
\<close>

fun set_elements :: "ser_lib \<Rightarrow> nat \<Rightarrow> lua_value list \<Rightarrow> lua_table \<Rightarrow> lua_table" where
  "set_elements lib i [] t = t"
| "set_elements lib i (v # vs) t = set_elements lib (Suc i) vs (tset (lua_index (Suc i)) (sl_push lib v) t)"

fun set_fields :: "ser_lib \<Rightarrow> (string \<times> lua_value) list \<Rightarrow> lua_table \<Rightarrow> lua_table" where
  "set_fields lib [] t = t"
| "set_fields lib ((k, v) # kvs) t = set_fields lib kvs (tset (lua_string k) (sl_push lib v) t)"

definition number_to_lua :: "ser_lib \<Rightarrow> json_number \<Rightarrow> lua_value" where
  "number_to_lua lib n = (case as_i64 n of Some i \<Rightarrow> LInt i | None \<Rightarrow> LNum (as_f64 lib n))"

fun json_to_lua :: "ser_lib \<Rightarrow> json \<Rightarrow> lua_value" where
  "json_to_lua lib JNull = LNil"
| "json_to_lua lib (JBool b) = LBool b"
| "json_to_lua lib (JNumber n) = number_to_lua lib n"
| "json_to_lua lib (JString s) = lua_string s"
| "json_to_lua lib (JArray arr) = LTable (set_elements lib 0 (map (json_to_lua lib) arr) [])"
| "json_to_lua lib (JObject m) = LTable (set_fields lib (map (\<lambda>(k, v). (k, json_to_lua lib v)) m) [])"

subsection \<open>Encoders and decoders\<close>

definition bind_result :: "'e + 'a \<Rightarrow> ('a \<Rightarrow> 'e + 'b) \<Rightarrow> 'e + 'b" where
  "bind_result r f = (case r of Inl e \<Rightarrow> Inl e | Inr x \<Rightarrow> f x)"

definition with_prefix :: "string \<Rightarrow> string + 'a \<Rightarrow> string + 'a" where
  "with_prefix p r = map_sum (\<lambda>e. p @ e) id r"

definition json_encode :: "ser_lib \<Rightarrow> lua_value \<Rightarrow> string + string" where
  "json_encode lib v = bind_result (lua_to_json lib v) (sl_json_print lib)"

definition json_encode_pretty :: "ser_lib \<Rightarrow> lua_value \<Rightarrow> string + string" where
  "json_encode_pretty lib v = bind_result (lua_to_json lib v) (sl_json_pretty lib)"

definition json_decode :: "ser_lib \<Rightarrow> string \<Rightarrow> string + lua_value" where
  "json_decode lib text = map_sum id (json_to_lua lib) (with_prefix ''JSON error: '' (sl_json_parse lib text))"

definition json_from_yaml :: "ser_lib \<Rightarrow> string \<Rightarrow> string + string" where
  "json_from_yaml lib text = bind_result (with_prefix ''YAML error: '' (sl_yaml_parse lib text)) (sl_json_print lib)"

definition yaml_encode :: "ser_lib \<Rightarrow> lua_value \<Rightarrow> string + string" where
  "yaml_encode lib v = bind_result (lua_to_json lib v) (\<lambda>j. with_prefix ''YAML error: '' (sl_yaml_print lib j))"

definition yaml_decode :: "ser_lib \<Rightarrow> string \<Rightarrow> string + lua_value" where
  "yaml_decode lib text = map_sum id (json_to_lua lib) (with_prefix ''YAML error: '' (sl_yaml_parse lib text))"

definition yaml_from_json :: "ser_lib \<Rightarrow> string \<Rightarrow> string + string" where
  "yaml_from_json lib text =
     bind_result (with_prefix ''JSON error: '' (sl_json_parse lib text))
       (\<lambda>j. with_prefix ''YAML error: '' (sl_yaml_print lib j))"

definition toml_encode :: "ser_lib \<Rightarrow> lua_value \<Rightarrow> string + string" where
  "toml_encode lib v =
     bind_result (lua_to_json lib v) (\<lambda>j.
       let obj = (case j of JObject m \<Rightarrow> j | _ \<Rightarrow> JObject (bt_insert ''value'' j [])) in
       with_prefix ''TOML error: '' (sl_toml_print lib obj))"

definition toml_decode :: "ser_lib \<Rightarrow> string \<Rightarrow> string + lua_value" where
  "toml_decode lib text = map_sum id (json_to_lua lib) (with_prefix ''TOML error: '' (sl_toml_parse lib text))"

subsection \<open>Path queries\<close>

fun type_name :: "json \<Rightarrow> string" where
  "type_name JNull = ''null''"
| "type_name (JBool b) = ''boolean''"
| "type_name (JNumber n) = ''number''"
| "type_name (JString s) = ''string''"
| "type_name (JArray a) = ''array''"
| "type_name (JObject m) = ''object''"

definition quoted :: "string \<Rightarrow> string" where
  "quoted s = [CHR 0x27] @ s @ [CHR 0x27]"

fun query_segment :: "json \<Rightarrow> string \<Rightarrow> string + json" where
  "query_segment (JObject m) seg =
     (case map_of m seg of Some v \<Rightarrow> Inr v | None \<Rightarrow> Inl (''key '' @ quoted seg @ '' not found''))"
| "query_segment (JArray arr) seg =
     (case parse_unsigned 64 seg of
        None \<Rightarrow> Inl (''array index '' @ quoted seg @ '' is not a valid integer'')
      | Some idx \<Rightarrow>
          if idx < length arr then Inr (arr ! idx)
          else Inl (''index '' @ show_nat idx @ '' out of bounds (len '' @ show_nat (length arr) @ '')''))"
| "query_segment other seg = Inl (''cannot index into '' @ type_name other @ '' with '' @ quoted seg)"

fun query_segments :: "string list \<Rightarrow> json \<Rightarrow> string + json" where
  "query_segments [] current = Inr current"
| "query_segments (seg # segs) current =
     (if seg = [] then query_segments segs current
      else bind_result (query_segment current seg) (query_segments segs))"

definition json_query_value :: "json \<Rightarrow> string \<Rightarrow> string + json" where
  "json_query_value val path = (if path = [] then Inr val else query_segments (split_on (CHR ''.'') path) val)"

definition decode_and_query ::
    "ser_lib \<Rightarrow> string \<Rightarrow> string \<Rightarrow> (string \<Rightarrow> string + json) \<Rightarrow> string \<Rightarrow> string + lua_value" where
  "decode_and_query lib text path parser format =
     bind_result (with_prefix (format @ '' error: '') (parser text)) (\<lambda>j.
       map_sum id (json_to_lua lib) (json_query_value j path))"

definition json_query :: "ser_lib \<Rightarrow> string \<Rightarrow> string \<Rightarrow> string + lua_value" where
  "json_query lib text path = decode_and_query lib text path (sl_json_parse lib) ''JSON''"

definition yaml_query :: "ser_lib \<Rightarrow> string \<Rightarrow> string \<Rightarrow> string + lua_value" where
  "yaml_query lib text path = decode_and_query lib text path (sl_yaml_parse lib) ''YAML''"

definition toml_query :: "ser_lib \<Rightarrow> string \<Rightarrow> string \<Rightarrow> string + lua_value" where
  "toml_query lib text path = decode_and_query lib text path (sl_toml_parse lib) ''TOML''"

subsection \<open>CSV\<close>

fun object_keys :: "json \<Rightarrow> string list" where
  "object_keys (JObject m) = map fst m"
| "object_keys j = []"

definition csv_columns :: "json list \<Rightarrow> string list" where
  "csv_columns rows =
     sort (fold (\<lambda>row cols. fold (\<lambda>k cols. if k \<in> set cols then cols else cols @ [k]) (object_keys row) cols) rows [])"

definition csv_cell :: "ser_lib \<Rightarrow> json option \<Rightarrow> string" where
  "csv_cell lib c =
     (case c of
        None \<Rightarrow> []
      | Some JNull \<Rightarrow> []
      | Some (JString s) \<Rightarrow> s
      | Some other \<Rightarrow> (case sl_json_print lib other of Inr s \<Rightarrow> s | Inl _ \<Rightarrow> []))"

fun csv_record :: "ser_lib \<Rightarrow> string list \<Rightarrow> json \<Rightarrow> string + string list" where
  "csv_record lib cols (JObject m) = Inr (map (\<lambda>col. csv_cell lib (map_of m col)) cols)"
| "csv_record lib cols j = Inl ''CSV encode expects an array of objects''"

definition csv_encode :: "ser_lib \<Rightarrow> lua_value \<Rightarrow> string + string" where
  "csv_encode lib v =
     bind_result (lua_to_json lib v) (\<lambda>j.
       case j of
         JArray rows \<Rightarrow>
           bind_result (collect_results (map (csv_record lib (csv_columns rows)) rows)) (\<lambda>recs.
             map_sum (\<lambda>e. ''CSV error: '' @ e) from_utf8_lossy (sl_csv_write lib (csv_columns rows # recs)))
       | _ \<Rightarrow> Inl ''CSV encode expects an array of objects'')"

text \<open>\<open>str::parse::<i64>\<close>\<close>

definition parse_i64 :: "string \<Rightarrow> i64 option" where
  "parse_i64 s =
     (case s of
        [] \<Rightarrow> None
      | c # cs \<Rightarrow>
          if c = CHR ''-'' then
            (if cs = [] then None
             else case digits_value 0 cs of
                    Some n \<Rightarrow> if n \<le> 2 ^ 63 then Some (- word_of_nat n) else None
                  | None \<Rightarrow> None)
          else map_option word_of_nat (parse_unsigned 63 s))"

definition csv_field :: "ser_lib \<Rightarrow> string \<Rightarrow> lua_value" where
  "csv_field lib field =
     (case parse_i64 field of
        Some n \<Rightarrow> LInt n
      | None \<Rightarrow>
          (case sl_parse_f64 lib field of
             Some f \<Rightarrow> LNum f
           | None \<Rightarrow> if field = [] then LNil else lua_string field))"

fun csv_row :: "ser_lib \<Rightarrow> string list \<Rightarrow> nat \<Rightarrow> string list \<Rightarrow> lua_table \<Rightarrow> lua_table" where
  "csv_row lib headers i [] t = t"
| "csv_row lib headers i (field # fs) t =
     (let key = (if i < length headers then headers ! i else []) in
      csv_row lib headers (Suc i) fs (tset (lua_string key) (sl_push lib (csv_field lib field)) t))"

text \<open>The loop over the records; \<open>keep\<close> selects the records that are entered, under their index.\<close>

fun csv_rows ::
    "ser_lib \<Rightarrow> string list \<Rightarrow> (string list \<Rightarrow> bool) \<Rightarrow> nat \<Rightarrow> (string + string list) list \<Rightarrow> lua_table \<Rightarrow> string + lua_table"
  where
  "csv_rows lib headers keep idx [] t = Inr t"
| "csv_rows lib headers keep idx (Inl e # rows) t = Inl (''CSV error: '' @ e)"
| "csv_rows lib headers keep idx (Inr rec # rows) t =
     csv_rows lib headers keep (Suc idx) rows
       (if keep rec then tset (lua_index (Suc idx)) (LTable (csv_row lib headers 0 rec [])) t else t)"

definition csv_decode :: "ser_lib \<Rightarrow> string \<Rightarrow> string + lua_value" where
  "csv_decode lib text =
     (case sl_csv_read lib text of
        (Inl e, rows) \<Rightarrow> Inl (''CSV error: '' @ e)
      | (Inr headers, rows) \<Rightarrow> map_sum id LTable (csv_rows lib headers (\<lambda>_. True) 0 rows []))"

fun position_of :: "'a \<Rightarrow> 'a list \<Rightarrow> nat option" where
  "position_of x [] = None"
| "position_of x (y # ys) = (if y = x then Some 0 else map_option Suc (position_of x ys))"

definition csv_query :: "ser_lib \<Rightarrow> string \<Rightarrow> string \<Rightarrow> string + lua_value" where
  "csv_query lib text filt =
     (case split_once (CHR ''='') filt of
        None \<Rightarrow> Inl ''CSV query syntax: column=value''
      | Some (col0, expected0) \<Rightarrow>
          (let col = trim col0; expected = trim expected0 in
           case sl_csv_read lib text of
             (Inl e, rows) \<Rightarrow> Inl (''CSV error: '' @ e)
           | (Inr headers, rows) \<Rightarrow>
               (case position_of col headers of
                  None \<Rightarrow> Inl (''column '' @ quoted col @ '' not found in CSV'')
                | Some ci \<Rightarrow>
                    map_sum id LTable
                      (csv_rows lib headers (\<lambda>rec. (if ci < length rec then rec ! ci else []) = expected) 0 rows []))))"

end
