(* ===== verification/Json_Roundtrip.thy ===== *)
theory Json_Roundtrip
  imports Serialize
begin

text \<open>
  The conversion from JSON to Lua and back. The laws assumed of the Lua virtual machine are the
  documented ones (\<open>vm_laws\<close>); the documents for which the conversion loses nothing are
  described by \<open>json_plain\<close>: no null inside a container, no empty array, numbers that the
  machine stores exactly.
\<close>

subsection \<open>The laws of the virtual machine and the documents\<close>

definition vm_laws :: "ser_lib \<Rightarrow> bool" where
  "vm_laws lib \<longleftrightarrow>
     (\<forall>t. table_ok t \<longrightarrow> length t < 2 ^ 63 \<longrightarrow> sl_border lib t < 2 ^ 63 \<and> is_border t (sl_border lib t)) \<and>
     (\<forall>t. table_ok t \<longrightarrow> mset (sl_pairs lib t) = mset t) \<and>
     (\<forall>b. sl_push lib (LBool b) = LBool b) \<and>
     (\<forall>s. sl_push lib (LStr s) = LStr s) \<and>
     (\<forall>t. sl_push lib (LTable t) = LTable t)"

fun number_plain :: "ser_lib \<Rightarrow> json_number \<Rightarrow> bool" where
  "number_plain lib (PosInt k) = (k < 0x8000000000000000 \<and> sl_push lib (LInt k) = LInt k)"
| "number_plain lib (NegInt k) = (sint k < 0 \<and> sl_push lib (LInt k) = LInt k)"
| "number_plain lib (JFloat f) = (is_finite f \<and> sl_push lib (LNum f) = LNum f)"

fun json_plain :: "ser_lib \<Rightarrow> json \<Rightarrow> bool" where
  "json_plain lib JNull = False"
| "json_plain lib (JBool b) = True"
| "json_plain lib (JNumber n) = number_plain lib n"
| "json_plain lib (JString s) = utf8_ok (as_bytes s)"
| "json_plain lib (JArray arr) = (arr \<noteq> [] \<and> length arr < 2 ^ 63 \<and> (\<forall>v \<in> set arr. json_plain lib v))"
| "json_plain lib (JObject m) =
     (length m < 2 ^ 63 \<and> sorted_wrt (<) (map fst m) \<and>
      (\<forall>(k, v) \<in> set m. utf8_ok (as_bytes k) \<and> json_plain lib v))"

subsection \<open>Tables that are filled\<close>

lemma length_tset: "length (tset k v t) \<le> Suc (length t)"
  by (simp add: tset_def length_hm_insert le_SucI)

lemma length_set_elements: "length (set_elements lib i vs t) \<le> length vs + length t"
proof (induction vs arbitrary: i t)
  case (Cons v vs)
  then show ?case
    using length_tset [of "lua_index (Suc i)" "sl_push lib v" t]
    by (simp add: le_trans [OF Cons.IH])
qed simp

lemma table_ok_set_elements: "table_ok t \<Longrightarrow> table_ok (set_elements lib i vs t)"
  by (induction vs arbitrary: i t) (simp_all add: table_ok_tset)

lemma tget_set_elements:
  assumes "\<forall>v \<in> set vs. sl_push lib v = v" and "i + length vs < 2 ^ 64" and "n < 2 ^ 64"
  shows "tget (set_elements lib i vs t) (lua_index n) =
    (if i < n \<and> n \<le> i + length vs then vs ! (n - Suc i) else tget t (lua_index n))"
  using assms
proof (induction vs arbitrary: i t)
  case (Cons v vs)
  have "lua_index n = lua_index (Suc i) \<longleftrightarrow> n = Suc i"
    using Cons.prems by (intro lua_index_inject) auto
  then show ?case
    using Cons by (auto simp: nth_Cons')
qed auto

lemma set_fields_fresh:
  assumes "\<forall>(k, v) \<in> set kvs. sl_push lib v = v \<and> v \<noteq> LNil"
    and "distinct (map fst kvs)" and "\<forall>k \<in> fst ` set kvs. lua_string k \<notin> fst ` set t"
  shows "set_fields lib kvs t = t @ map (\<lambda>(k, v). (lua_string k, v)) kvs"
  using assms
proof (induction kvs arbitrary: t)
  case (Cons p kvs)
  obtain k v where p: "p = (k, v)"
    by fastforce
  have "set_fields lib kvs (t @ [(lua_string k, v)]) =
      (t @ [(lua_string k, v)]) @ map (\<lambda>(k, v). (lua_string k, v)) kvs"
    using Cons.prems by (intro Cons.IH) (auto simp: p)
  then show ?case
    using Cons.prems by (simp add: p tset_def hm_insert_new hm_keys_def)
qed simp

subsection \<open>Ordered maps\<close>

lemma set_bt_insert: "k \<notin> fst ` set m \<Longrightarrow> set (bt_insert k v m) = insert (k, v) (set m)"
  by (induction k v m rule: bt_insert.induct) auto

lemma bt_insert_keys: "fst ` set (bt_insert k v m) \<subseteq> insert k (fst ` set m)"
  by (induction k v m rule: bt_insert.induct) auto

lemma sorted_bt_insert: "sorted_wrt (<) (map fst m) \<Longrightarrow> sorted_wrt (<) (map fst (bt_insert k v m))"
proof (induction k v m rule: bt_insert.induct)
  case (2 k v k' v' m)
  have "k' < fst q" if "q \<in> set (bt_insert k v m)" and "k' < k" and "\<forall>p \<in> set m. k' < fst p" for q
    using that bt_insert_keys [of k v m] by force
  then show ?case
    using 2 by auto
qed simp

lemma build_object_sorted:
  assumes "sorted_wrt (<) (map fst m)" and "distinct (map fst kvs)" and "fst ` set kvs \<inter> fst ` set m = {}"
  shows "\<exists>m'. build_object (map (\<lambda>(k, v). Inr (k, Inr v)) kvs) m = Inr (JObject m') \<and>
    sorted_wrt (<) (map fst m') \<and> set m' = set kvs \<union> set m"
  using assms
proof (induction kvs arbitrary: m)
  case (Cons p kvs)
  obtain k v where p: "p = (k, v)"
    by fastforce
  have "\<exists>m'. build_object (map (\<lambda>(k, v). Inr (k, Inr v)) kvs) (bt_insert k v m) = Inr (JObject m') \<and>
    sorted_wrt (<) (map fst m') \<and> set m' = set kvs \<union> set (bt_insert k v m)"
    using Cons.prems by (intro Cons.IH) (auto simp: p sorted_bt_insert set_bt_insert)
  then show ?case
    using Cons.prems by (auto simp: p set_bt_insert)
qed simp

lemma sorted_map_unique:
  fixes m :: "('k :: linorder \<times> 'a) list"
  assumes "sorted_wrt (<) (map fst m)" and "sorted_wrt (<) (map fst m')" and "set m = set m'"
  shows "m = m'"
proof (rule map_sorted_distinct_set_unique [where f = fst])
  have dist: "distinct (map fst m)" "distinct (map fst m')"
    using assms(1,2) by (simp_all add: strict_sorted_iff)
  then show "distinct (map fst m)" "distinct (map fst m')" .
  show "sorted (map fst m)" "sorted (map fst m')"
    using assms(1,2) by (simp_all add: strict_sorted_iff)
  show "inj_on fst (set m \<union> set m')"
    using dist(1) assms(3) by (simp add: distinct_map)
qed (rule assms(3))

lemma build_object_perm:
  assumes "sorted_wrt (<) (map fst m)" and "mset kvs = mset m"
  shows "build_object (map (\<lambda>(k, v). Inr (k, Inr v)) kvs) [] = Inr (JObject m)"
proof -
  have "distinct (map fst m)"
    using assms(1) by (simp add: strict_sorted_iff)
  then have "distinct (map fst kvs)"
    using assms(2) by (metis mset_eq_imp_distinct_iff mset_map)
  then obtain m' where "build_object (map (\<lambda>(k, v). Inr (k, Inr v)) kvs) [] = Inr (JObject m')"
      and "sorted_wrt (<) (map fst m')" and "set m' = set kvs"
    using build_object_sorted [of "[]" kvs] by auto
  then show ?thesis
    using sorted_map_unique [OF _ assms(1)] mset_eq_setD [OF assms(2)] by metis
qed

subsection \<open>The round trip\<close>

lemma sint_nonneg: "(k :: i64) < 0x8000000000000000 \<Longrightarrow> 0 \<le> sint k"
proof -
  assume "k < 0x8000000000000000"
  then have "uint k < 9223372036854775808"
    by (simp add: word_less_def)
  then have "\<not> bit (uint k) 63"
    by (simp add: bit_iff_odd)
  then show ?thesis
    by (simp add: sint_uint signed_take_bit_eq_if_positive)
qed

lemma number_roundtrip: "number_plain lib n \<Longrightarrow> lua_to_json lib (number_to_lua lib n) = Inr (JNumber n)"
  by (cases n) (auto simp: number_to_lua_def as_i64_def as_f64_def number_from_i64_def sint_nonneg)

lemma plain_not_nil: "json_plain lib j \<Longrightarrow> json_to_lua lib j \<noteq> LNil"
  by (cases j) (auto simp: number_to_lua_def lua_string_def split: option.splits)

lemma plain_pushed:
  assumes "vm_laws lib" and "json_plain lib j"
  shows "sl_push lib (json_to_lua lib j) = json_to_lua lib j"
proof (cases j)
  case (JNumber n)
  then show ?thesis
    using assms by (cases n) (auto simp: number_to_lua_def as_i64_def as_f64_def)
qed (use assms in \<open>auto simp: vm_laws_def lua_string_def\<close>)

lemma collect_results_Inr [simp]: "collect_results (map Inr xs) = Inr xs"
  by (induction xs) simp_all

lemma array_roundtrip:
  assumes laws: "vm_laws lib" and plain: "json_plain lib (JArray arr)"
    and elems: "\<forall>v \<in> set arr. lua_to_json lib (json_to_lua lib v) = Inr v"
  shows "lua_to_json lib (json_to_lua lib (JArray arr)) = Inr (JArray arr)"
proof -
  let ?t = "set_elements lib 0 (map (json_to_lua lib) arr) []"
  have get: "tget ?t (lua_index n) = (if 0 < n \<and> n \<le> length arr then json_to_lua lib (arr ! (n - 1)) else LNil)"
    if "n < 2 ^ 64" for n
    using tget_set_elements [of "map (json_to_lua lib) arr" lib 0 n "[]"] plain plain_pushed [OF laws] that
    by auto
  have "length ?t < 2 ^ 63"
    using length_set_elements [of lib 0 "map (json_to_lua lib) arr" "[]"] plain by simp
  then have border: "sl_border lib ?t < 2 ^ 63" "is_border ?t (sl_border lib ?t)"
    using laws by (auto simp: vm_laws_def table_ok_set_elements)
  then have len: "sl_border lib ?t = length arr"
    using plain plain_not_nil
    by (auto simp: is_border_def get Suc_le_eq split: if_splits)
  have "map (\<lambda>i. lua_to_json lib (tget ?t (lua_index i))) [1..<length arr + 1] = map Inr arr"
    using elems plain by (intro nth_equalityI) (auto simp: get simp del: upt_Suc)
  then show ?thesis
    using plain by (simp add: lua_to_json.simps(6) len del: upt_Suc)
qed

lemma mset_map_preimage: "mset xs = image_mset f M \<Longrightarrow> \<exists>ms. mset ms = M \<and> map f ms = xs"
proof (induction xs arbitrary: M)
  case (Cons x xs)
  then have "image_mset f M = add_mset x (mset xs)"
    by simp
  then obtain a M' where "M = add_mset a M'" and "f a = x" and "image_mset f M' = mset xs"
    by (blast dest: msed_map_invR)
  moreover obtain ms where "mset ms = M'" and "map f ms = xs"
    using Cons.IH [of M'] calculation by auto
  ultimately show ?case
    by (intro exI [of _ "a # ms"]) simp
qed simp

lemma object_roundtrip:
  assumes laws: "vm_laws lib" and plain: "json_plain lib (JObject m)"
    and elems: "\<forall>(k, v) \<in> set m. lua_to_json lib (json_to_lua lib v) = Inr v"
  shows "lua_to_json lib (json_to_lua lib (JObject m)) = Inr (JObject m)"
proof -
  let ?entry = "\<lambda>(k, v). (lua_string k, json_to_lua lib v)"
  have dist: "distinct (map fst m)"
    using plain by (simp add: strict_sorted_iff)
  have table: "json_to_lua lib (JObject m) = LTable (map ?entry m)"
    using plain plain_pushed [OF laws] plain_not_nil dist
    by (subst json_to_lua.simps, subst set_fields_fresh) (auto simp: case_prod_unfold comp_def)
  have ok: "table_ok (map ?entry m)"
    using dist plain plain_not_nil
    by (auto simp: table_ok_def comp_def case_prod_unfold distinct_map inj_on_def)
  have none: "tget (map ?entry m) (lua_index n) = LNil" for n
    by (induction m) (auto simp: tget_def)
  have zero: "sl_border lib (map ?entry m) = 0"
    using laws ok plain none by (auto simp: vm_laws_def is_border_def)
  have "mset (pairs_of lib (map ?entry m)) = mset (map ?entry m)"
  proof -
    have same: "mset (sl_pairs lib (map ?entry m)) = mset (map ?entry m)"
      using laws ok by (auto simp: vm_laws_def)
    then have "pairs_of lib (map ?entry m) = sl_pairs lib (map ?entry m)"
      unfolding pairs_of_def by (metis filter_True mset_eq_setD)
    then show ?thesis
      using same by simp
  qed
  then obtain m' where perm: "mset m' = mset m" and pairs: "pairs_of lib (map ?entry m) = map ?entry m'"
    using mset_map_preimage [of "pairs_of lib (map ?entry m)" ?entry "mset m"] by auto
  have steps: "map (\<lambda>(k, v). map_sum id (\<lambda>key. (key, lua_to_json lib v)) (object_key lib k)) (map ?entry m') =
      map (\<lambda>(k, v). Inr (k, Inr v)) m'"
    using plain elems mset_eq_setD [OF perm] by (auto simp: lua_string_def lua_utf8_def)
  show ?thesis
    using plain perm build_object_perm [of m m'] unfolding table
    by (simp add: lua_to_json.simps(6) zero pairs steps del: map_map)
qed

lemma plain_roundtrip:
  assumes "vm_laws lib"
  shows "json_plain lib j \<Longrightarrow> lua_to_json lib (json_to_lua lib j) = Inr j"
proof (induction j)
  case (JNumber n)
  then show ?case
    by (simp add: number_roundtrip)
next
  case (JString s)
  then show ?case
    by (simp add: lua_string_def lua_utf8_def)
next
  case (JArray arr)
  then show ?case
    using array_roundtrip [OF assms] by simp
next
  case (JObject m)
  then show ?case
    by (intro object_roundtrip [OF assms]) auto
qed simp_all

lemma empty_array_roundtrip:
  assumes "vm_laws lib"
  shows "lua_to_json lib (json_to_lua lib (JArray [])) = Inr (JObject [])"
proof -
  have "sl_border lib [] = 0" and "sl_pairs lib [] = []"
    using assms by (auto simp: vm_laws_def is_border_def dest: spec [of _ "[]"])
  then show ?thesis
    by (simp add: lua_to_json.simps(6) pairs_of_def)
qed

text \<open>
  C35: Decoding a plain JSON text and encoding the Lua value again yields the document that was
  parsed, whatever order \<open>pairs\<close> chooses and whichever border the length operator returns:
  \<open>json.enc(json.dec(text))\<close> prints the parsed document and \<open>yaml.enc(json.dec(text))\<close> is the
  direct conversion \<open>yaml_from_json\<close>. The exclusion of empty arrays is needed: an empty
  array comes back as an empty object.
\<close>

theorem json_roundtrip:
  assumes "vm_laws lib" and "sl_json_parse lib text = Inr j" and "json_plain lib j"
  shows "bind_result (json_decode lib text) (lua_to_json lib) = Inr j \<and>
    bind_result (json_decode lib text) (json_encode lib) = sl_json_print lib j \<and>
    bind_result (json_decode lib text) (yaml_encode lib) = yaml_from_json lib text \<and>
    lua_to_json lib (json_to_lua lib (JArray [])) = Inr (JObject [])"
  using assms
  by (simp add: json_decode_def with_prefix_def bind_result_def json_encode_def yaml_encode_def
      yaml_from_json_def plain_roundtrip empty_array_roundtrip del: json_to_lua.simps)

subsection \<open>A virtual machine that keeps the laws\<close>

definition first_border :: "lua_table \<Rightarrow> nat" where
  "first_border t = length (takeWhile (\<lambda>n. tget t (lua_index (Suc n)) \<noteq> LNil) [0..<Suc (length t)])"

lemma all_of_length_takeWhile: "length (takeWhile P xs) = length xs \<Longrightarrow> \<forall>x \<in> set xs. P x"
  by (induction xs) (auto split: if_splits)

lemma tget_present: "tget t k \<noteq> LNil \<Longrightarrow> k \<in> fst ` set t"
  by (induction t) (auto simp: tget_def split: if_splits)

lemma first_border_le:
  assumes "length t < 2 ^ 63"
  shows "first_border t \<le> length t"
proof (rule ccontr)
  let ?keys = "map (\<lambda>n. lua_index (Suc n)) [0..<Suc (length t)]"
  assume "\<not> first_border t \<le> length t"
  then have "length (takeWhile (\<lambda>n. tget t (lua_index (Suc n)) \<noteq> LNil) [0..<Suc (length t)]) = length [0..<Suc (length t)]"
    unfolding first_border_def
    by (intro antisym length_takeWhile_le) (simp del: upt_Suc add: length_upt)
  then have "\<forall>n \<in> set [0..<Suc (length t)]. tget t (lua_index (Suc n)) \<noteq> LNil"
    by (rule all_of_length_takeWhile)
  then have "set ?keys \<subseteq> fst ` set t"
    using tget_present by (auto simp del: upt_Suc)
  moreover have "distinct ?keys"
    using assms by (auto simp: distinct_map inj_on_def lua_index_inject simp del: upt_Suc)
  ultimately have "length ?keys \<le> card (fst ` set t)"
    by (metis card_mono distinct_card finite_imageI finite_set)
  then show False
    using card_image_le [of "set t" fst] card_length [of t] by simp
qed

lemma first_border_is_border:
  assumes "length t < 2 ^ 63"
  shows "is_border t (first_border t)"
proof -
  let ?P = "\<lambda>n. tget t (lua_index (Suc n)) \<noteq> LNil"
  have le: "first_border t < length [0..<Suc (length t)]"
    using first_border_le [OF assms] by simp
  have "\<not> ?P (first_border t)"
    using nth_length_takeWhile [of ?P "[0..<Suc (length t)]"] le
    unfolding first_border_def by (simp del: upt_Suc)
  moreover have "?P n" if "n < first_border t" for n
    using that le set_takeWhileD [of n ?P "[0..<Suc (length t)]"] nth_mem [of n "takeWhile ?P [0..<Suc (length t)]"]
      takeWhile_nth [of n ?P "[0..<Suc (length t)]"]
    unfolding first_border_def by (simp del: upt_Suc)
  ultimately show ?thesis
    by (cases "first_border t") (auto simp: is_border_def)
qed

definition demo_json :: json where
  "demo_json = JObject [(''a'', JArray [JBool True, JNumber (PosInt 7)]), (''b'', JString ''x'')]"

text \<open>A machine with exact numbers, whose \<open>pairs\<close> runs backwards, and a parser for one text.\<close>

definition demo_lib :: ser_lib where
  "demo_lib =
     \<lparr>sl_push = \<lambda>v. v, sl_pairs = rev, sl_border = first_border, sl_f64_of_u64 = \<lambda>k. k, sl_f64_of_i64 = \<lambda>k. k,
      sl_show_f64 = \<lambda>_. [], sl_utf8_error = \<lambda>_. [],
      sl_json_print = \<lambda>j. if j = demo_json then Inr ''{a}'' else Inl ''unsupported'',
      sl_json_pretty = \<lambda>_. Inl [], sl_json_parse = \<lambda>s. if s = ''{a}'' then Inr demo_json else Inl ''expected value'',
      sl_yaml_print = \<lambda>_. Inl ''unsupported'', sl_yaml_parse = \<lambda>_. Inl [],
      sl_toml_print = \<lambda>_. Inl [], sl_toml_parse = \<lambda>_. Inl [], sl_parse_f64 = \<lambda>_. None,
      sl_csv_write = \<lambda>_. Inl [],
      sl_csv_read = \<lambda>_. (Inr [''id'', ''name''], [Inr [''1'', ''ann''], Inr [''2'', ''bob'']])\<rparr>"

lemma demo_lib_laws: "vm_laws demo_lib"
  using first_border_le first_border_is_border
  by (auto simp: vm_laws_def demo_lib_def intro: order_le_less_trans)

lemma demo_json_plain: "json_plain demo_lib demo_json"
  by (simp add: demo_json_def utf8_ok_ascii as_bytes_def byte_of_char_def) (simp add: demo_lib_def)

theorem json_roundtrip_witness:
  "bind_result (json_decode demo_lib ''{a}'') (json_encode demo_lib) = Inr ''{a}''"
proof -
  have "sl_json_parse demo_lib ''{a}'' = Inr demo_json" and "sl_json_print demo_lib demo_json = Inr ''{a}''"
    by (simp_all add: demo_lib_def)
  then show ?thesis
    using json_roundtrip [OF demo_lib_laws _ demo_json_plain, of "''{a}''"] by simp
qed

end
