(* ===== verification/Serialize_Queries.thy ===== *)
theory Serialize_Queries
  imports Json_Roundtrip
begin

text \<open>
  What the path queries and the CSV functions return: a dotted path addresses the value that
  its steps address in the document tree, and a CSV query keeps the rows of \<open>csv.dec\<close> that
  match, at their old indices.
\<close>

subsection \<open>Path queries\<close>

datatype json_step = Key string | Index nat

fun json_at :: "json \<Rightarrow> json_step list \<Rightarrow> json option" where
  "json_at j [] = Some j"
| "json_at (JObject m) (Key k # steps) = (case map_of m k of None \<Rightarrow> None | Some v \<Rightarrow> json_at v steps)"
| "json_at (JArray arr) (Index i # steps) = (if i < length arr then json_at (arr ! i) steps else None)"
| "json_at j (s # steps) = None"

fun step_text :: "json_step \<Rightarrow> string" where
  "step_text (Key k) = k"
| "step_text (Index i) = show_nat i"

fun step_ok :: "json_step \<Rightarrow> bool" where
  "step_ok (Key k) = (k \<noteq> [] \<and> CHR ''.'' \<notin> set k)"
| "step_ok (Index i) = (i < 2 ^ 64)"

lemma split_on_append: "split_on c (a @ c # b) = split_on c a @ split_on c b"
  by (induction a) (auto split: list.splits)

lemma query_segments_append:
  "query_segments (ss @ ts) j = bind_result (query_segments ss j) (query_segments ts)"
  by (induction ss arbitrary: j) (auto simp: bind_result_def split: sum.splits)

lemma query_value_segments: "json_query_value j path = query_segments (split_on (CHR ''.'') path) j"
  by (simp add: json_query_value_def)

lemma step_text_ok: "step_ok s \<Longrightarrow> step_text s \<noteq> [] \<and> CHR ''.'' \<notin> set (step_text s)"
proof (cases s)
  case (Index i)
  then show ?thesis
    using show_base_digits [of "CHR ''.''" i] show_base_not_Nil [of 10 i]
    by (auto simp: show_nat_def is_ascii_digit_def)
qed auto

lemma query_steps:
  "json_at j steps = Some v \<Longrightarrow> \<forall>s \<in> set steps. step_ok s \<Longrightarrow> query_segments (map step_text steps) j = Inr v"
proof (induction j steps rule: json_at.induct)
  case (2 m k steps)
  then show ?case
    by (auto simp: bind_result_def split: option.splits)
next
  case (3 arr i steps)
  then show ?case
    using step_text_ok [of "Index i"] by (auto simp: bind_result_def parse_show_nat split: if_splits)
qed auto

text \<open>
  C38: A dotted path whose steps are keys without dots and indices returns the value that the
  steps address in the parsed document, and queries compose: the path \<open>p.q\<close> asks \<open>q\<close> of the
  answer to \<open>p\<close>, with the error of \<open>p\<close> if it fails, for all paths.
\<close>

theorem json_query_finds:
  assumes "sl_json_parse lib text = Inr j" and "json_at j steps = Some v" and "\<forall>s \<in> set steps. step_ok s"
  shows "json_query lib text (join_with ''.'' (map step_text steps)) = Inr (json_to_lua lib v) \<and>
    (\<forall>p q. json_query lib text (p @ ''.'' @ q) =
      bind_result (json_query_value j p) (\<lambda>k. map_sum id (json_to_lua lib) (json_query_value k q)))"
proof -
  have "split_on (CHR ''.'') (join_with ''.'' (map step_text steps)) = map step_text steps" if "steps \<noteq> []"
    using that assms(3) step_text_ok by (intro split_on_join) auto
  then have "json_query_value j (join_with ''.'' (map step_text steps)) = Inr v"
    using query_steps [OF assms(2,3)] assms(2)
    by (cases "steps = []") (simp_all add: query_value_segments)
  moreover have "json_query_value j (p @ ''.'' @ q) =
      bind_result (json_query_value j p) (\<lambda>k. json_query_value k q)" for p q
    using split_on_append [of "CHR ''.''" p q]
    by (simp add: query_value_segments query_segments_append)
  ultimately show ?thesis
    using assms(1) by (auto simp: json_query_def decode_and_query_def with_prefix_def bind_result_def split: sum.splits)
qed

theorem json_query_finds_witness:
  "json_query demo_lib ''{a}'' (join_with ''.'' (map step_text [Key ''a'', Index 1])) = Inr (LInt 7)"
proof -
  have "sl_json_parse demo_lib ''{a}'' = Inr demo_json"
    by (simp add: demo_lib_def)
  moreover have "json_at demo_json [Key ''a'', Index 1] = Some (JNumber (PosInt 7))"
    by (simp add: demo_json_def)
  ultimately have "json_query demo_lib ''{a}'' (join_with ''.'' (map step_text [Key ''a'', Index 1])) =
      Inr (json_to_lua demo_lib (JNumber (PosInt 7)))"
    by (rule json_query_finds [THEN conjunct1]) simp
  then show ?thesis
    by (simp add: number_to_lua_def as_i64_def del: join_with.simps step_text.simps list.map)
qed

subsection \<open>CSV\<close>

lemma csv_rows_ok:
  "csv_rows lib headers keep idx (map Inr rows) t = Inr u \<Longrightarrow>
    idx + length rows < 2 ^ 64 \<Longrightarrow> n < 2 ^ 64 \<Longrightarrow>
    tget u (lua_index n) =
      (if idx < n \<and> n \<le> idx + length rows \<and> keep (rows ! (n - Suc idx))
       then LTable (csv_row lib headers 0 (rows ! (n - Suc idx)) []) else tget t (lua_index n))"
proof (induction rows arbitrary: idx t)
  case (Cons r rows)
  have "lua_index n = lua_index (Suc idx) \<longleftrightarrow> n = Suc idx"
    using Cons.prems by (intro lua_index_inject) auto
  then show ?case
    using Cons.IH [of "Suc idx"] Cons.prems by (auto simp: nth_Cons')
qed auto

lemma csv_rows_total: "\<exists>u. csv_rows lib headers keep idx (map Inr rows) t = Inr u"
  by (induction rows arbitrary: idx t) simp_all

text \<open>
  C39: A CSV query returns exactly the rows of \<open>csv.dec\<close> whose cell in the queried column
  (the empty string where the row is too short) equals the expected text. Each stays at its own
  row number: when the first row does not match, 0 is a border of the result, so its length
  may be 0 although rows matched.
\<close>

theorem csv_query_keeps_indices:
  assumes "split_once (CHR ''='') filt = Some (col, expected)"
    and "sl_csv_read lib text = (Inr headers, map Inr rows)"
    and "position_of (trim col) headers = Some ci" and "length rows < 2 ^ 63"
  shows "\<exists>found all. csv_query lib text filt = Inr (LTable found) \<and> csv_decode lib text = Inr (LTable all) \<and>
    (\<forall>i < length rows. tget found (lua_index (Suc i)) =
      (if (if ci < length (rows ! i) then rows ! i ! ci else []) = trim expected
       then tget all (lua_index (Suc i)) else LNil)) \<and>
    (\<forall>i < length rows. tget all (lua_index (Suc i)) = LTable (csv_row lib headers 0 (rows ! i) [])) \<and>
    (tget found (lua_index 1) = LNil \<longrightarrow> is_border found 0)"
proof -
  let ?keep = "\<lambda>row. (if ci < length row then row ! ci else []) = trim expected"
  obtain found where found: "csv_rows lib headers ?keep 0 (map Inr rows) [] = Inr found"
    using csv_rows_total by blast
  obtain all where all: "csv_rows lib headers (\<lambda>_. True) 0 (map Inr rows) [] = Inr all"
    using csv_rows_total by blast
  show ?thesis
    using assms csv_rows_ok [OF found] csv_rows_ok [OF all]
    by (intro exI [of _ found] exI [of _ all])
      (simp add: csv_query_def csv_decode_def found all is_border_def)
qed

lemma demo_trim: "trim ''name'' = ''name''" "trim ''bob'' = ''bob''"
  by (simp_all add: trim_graphic is_graphic_def)

theorem csv_query_keeps_indices_witness:
  "\<exists>found. csv_query demo_lib ''x'' ''name=bob'' = Inr (LTable found) \<and>
    tget found (lua_index 1) = LNil \<and>
    tget found (lua_index 2) = LTable [(lua_string ''id'', LInt 2), (lua_string ''name'', lua_string ''bob'')]"
proof -
  have "sl_csv_read demo_lib ''x'' = (Inr [''id'', ''name''], map Inr [[''1'', ''ann''], [''2'', ''bob'']])"
    by (simp add: demo_lib_def)
  moreover have "split_once (CHR ''='') ''name=bob'' = Some (''name'', ''bob'')"
    by (simp add: split_once_def)
  moreover have "csv_row demo_lib [''id'', ''name''] 0 [''2'', ''bob''] [] =
      [(lua_string ''id'', LInt 2), (lua_string ''name'', lua_string ''bob'')]"
    by (simp add: csv_field_def parse_i64_def parse_unsigned_def is_ascii_digit_def demo_lib_def tset_def lua_string_def)
  moreover have "lua_index 2 = lua_index (Suc (Suc 0))"
    by (simp add: numeral_2_eq_2)
  ultimately show ?thesis
    using csv_query_keeps_indices [of "''name=bob''" "''name''" "''bob''" demo_lib "''x''" "[''id'', ''name'']"
        "[[''1'', ''ann''], [''2'', ''bob'']]" 1]
    by (auto simp: demo_trim All_less_Suc)
qed

end
