(* ===== verification/Store.thy ===== *)
theory Store
  imports Serialize
begin

text \<open>
  The databases for scripts (\<open>src/src/store.rs\<close>): the registry of open handles, the writer and
  the reader task of each database, and the functions of the Lua tables \<open>doc\<close> and \<open>sql\<close>.

  SQLite is the parameter \<open>sqlite\<close>: connections, statements and what is on disk. A task that
  runs is the connection it owns; \<open>writers\<close> and \<open>readers\<close> list the tasks in the order of their
  start, \<open>None\<close> once the task has ended, and the sender half of a channel is the number of its
  task. The functions of a script run one after the other and wait for each reply, so a channel
  holds at most one request. \<open>in_runtime\<close> says whether the script runs inside a tokio runtime;
  without one \<open>spawn_blocking\<close> panics. A function that returns no value to Lua returns nil.
\<close>

named_theorems store_simps \<open>evaluation rules for the database functions\<close>

subsection \<open>Values and statements\<close>

datatype param = PNull | PInteger i64 | PReal f64 | PText string

datatype db_value = VNull | VInteger i64 | VReal f64 | VText string

text \<open>A row is a hash map; its keys are distinct, so the order in which a table is filled from it does not matter.\<close>

type_synonym db_row = "(string \<times> db_value) list"

text \<open>What SQLite stores in a cell.\<close>

datatype sq_value = SqNull | SqInteger i64 | SqReal f64 | SqText bytes | SqBlob bytes

record ('c, 'd) sqlite =
  in_runtime :: bool
  sq_open :: "string \<Rightarrow> 'd \<Rightarrow> (string + 'c) \<times> 'd"
  sq_open_read_only :: "string \<Rightarrow> 'd \<Rightarrow> (string + 'c) \<times> 'd"
  sq_close :: "'c \<Rightarrow> 'd \<Rightarrow> 'd"
  sq_batch :: "'c \<Rightarrow> string \<Rightarrow> 'd \<Rightarrow> (string + unit) \<times> 'd"
  sq_execute :: "'c \<Rightarrow> string \<Rightarrow> sq_value list \<Rightarrow> 'd \<Rightarrow> (string + nat) \<times> 'd"
  sq_prepare :: "'c \<Rightarrow> string \<Rightarrow> 'd \<Rightarrow> string + string list"
  sq_query :: "'c \<Rightarrow> string \<Rightarrow> sq_value list \<Rightarrow> 'd \<Rightarrow> (string + (string + sq_value list) list) \<times> 'd"

fun param_to_box :: "param \<Rightarrow> sq_value" where
  "param_to_box PNull = SqNull"
| "param_to_box (PInteger i) = SqInteger i"
| "param_to_box (PReal f) = SqReal f"
| "param_to_box (PText s) = SqText (as_bytes s)"

definition cell_text :: "bytes \<Rightarrow> string" where
  "cell_text b = (if utf8_ok b then str_of_bytes b else [])"

definition read_cell :: "sq_value list \<Rightarrow> nat \<Rightarrow> db_value" where
  "read_cell row i =
     (if i < length row then
        (case row ! i of
           SqNull \<Rightarrow> VNull
         | SqInteger n \<Rightarrow> VInteger n
         | SqReal f \<Rightarrow> VReal f
         | SqText b \<Rightarrow> VText (cell_text b)
         | SqBlob b \<Rightarrow> VText (''<blob '' @ show_nat (length b) @ '' bytes>''))
      else VNull)"

definition exec_sql :: "('c, 'd) sqlite \<Rightarrow> 'c \<Rightarrow> string \<Rightarrow> param list \<Rightarrow> 'd \<Rightarrow> (string + u64) \<times> 'd" where
  "exec_sql sq conn sql params d =
     (let (r, d') = sq_execute sq conn sql (map param_to_box params) d in
      (map_sum (\<lambda>e. ''SQL exec error: '' @ e) word_of_nat r, d'))"

definition query_row :: "string list \<Rightarrow> sq_value list \<Rightarrow> db_row" where
  "query_row col_names row =
     fold (\<lambda>i m. hm_insert (col_names ! i) (read_cell row i) m) [0..<length col_names] []"

definition query_sql :: "('c, 'd) sqlite \<Rightarrow> 'c \<Rightarrow> string \<Rightarrow> param list \<Rightarrow> 'd \<Rightarrow> (string + db_row list) \<times> 'd" where
  "query_sql sq conn sql params d =
     (case sq_prepare sq conn sql d of
        Inl e \<Rightarrow> (Inl (''SQL prepare error: '' @ e), d)
      | Inr col_names \<Rightarrow>
          (case sq_query sq conn sql (map param_to_box params) d of
             (Inl e, d') \<Rightarrow> (Inl (''SQL query error: '' @ e), d')
           | (Inr rows, d') \<Rightarrow>
               (map_sum (\<lambda>e. ''SQL row error: '' @ e) (map (query_row col_names)) (collect_results rows), d')))"

subsection \<open>The tasks\<close>

datatype write_request = WExec string "param list" | WClose

datatype write_reply = ExecReply "string + u64" | CloseReply

text \<open>The writer's loop over the requests in its channel: the replies and the task that is left.\<close>

fun run_writer_conn ::
    "('c, 'd) sqlite \<Rightarrow> 'c \<Rightarrow> write_request list \<Rightarrow> 'd \<Rightarrow> write_reply list \<times> 'c option \<times> 'd" where
  "run_writer_conn sq conn [] d = ([], Some conn, d)"
| "run_writer_conn sq conn (WExec sql params # reqs) d =
     (let (r, d1) = exec_sql sq conn sql params d;
          (rs, left, d2) = run_writer_conn sq conn reqs d1 in
      (ExecReply r # rs, left, d2))"
| "run_writer_conn sq conn (WClose # reqs) d = ([CloseReply], None, sq_close sq conn d)"

datatype read_request = RQuery string "param list"

fun run_reader_conn ::
    "('c, 'd) sqlite \<Rightarrow> 'c \<Rightarrow> read_request list \<Rightarrow> 'd \<Rightarrow> (string + db_row list) list \<times> 'd" where
  "run_reader_conn sq conn [] d = ([], d)"
| "run_reader_conn sq conn (RQuery sql params # reqs) d =
     (let (r, d1) = query_sql sq conn sql params d;
          (rs, d2) = run_reader_conn sq conn reqs d1 in
      (r # rs, d2))"

subsection \<open>The registry\<close>

record db_handle =
  dh_id :: u64
  write_tx :: nat
  read_tx :: nat

record db_registry =
  reg_handles :: "u64 \<rightharpoonup> db_handle"
  reg_next_id :: u64

definition registry_new :: db_registry where
  "registry_new = \<lparr>reg_handles = Map.empty, reg_next_id = 1\<rparr>"

record ('c, 'd) store_state =
  registry :: db_registry
  poisoned :: bool
  writers :: "'c option list"
  readers :: "'c option list"
  disk :: 'd

definition store_new :: "'d \<Rightarrow> ('c, 'd) store_state" where
  "store_new d = \<lparr>registry = registry_new, poisoned = False, writers = [], readers = [], disk = d\<rparr>"

definition task_at :: "'c option list \<Rightarrow> nat \<Rightarrow> 'c option" where
  "task_at ts n = (if n < length ts then ts ! n else None)"

definition drop_conn :: "('c, 'd) sqlite \<Rightarrow> 'c option \<Rightarrow> 'd \<Rightarrow> 'd" where
  "drop_conn sq c d = (case c of None \<Rightarrow> d | Some conn \<Rightarrow> sq_close sq conn d)"

text \<open>With the last sender gone \<open>recv\<close> fails: both tasks end and drop their connections.\<close>

definition drop_handle :: "('c, 'd) sqlite \<Rightarrow> db_handle \<Rightarrow> ('c, 'd) store_state \<Rightarrow> ('c, 'd) store_state" where
  "drop_handle sq h st =
     st\<lparr>disk := drop_conn sq (task_at (readers st) (read_tx h)) (drop_conn sq (task_at (writers st) (write_tx h)) (disk st)),
        writers := (writers st)[write_tx h := None], readers := (readers st)[read_tx h := None]\<rparr>"

definition reg_remove :: "u64 \<Rightarrow> db_registry \<Rightarrow> db_registry" where
  "reg_remove i reg = reg\<lparr>reg_handles := (reg_handles reg)(i := None)\<rparr>"

definition reg_add :: "db_handle \<Rightarrow> db_registry \<Rightarrow> u64 \<times> db_registry" where
  "reg_add h reg =
     (reg_next_id reg,
      reg\<lparr>reg_next_id := reg_next_id reg + 1, reg_handles := (reg_handles reg)(reg_next_id reg \<mapsto> h)\<rparr>)"

definition registry_remove :: "('c, 'd) sqlite \<Rightarrow> u64 \<Rightarrow> ('c, 'd) store_state \<Rightarrow> ('c, 'd) store_state" where
  "registry_remove sq i st =
     (case reg_handles (registry st) i of
        None \<Rightarrow> st
      | Some h \<Rightarrow> drop_handle sq h (st\<lparr>registry := reg_remove i (registry st)\<rparr>))"

definition registry_get :: "('c, 'd) store_state \<Rightarrow> u64 \<Rightarrow> db_handle option" where
  "registry_get st i = reg_handles (registry st) i"

text \<open>Opening the two connections; a failure drops the ones that are open already.\<close>

definition open_connections ::
    "('c, 'd) sqlite \<Rightarrow> string \<Rightarrow> string option \<Rightarrow> 'd \<Rightarrow> (string + 'c \<times> 'c) \<times> 'd" where
  "open_connections sq path init_sql d =
     (case sq_open sq path d of
        (Inl e, d1) \<Rightarrow> (Inl (''open writer connection: '' @ e), d1)
      | (Inr writer_conn, d1) \<Rightarrow>
          (let (_, d2) = sq_batch sq writer_conn ''PRAGMA journal_mode=WAL;'' d1;
               (r, d3) = (case init_sql of None \<Rightarrow> (Inr (), d2) | Some sql \<Rightarrow> sq_batch sq writer_conn sql d2) in
           case r of
             Inl e \<Rightarrow> (Inl (''init SQL: '' @ e), sq_close sq writer_conn d3)
           | Inr _ \<Rightarrow>
               (case sq_open_read_only sq path d3 of
                  (Inl e, d4) \<Rightarrow> (Inl (''open reader connection: '' @ e), sq_close sq writer_conn d4)
                | (Inr reader_conn, d4) \<Rightarrow> (Inr (writer_conn, reader_conn), d4))))"

text \<open>\<open>DbRegistry::open\<close>; \<open>None\<close> is a panic.\<close>

definition registry_open ::
    "('c, 'd) sqlite \<Rightarrow> string \<Rightarrow> string option \<Rightarrow> ('c, 'd) store_state \<Rightarrow>
      (string + db_handle) option \<times> ('c, 'd) store_state" where
  "registry_open sq path init_sql st =
     (let i = reg_next_id (registry st);
          skipped = (registry st)\<lparr>reg_next_id := i + 1\<rparr> in
      case open_connections sq path init_sql (disk st) of
        (Inl e, d) \<Rightarrow> (Some (Inl e), st\<lparr>registry := skipped, disk := d\<rparr>)
      | (Inr (w, r), d) \<Rightarrow>
          if \<not> in_runtime sq then
            (None, st\<lparr>registry := skipped, disk := sq_close sq r (sq_close sq w d)\<rparr>)
          else
            (let h = \<lparr>dh_id = i, write_tx = length (writers st), read_tx = length (readers st)\<rparr>;
                 st1 = (case registry_get st i of None \<Rightarrow> st\<lparr>disk := d\<rparr> | Some old \<Rightarrow> drop_handle sq old (st\<lparr>disk := d\<rparr>)) in
             (Some (Inr h),
              st1\<lparr>registry := snd (reg_add h (registry st)),
                  writers := writers st1 @ [Some w], readers := readers st1 @ [Some r]\<rparr>)))"

subsection \<open>Blocking helpers\<close>

definition send_exec_writer ::
    "('c, 'd) sqlite \<Rightarrow> nat \<Rightarrow> string \<Rightarrow> param list \<Rightarrow> ('c, 'd) store_state \<Rightarrow> (string + u64) \<times> ('c, 'd) store_state" where
  "send_exec_writer sq tx sql params st =
     (case task_at (writers st) tx of
        None \<Rightarrow> (Inl ''writer task gone'', st)
      | Some conn \<Rightarrow>
          (let (rs, left, d) = run_writer_conn sq conn [WExec sql params] (disk st) in
           (case rs of ExecReply r # _ \<Rightarrow> r | _ \<Rightarrow> Inl ''writer reply lost'',
            st\<lparr>disk := d, writers := (writers st)[tx := left]\<rparr>)))"

definition send_query_reader ::
    "('c, 'd) sqlite \<Rightarrow> nat \<Rightarrow> string \<Rightarrow> param list \<Rightarrow> ('c, 'd) store_state \<Rightarrow>
      (string + db_row list) \<times> ('c, 'd) store_state" where
  "send_query_reader sq tx sql params st =
     (case task_at (readers st) tx of
        None \<Rightarrow> (Inl ''reader task gone'', st)
      | Some conn \<Rightarrow>
          (let (rs, d) = run_reader_conn sq conn [RQuery sql params] (disk st) in
           (case rs of r # _ \<Rightarrow> r | [] \<Rightarrow> Inl ''reader reply lost'', st\<lparr>disk := d\<rparr>)))"

definition send_row_reader ::
    "('c, 'd) sqlite \<Rightarrow> nat \<Rightarrow> string \<Rightarrow> param list \<Rightarrow> ('c, 'd) store_state \<Rightarrow>
      (string + db_row option) \<times> ('c, 'd) store_state" where
  "send_row_reader sq tx sql params st =
     (let (r, st') = send_query_reader sq tx sql params st in
      (map_sum id (\<lambda>rows. case rows of [] \<Rightarrow> None | row # _ \<Rightarrow> Some row) r, st'))"

definition send_close_writer ::
    "('c, 'd) sqlite \<Rightarrow> nat \<Rightarrow> ('c, 'd) store_state \<Rightarrow> (string + unit) \<times> ('c, 'd) store_state" where
  "send_close_writer sq tx st =
     (case task_at (writers st) tx of
        None \<Rightarrow> (Inl ''writer task gone'', st)
      | Some conn \<Rightarrow>
          (let (rs, left, d) = run_writer_conn sq conn [WClose] (disk st) in
           (case rs of CloseReply # _ \<Rightarrow> Inr () | _ \<Rightarrow> Inl ''writer reply lost'',
            st\<lparr>disk := d, writers := (writers st)[tx := left]\<rparr>)))"

definition get_handle :: "('c, 'd) store_state \<Rightarrow> u64 \<Rightarrow> string + db_handle" where
  "get_handle st i =
     (if poisoned st then Inl ''database registry lock poisoned''
      else case registry_get st i of Some h \<Rightarrow> Inr h | None \<Rightarrow> Inl ''invalid database handle'')"

definition with_db ::
    "('c, 'd) store_state \<Rightarrow> u64 \<Rightarrow> (db_handle \<Rightarrow> (string + 'a) \<times> ('c, 'd) store_state) \<Rightarrow>
      (string + 'a) \<times> ('c, 'd) store_state" where
  "with_db st i f = (case get_handle st i of Inl e \<Rightarrow> (Inl e, st) | Inr h \<Rightarrow> f h)"

subsection \<open>Lua values\<close>

fun db_value_to_lua :: "db_value \<Rightarrow> lua_value" where
  "db_value_to_lua VNull = LNil"
| "db_value_to_lua (VInteger i) = LInt i"
| "db_value_to_lua (VReal f) = LNum f"
| "db_value_to_lua (VText s) = lua_string s"

definition set_lua_value :: "ser_lib \<Rightarrow> string \<Rightarrow> db_value \<Rightarrow> lua_table \<Rightarrow> lua_table" where
  "set_lua_value lib key val t = tset (lua_string key) (sl_push lib (db_value_to_lua val)) t"

fun lua_single_to_param :: "lua_value \<Rightarrow> param" where
  "lua_single_to_param (LInt i) = PInteger i"
| "lua_single_to_param (LNum f) = PReal f"
| "lua_single_to_param (LStr s) = PText (cell_text s)"
| "lua_single_to_param (LBool b) = PInteger (if b then 1 else 0)"
| "lua_single_to_param v = PNull"

fun lua_value_to_params :: "ser_lib \<Rightarrow> lua_value \<Rightarrow> param list" where
  "lua_value_to_params lib (LInt i) = [PInteger i]"
| "lua_value_to_params lib (LNum f) = [PReal f]"
| "lua_value_to_params lib (LStr s) = [PText (cell_text s)]"
| "lua_value_to_params lib (LTable t) =
     map (\<lambda>i. lua_single_to_param (tget t (lua_index i))) [1..<sl_border lib t + 1]"
| "lua_value_to_params lib (LBool b) = [PInteger (if b then 1 else 0)]"
| "lua_value_to_params lib v = []"

text \<open>The entry of one key/value row: what is not text is left out, a text that does not parse is nil.\<close>

definition kv_entry :: "ser_lib \<Rightarrow> db_row \<Rightarrow> lua_value" where
  "kv_entry lib row =
     (let e1 = (case map_of row ''key'' of Some (VText k) \<Rightarrow> tset (lua_string ''key'') (lua_string k) [] | _ \<Rightarrow> []);
          e2 = (case map_of row ''value'' of
                  Some (VText v) \<Rightarrow>
                    tset (lua_string ''value'')
                      (case json_decode lib v of Inr val \<Rightarrow> sl_push lib val | Inl _ \<Rightarrow> LNil) e1
                | _ \<Rightarrow> e1) in
      LTable e2)"

definition kv_rows_to_lua :: "ser_lib \<Rightarrow> db_row list \<Rightarrow> lua_value" where
  "kv_rows_to_lua lib rows = LTable (set_elements lib 0 (map (kv_entry lib) rows) [])"

definition row_to_lua :: "ser_lib \<Rightarrow> db_row \<Rightarrow> lua_value" where
  "row_to_lua lib row = LTable (fold (\<lambda>(k, v) t. set_lua_value lib k v t) row [])"

definition sql_rows_to_lua :: "ser_lib \<Rightarrow> db_row list \<Rightarrow> lua_value" where
  "sql_rows_to_lua lib rows = LTable (set_elements lib 0 (map (row_to_lua lib) rows) [])"

subsection \<open>The functions of \<open>doc\<close> and \<open>sql\<close>\<close>

type_synonym ('c, 'd) db_result = "(string + lua_value) \<times> ('c, 'd) store_state"

definition create_docs :: string where
  "create_docs = ''CREATE TABLE IF NOT EXISTS docs (key TEXT PRIMARY KEY, value TEXT)''"

definition upsert_doc :: string where
  "upsert_doc = ''INSERT INTO docs (key, value) VALUES (?1, ?2) ON CONFLICT(key) DO UPDATE SET value=excluded.value''"

definition select_doc :: string where
  "select_doc = ''SELECT value FROM docs WHERE key = ?1''"

definition delete_doc :: string where
  "delete_doc = ''DELETE FROM docs WHERE key = ?1''"

definition find_docs :: string where
  "find_docs = ''SELECT key, value FROM docs WHERE json_extract(value, ?1) = ?2''"

definition all_docs :: string where
  "all_docs = ''SELECT key, value FROM docs ORDER BY key''"

definition count_docs :: string where
  "count_docs = ''SELECT COUNT(*) AS cnt FROM docs''"

text \<open>A panic while the lock is held poisons the registry; the function then returns 0.\<close>

definition db_open :: "('c, 'd) sqlite \<Rightarrow> string option \<Rightarrow> string \<Rightarrow> ('c, 'd) store_state \<Rightarrow> ('c, 'd) db_result" where
  "db_open sq init_sql path st =
     (if poisoned st then (Inl ''registry lock poisoned'', st)
      else case registry_open sq path init_sql st of
             (None, st') \<Rightarrow> (Inr (LInt 0), st'\<lparr>poisoned := True\<rparr>)
           | (Some (Inl e), st') \<Rightarrow> (Inl e, st')
           | (Some (Inr h), st') \<Rightarrow> (Inr (LInt (dh_id h)), st'))"

definition doc_open :: "('c, 'd) sqlite \<Rightarrow> string \<Rightarrow> ('c, 'd) store_state \<Rightarrow> ('c, 'd) db_result" where
  "doc_open sq path st = db_open sq (Some create_docs) path st"

definition sql_open :: "('c, 'd) sqlite \<Rightarrow> string \<Rightarrow> ('c, 'd) store_state \<Rightarrow> ('c, 'd) db_result" where
  "sql_open sq path st = db_open sq None path st"

text \<open>\<open>doc.close\<close> and \<open>sql.close\<close> have the same body. The error is discarded.\<close>

definition db_close :: "('c, 'd) sqlite \<Rightarrow> u64 \<Rightarrow> ('c, 'd) store_state \<Rightarrow> ('c, 'd) db_result" where
  "db_close sq i st =
     (case get_handle st i of
        Inl _ \<Rightarrow> (Inr LNil, st)
      | Inr h \<Rightarrow>
          (let (_, st1) = send_close_writer sq (write_tx h) st in
           (Inr LNil, if poisoned st1 then st1 else registry_remove sq i st1)))"

definition sql_close :: "('c, 'd) sqlite \<Rightarrow> u64 \<Rightarrow> ('c, 'd) store_state \<Rightarrow> ('c, 'd) db_result" where
  "sql_close sq i st = db_close sq i st"

definition discard_error :: "(string + 'a) \<times> ('c, 'd) store_state \<Rightarrow> ('c, 'd) db_result" where
  "discard_error r = (Inr LNil, snd r)"

definition doc_set ::
    "ser_lib \<Rightarrow> ('c, 'd) sqlite \<Rightarrow> u64 \<Rightarrow> string \<Rightarrow> lua_value \<Rightarrow> ('c, 'd) store_state \<Rightarrow> ('c, 'd) db_result" where
  "doc_set lib sq i key val st =
     discard_error (with_db st i (\<lambda>h.
       case json_encode lib val of
         Inl e \<Rightarrow> (Inl e, st)
       | Inr json \<Rightarrow> send_exec_writer sq (write_tx h) upsert_doc [PText key, PText json] st))"

definition doc_get ::
    "ser_lib \<Rightarrow> ('c, 'd) sqlite \<Rightarrow> u64 \<Rightarrow> string \<Rightarrow> ('c, 'd) store_state \<Rightarrow> ('c, 'd) db_result" where
  "doc_get lib sq i key st =
     with_db st i (\<lambda>h.
       let (r, st') = send_row_reader sq (read_tx h) select_doc [PText key] st in
       (bind_result r (\<lambda>row.
          case Option.bind row (\<lambda>m. map_of m ''value'') of
            Some (VText s) \<Rightarrow> json_decode lib s
          | _ \<Rightarrow> Inr LNil), st'))"

definition doc_delete :: "('c, 'd) sqlite \<Rightarrow> u64 \<Rightarrow> string \<Rightarrow> ('c, 'd) store_state \<Rightarrow> ('c, 'd) db_result" where
  "doc_delete sq i key st =
     discard_error (with_db st i (\<lambda>h. send_exec_writer sq (write_tx h) delete_doc [PText key] st))"

definition kv_query ::
    "ser_lib \<Rightarrow> ('c, 'd) sqlite \<Rightarrow> u64 \<Rightarrow> string \<Rightarrow> param list \<Rightarrow> ('c, 'd) store_state \<Rightarrow> ('c, 'd) db_result" where
  "kv_query lib sq i sql params st =
     with_db st i (\<lambda>h.
       let (r, st') = send_query_reader sq (read_tx h) sql params st in
       (map_sum id (kv_rows_to_lua lib) r, st'))"

definition doc_find ::
    "ser_lib \<Rightarrow> ('c, 'd) sqlite \<Rightarrow> u64 \<Rightarrow> string \<Rightarrow> string \<Rightarrow> ('c, 'd) store_state \<Rightarrow> ('c, 'd) db_result" where
  "doc_find lib sq i json_path val st = kv_query lib sq i find_docs [PText json_path, PText val] st"

definition doc_all :: "ser_lib \<Rightarrow> ('c, 'd) sqlite \<Rightarrow> u64 \<Rightarrow> ('c, 'd) store_state \<Rightarrow> ('c, 'd) db_result" where
  "doc_all lib sq i st = kv_query lib sq i all_docs [] st"

definition doc_count :: "('c, 'd) sqlite \<Rightarrow> u64 \<Rightarrow> ('c, 'd) store_state \<Rightarrow> ('c, 'd) db_result" where
  "doc_count sq i st =
     with_db st i (\<lambda>h.
       let (r, st') = send_row_reader sq (read_tx h) count_docs [] st in
       (map_sum id (\<lambda>row. LInt
          (case Option.bind row (\<lambda>m. map_of m ''cnt'') of Some (VInteger n) \<Rightarrow> n | _ \<Rightarrow> 0)) r, st'))"

definition sql_exec ::
    "ser_lib \<Rightarrow> ('c, 'd) sqlite \<Rightarrow> u64 \<Rightarrow> string \<Rightarrow> lua_value \<Rightarrow> ('c, 'd) store_state \<Rightarrow> ('c, 'd) db_result" where
  "sql_exec lib sq i sql params_val st =
     with_db st i (\<lambda>h.
       let (r, st') = send_exec_writer sq (write_tx h) sql (lua_value_to_params lib params_val) st in
       (map_sum id LInt r, st'))"

definition sql_query ::
    "ser_lib \<Rightarrow> ('c, 'd) sqlite \<Rightarrow> u64 \<Rightarrow> string \<Rightarrow> lua_value \<Rightarrow> ('c, 'd) store_state \<Rightarrow> ('c, 'd) db_result" where
  "sql_query lib sq i sql params_val st =
     with_db st i (\<lambda>h.
       let (r, st') = send_query_reader sq (read_tx h) sql (lua_value_to_params lib params_val) st in
       (map_sum id (sql_rows_to_lua lib) r, st'))"

definition sql_row ::
    "ser_lib \<Rightarrow> ('c, 'd) sqlite \<Rightarrow> u64 \<Rightarrow> string \<Rightarrow> lua_value \<Rightarrow> ('c, 'd) store_state \<Rightarrow> ('c, 'd) db_result" where
  "sql_row lib sq i sql params_val st =
     with_db st i (\<lambda>h.
       let (r, st') = send_row_reader sq (read_tx h) sql (lua_value_to_params lib params_val) st in
       (map_sum id (\<lambda>row. case row of None \<Rightarrow> LNil | Some m \<Rightarrow> row_to_lua lib m) r, st'))"

text \<open>The functions under their names, as \<open>register_lua_apis\<close> registers them on one registry.\<close>

datatype db_call =
    DocOpen string
  | SqlOpen string
  | DbClose u64
  | DocSet u64 string lua_value
  | DocGet u64 string
  | DocDelete u64 string
  | DocFind u64 string string
  | DocAll u64
  | DocCount u64
  | SqlExec u64 string lua_value
  | SqlQuery u64 string lua_value
  | SqlRow u64 string lua_value

fun store_call :: "ser_lib \<Rightarrow> ('c, 'd) sqlite \<Rightarrow> db_call \<Rightarrow> ('c, 'd) store_state \<Rightarrow> ('c, 'd) db_result" where
  "store_call lib sq (DocOpen path) st = doc_open sq path st"
| "store_call lib sq (SqlOpen path) st = sql_open sq path st"
| "store_call lib sq (DbClose i) st = db_close sq i st"
| "store_call lib sq (DocSet i k v) st = doc_set lib sq i k v st"
| "store_call lib sq (DocGet i k) st = doc_get lib sq i k st"
| "store_call lib sq (DocDelete i k) st = doc_delete sq i k st"
| "store_call lib sq (DocFind i p v) st = doc_find lib sq i p v st"
| "store_call lib sq (DocAll i) st = doc_all lib sq i st"
| "store_call lib sq (DocCount i) st = doc_count sq i st"
| "store_call lib sq (SqlExec i q ps) st = sql_exec lib sq i q ps st"
| "store_call lib sq (SqlQuery i q ps) st = sql_query lib sq i q ps st"
| "store_call lib sq (SqlRow i q ps) st = sql_row lib sq i q ps st"

fun store_calls ::
    "ser_lib \<Rightarrow> ('c, 'd) sqlite \<Rightarrow> db_call list \<Rightarrow> ('c, 'd) store_state \<Rightarrow>
      (string + lua_value) list \<times> ('c, 'd) store_state" where
  "store_calls lib sq [] st = ([], st)"
| "store_calls lib sq (c # cs) st =
     (let (r, st1) = store_call lib sq c st; (rs, st2) = store_calls lib sq cs st1 in (r # rs, st2))"

end
