(* ===== verification/Store_Session.thy ===== *)
theory Store_Session
  imports Store Json_Roundtrip Handle_Table
begin

text \<open>
  What a script can rely on when it uses databases: the document functions refine a map from
  keys to JSON texts, and a handle means its database until it is closed and never again.
\<close>

subsection \<open>Documents\<close>

definition db_is_open :: "('c, 'd) store_state \<Rightarrow> u64 \<Rightarrow> 'c \<Rightarrow> 'c \<Rightarrow> bool" where
  "db_is_open st i w r \<longleftrightarrow> \<not> poisoned st \<and>
     (\<exists>h. reg_handles (registry st) i = Some h \<and>
       task_at (writers st) (write_tx h) = Some w \<and> task_at (readers st) (read_tx h) = Some r)"

text \<open>
  What SQLite documents of the four statements, for a read-write connection \<open>w\<close> and a read-only
  connection \<open>r\<close> of one database: \<open>live d\<close> says that both are open in the state \<open>d\<close> of the disk
  and that the table \<open>docs\<close> exists and is not locked; \<open>docs d\<close> is that table.
\<close>

definition docs_laws ::
    "('c, 'd) sqlite \<Rightarrow> 'c \<Rightarrow> 'c \<Rightarrow> ('d \<Rightarrow> bool) \<Rightarrow> ('d \<Rightarrow> bytes \<rightharpoonup> bytes) \<Rightarrow> bool" where
  "docs_laws sq w r live docs \<longleftrightarrow>
     (\<forall>d k v. live d \<longrightarrow> (\<exists>d' n. sq_execute sq w upsert_doc [SqText k, SqText v] d = (Inr n, d') \<and>
        live d' \<and> docs d' = (docs d)(k \<mapsto> v))) \<and>
     (\<forall>d k. live d \<longrightarrow> (\<exists>d' n. sq_execute sq w delete_doc [SqText k] d = (Inr n, d') \<and>
        live d' \<and> docs d' = (docs d)(k := None))) \<and>
     (\<forall>d k. live d \<longrightarrow> sq_prepare sq r select_doc d = Inr [''value''] \<and>
        sq_query sq r select_doc [SqText k] d = (Inr (case docs d k of None \<Rightarrow> [] | Some v \<Rightarrow> [Inr [SqText v]]), d)) \<and>
     (\<forall>d. live d \<longrightarrow> sq_prepare sq r count_docs d = Inr [''cnt''] \<and>
        sq_query sq r count_docs [] d = (Inr [Inr [SqInteger (word_of_nat (card (dom (docs d))))]], d))"

fun doc_call :: "u64 \<Rightarrow> db_call \<Rightarrow> bool" where
  "doc_call i (DocSet j k v) = (j = i)"
| "doc_call i (DocGet j k) = (j = i)"
| "doc_call i (DocDelete j k) = (j = i)"
| "doc_call i (DocCount j) = (j = i)"
| "doc_call i c = False"

text \<open>The specification: a map from keys to JSON texts.\<close>

fun doc_spec :: "ser_lib \<Rightarrow> db_call \<Rightarrow> (bytes \<rightharpoonup> bytes) \<Rightarrow> (string + lua_value) \<times> (bytes \<rightharpoonup> bytes)" where
  "doc_spec lib (DocSet i k v) m =
     (Inr LNil, case json_encode lib v of Inl _ \<Rightarrow> m | Inr s \<Rightarrow> m(as_bytes k \<mapsto> as_bytes s))"
| "doc_spec lib (DocDelete i k) m = (Inr LNil, m(as_bytes k := None))"
| "doc_spec lib (DocGet i k) m =
     (case m (as_bytes k) of None \<Rightarrow> Inr LNil | Some b \<Rightarrow> json_decode lib (cell_text b), m)"
| "doc_spec lib (DocCount i) m = (Inr (LInt (word_of_nat (card (dom m)))), m)"
| "doc_spec lib c m = (Inr LNil, m)"

fun doc_specs :: "ser_lib \<Rightarrow> db_call list \<Rightarrow> (bytes \<rightharpoonup> bytes) \<Rightarrow> (string + lua_value) list \<times> (bytes \<rightharpoonup> bytes)" where
  "doc_specs lib [] m = ([], m)"
| "doc_specs lib (c # cs) m =
     (let (r, m1) = doc_spec lib c m; (rs, m2) = doc_specs lib cs m1 in (r # rs, m2))"

lemma task_at_update: "task_at ts n = Some c \<Longrightarrow> ts[n := Some c] = ts"
  by (metis list_update_id option.distinct(1) task_at_def)

lemma exec_open:
  assumes "task_at (writers st) tx = Some w" and "sq_execute sq w sql (map param_to_box ps) (disk st) = (Inr n, d')"
  shows "send_exec_writer sq tx sql ps st = (Inr (word_of_nat n), st\<lparr>disk := d'\<rparr>)"
  using assms task_at_update [OF assms(1)] by (simp add: send_exec_writer_def exec_sql_def)

lemma query_open:
  assumes "task_at (readers st) tx = Some r" and "sq_prepare sq r sql (disk st) = Inr names"
    and "sq_query sq r sql (map param_to_box ps) (disk st) = (Inr (map Inr rows), d')"
  shows "send_row_reader sq tx sql ps st =
    (Inr (case rows of [] \<Rightarrow> None | row # _ \<Rightarrow> Some (query_row names row)), st\<lparr>disk := d'\<rparr>)"
  using assms by (simp add: send_row_reader_def send_query_reader_def query_sql_def split: list.splits)

lemma doc_call_refines:
  assumes "docs_laws sq w r live docs" and "db_is_open st i w r" and "live (disk st)" and "doc_call i c"
  shows "\<exists>d'. store_call lib sq c st = (fst (doc_spec lib c (docs (disk st))), st\<lparr>disk := d'\<rparr>) \<and>
    live d' \<and> docs d' = snd (doc_spec lib c (docs (disk st)))"
proof -
  obtain h where h: "get_handle st i = Inr h" "task_at (writers st) (write_tx h) = Some w"
      "task_at (readers st) (read_tx h) = Some r"
    using assms(2) by (auto simp: db_is_open_def get_handle_def registry_get_def)
  note defs = with_db_def h discard_error_def
  show ?thesis
  proof (cases c)
    case (DocSet j k v)
    then have j: "j = i" using assms(4) by simp
    show ?thesis
    proof (cases "json_encode lib v")
      case (Inl e)
      then show ?thesis
        using assms(3) by (intro exI [of _ "disk st"]) (simp add: DocSet j doc_set_def defs)
    next
      case (Inr s)
      obtain d' n where d': "sq_execute sq w upsert_doc [SqText (as_bytes k), SqText (as_bytes s)] (disk st) = (Inr n, d')"
          "live d'" "docs d' = (docs (disk st))(as_bytes k \<mapsto> as_bytes s)"
        using assms(1,3) unfolding docs_laws_def by blast
      have "send_exec_writer sq (write_tx h) upsert_doc [PText k, PText s] st = (Inr (word_of_nat n), st\<lparr>disk := d'\<rparr>)"
        using d'(1) by (intro exec_open [OF h(2)]) simp
      then show ?thesis
        using d'(2,3) Inr by (intro exI [of _ d']) (simp add: DocSet j doc_set_def defs)
    qed
  next
    case (DocDelete j k)
    then have j: "j = i" using assms(4) by simp
    obtain d' n where d': "sq_execute sq w delete_doc [SqText (as_bytes k)] (disk st) = (Inr n, d')"
        "live d'" "docs d' = (docs (disk st))(as_bytes k := None)"
      using assms(1,3) unfolding docs_laws_def by blast
    have "send_exec_writer sq (write_tx h) delete_doc [PText k] st = (Inr (word_of_nat n), st\<lparr>disk := d'\<rparr>)"
      using d'(1) by (intro exec_open [OF h(2)]) simp
    then show ?thesis
      using d'(2,3) by (intro exI [of _ d']) (simp add: DocDelete j doc_delete_def defs)
  next
    case (DocGet j k)
    then have j: "j = i" using assms(4) by simp
    let ?rows = "case docs (disk st) (as_bytes k) of None \<Rightarrow> [] | Some v \<Rightarrow> [[SqText v]]"
    have "sq_prepare sq r select_doc (disk st) = Inr [''value'']"
        and "sq_query sq r select_doc (map param_to_box [PText k]) (disk st) = (Inr (map Inr ?rows), disk st)"
      using assms(1,3) unfolding docs_laws_def by (auto split: option.splits)
    from query_open [OF h(3) this] show ?thesis
      using assms(3)
      by (intro exI [of _ "disk st"])
        (auto simp: DocGet j doc_get_def defs bind_result_def query_row_def read_cell_def split: option.splits)
  next
    case (DocCount j)
    then have j: "j = i" using assms(4) by simp
    have "sq_prepare sq r count_docs (disk st) = Inr [''cnt'']"
        and "sq_query sq r count_docs (map param_to_box []) (disk st) =
          (Inr (map Inr [[SqInteger (word_of_nat (card (dom (docs (disk st)))))]]), disk st)"
      using assms(1,3) unfolding docs_laws_def by auto
    from query_open [OF h(3) this] show ?thesis
      using assms(3)
      by (intro exI [of _ "disk st"]) (simp add: DocCount j doc_count_def defs query_row_def read_cell_def)
  qed (use assms(4) in simp_all)
qed

lemma db_is_open_disk [simp]: "db_is_open (st\<lparr>disk := d\<rparr>) i w r = db_is_open st i w r"
  by (simp add: db_is_open_def)

lemma doc_calls_refine:
  assumes "docs_laws sq w r live docs"
  shows "db_is_open st i w r \<Longrightarrow> live (disk st) \<Longrightarrow> \<forall>c \<in> set cs. doc_call i c \<Longrightarrow>
    \<exists>d'. store_calls lib sq cs st = (fst (doc_specs lib cs (docs (disk st))), st\<lparr>disk := d'\<rparr>) \<and>
      live d' \<and> docs d' = snd (doc_specs lib cs (docs (disk st)))"
proof (induction cs arbitrary: st)
  case Nil
  then show ?case
    by (intro exI [of _ "disk st"]) simp
next
  case (Cons c cs)
  obtain d1 where c: "store_call lib sq c st = (fst (doc_spec lib c (docs (disk st))), st\<lparr>disk := d1\<rparr>)"
      "live d1" "docs d1 = snd (doc_spec lib c (docs (disk st)))"
    using doc_call_refines [OF assms, of st i c lib] Cons.prems by auto
  obtain d' where "store_calls lib sq cs (st\<lparr>disk := d1\<rparr>) = (fst (doc_specs lib cs (docs d1)), st\<lparr>disk := d'\<rparr>)"
      "live d'" "docs d' = snd (doc_specs lib cs (docs d1))"
    using Cons.IH [of "st\<lparr>disk := d1\<rparr>"] Cons.prems c(2) by auto
  then show ?case
    using c by (intro exI [of _ d']) (simp add: case_prod_unfold Let_def)
qed

text \<open>
  C20: On an open handle every sequence of \<open>doc.set\<close>, \<open>doc.get\<close>, \<open>doc.delete\<close> and
  \<open>doc.count\<close> behaves as a map from keys to JSON texts: the results are those of the
  specification \<open>doc_specs\<close>, through the registry, the channels, the tasks and the row
  conversions, and the table holds its map. In particular a plain document that is set is
  returned by the next \<open>doc.get\<close> of its key, when printing and parsing JSON are inverse.
\<close>

theorem store_docs_refine_map:
  assumes "docs_laws sq w r live docs" and "db_is_open st i w r" and "live (disk st)"
    and "\<forall>c \<in> set cs. doc_call i c"
  shows "\<exists>st'. store_calls lib sq cs st = (fst (doc_specs lib cs (docs (disk st))), st') \<and>
    docs (disk st') = snd (doc_specs lib cs (docs (disk st))) \<and> db_is_open st' i w r \<and>
    (\<forall>k j s. vm_laws lib \<longrightarrow> json_plain lib j \<longrightarrow> sl_json_print lib j = Inr s \<longrightarrow> sl_json_parse lib s = Inr j \<longrightarrow>
      utf8_ok (as_bytes s) \<longrightarrow>
      fst (store_calls lib sq [DocSet i k (json_to_lua lib j), DocGet i k] st') = [Inr LNil, Inr (json_to_lua lib j)])"
proof -
  obtain d' where d': "store_calls lib sq cs st = (fst (doc_specs lib cs (docs (disk st))), st\<lparr>disk := d'\<rparr>)"
      "live d'" "docs d' = snd (doc_specs lib cs (docs (disk st)))"
    using doc_calls_refine [OF assms] by blast
  have "fst (store_calls lib sq [DocSet i k (json_to_lua lib j), DocGet i k] (st\<lparr>disk := d'\<rparr>)) =
      [Inr LNil, Inr (json_to_lua lib j)]"
    if "vm_laws lib" "json_plain lib j" "sl_json_print lib j = Inr s" "sl_json_parse lib s = Inr j" "utf8_ok (as_bytes s)"
    for k j s
  proof -
    have "json_encode lib (json_to_lua lib j) = Inr s"
      using that plain_roundtrip [of lib j] by (simp add: json_encode_def bind_result_def)
    then show ?thesis
      using doc_calls_refine [OF assms(1), of "st\<lparr>disk := d'\<rparr>" i "[DocSet i k (json_to_lua lib j), DocGet i k]" lib]
        assms(2) d'(2) that
      by (auto simp: cell_text_def json_decode_def with_prefix_def simp del: store_calls.simps)
  qed
  then show ?thesis
    using d' assms(2) by (intro exI [of _ "st\<lparr>disk := d'\<rparr>"]) auto
qed

text \<open>A database in memory: the disk is the table itself.\<close>

definition demo_sqlite :: "(bool, bytes \<rightharpoonup> bytes) sqlite" where
  "demo_sqlite =
     \<lparr>in_runtime = True, sq_open = \<lambda>p d. (Inr True, d), sq_open_read_only = \<lambda>p d. (Inr False, d),
      sq_close = \<lambda>c d. d, sq_batch = \<lambda>c s d. (Inr (), d),
      sq_execute = \<lambda>c s ps d.
        (case ps of
           [SqText k, SqText v] \<Rightarrow> (Inr 1, d(k \<mapsto> v))
         | [SqText k] \<Rightarrow> (Inr 1, d(k := None))
         | _ \<Rightarrow> (Inl ''syntax error'', d)),
      sq_prepare = \<lambda>c s d. Inr [if s = select_doc then ''value'' else ''cnt''],
      sq_query = \<lambda>c s ps d.
        (case ps of
           [SqText k] \<Rightarrow> (Inr (case d k of None \<Rightarrow> [] | Some v \<Rightarrow> [Inr [SqText v]]), d)
         | _ \<Rightarrow> (Inr [Inr [SqInteger (word_of_nat (card (dom d)))]], d))\<rparr>"

lemma demo_sqlite_laws: "docs_laws demo_sqlite True False (\<lambda>d. True) (\<lambda>d. d)"
  by (simp add: docs_laws_def demo_sqlite_def select_doc_def count_docs_def)

definition demo_store :: "(bool, bytes \<rightharpoonup> bytes) store_state" where
  "demo_store = snd (doc_open demo_sqlite ''db'' (store_new Map.empty))"

lemmas demo_open_simps = doc_open_def db_open_def registry_open_def open_connections_def store_new_def
  registry_new_def registry_get_def reg_add_def task_at_def demo_sqlite_def Let_def

lemma demo_store_open: "db_is_open demo_store 1 True False" "disk demo_store = Map.empty"
  by (simp_all add: demo_store_def db_is_open_def demo_open_simps)

lemma demo_encode: "json_encode demo_lib (json_to_lua demo_lib demo_json) = Inr ''{a}''"
  using plain_roundtrip [OF demo_lib_laws demo_json_plain]
  by (simp add: json_encode_def bind_result_def) (simp add: demo_lib_def)

lemma demo_decode: "json_decode demo_lib (cell_text (as_bytes ''{a}'')) = Inr (json_to_lua demo_lib demo_json)"
proof -
  have "cell_text (as_bytes ''{a}'') = ''{a}''"
    using utf8_ok_ascii [of "as_bytes ''{a}''"]
    by (simp add: cell_text_def) (simp add: as_bytes_def byte_of_char_def)
  moreover have "sl_json_parse demo_lib ''{a}'' = Inr demo_json"
    by (simp add: demo_lib_def)
  ultimately show ?thesis
    by (simp add: json_decode_def with_prefix_def)
qed

theorem store_docs_refine_map_witness:
  "fst (store_calls demo_lib demo_sqlite
     [DocSet 1 ''k'' (json_to_lua demo_lib demo_json), DocGet 1 ''k'', DocCount 1, DocDelete 1 ''k'', DocGet 1 ''k'']
     demo_store) =
   [Inr LNil, Inr (json_to_lua demo_lib demo_json), Inr (LInt 1), Inr LNil, Inr LNil]"
  using store_docs_refine_map [OF demo_sqlite_laws demo_store_open(1), of
      "[DocSet 1 ''k'' (json_to_lua demo_lib demo_json), DocGet 1 ''k'', DocCount 1, DocDelete 1 ''k'', DocGet 1 ''k'']"
      demo_lib]
  by (auto simp: demo_encode demo_decode demo_store_open simp del: store_calls.simps)

subsection \<open>Handles\<close>

definition reg_inv :: "db_registry \<Rightarrow> bool" where
  "reg_inv reg \<longleftrightarrow> (\<forall>i \<in> dom (reg_handles reg). i < reg_next_id reg)"

definition reg_room :: "db_registry \<Rightarrow> nat" where
  "reg_room reg = 2 ^ 64 - 1 - unat (reg_next_id reg)"

lemma unat_next_id: "0 < reg_room reg \<Longrightarrow> unat (reg_next_id reg + 1) = Suc (unat (reg_next_id reg))"
  by (simp add: reg_room_def unat_word_ariths)

lemma reg_add_simps [simp]:
  "fst (reg_add h reg) = reg_next_id reg"
  "reg_handles (snd (reg_add h reg)) = (reg_handles reg)(reg_next_id reg \<mapsto> h)"
  "reg_next_id (snd (reg_add h reg)) = reg_next_id reg + 1"
  by (simp_all add: reg_add_def)

lemma reg_remove_simps [simp]:
  "reg_handles (reg_remove i reg) = (reg_handles reg)(i := None)"
  "reg_next_id (reg_remove i reg) = reg_next_id reg"
  by (simp_all add: reg_remove_def)

interpretation db_handles: handle_table reg_add reg_handles reg_remove reg_inv reg_room
  "\<lambda>reg. {i. i < reg_next_id reg}" "\<lambda>i. False"
proof
  fix reg reg' v h
  assume inv: "reg_inv reg" and room: "0 < reg_room reg" and add: "reg_add v reg = (h, reg')"
  from add have h: "h = reg_next_id reg" and reg': "reg' = snd (reg_add v reg)"
    by (auto simp: reg_add_def)
  note n = unat_next_id [OF room]
  show "reg_inv reg' \<and> reg_room reg = Suc (reg_room reg')"
    using inv room n by (auto simp: reg' reg_inv_def reg_room_def word_less_nat_alt less_Suc_eq)
  show "h \<notin> {i. i < reg_next_id reg} \<and> {i. i < reg_next_id reg'} = insert h {i. i < reg_next_id reg}"
    using n by (auto simp: h reg' word_less_nat_alt less_Suc_eq dest: word_unat_eq_iff [THEN iffD2])
  show "reg_handles reg' = (reg_handles reg)(h \<mapsto> v)"
    by (simp add: h reg')
qed (auto simp: reg_inv_def reg_room_def)

text \<open>What a function does to the tables of the store.\<close>

inductive store_effect :: "('c, 'd) store_state \<Rightarrow> db_call \<Rightarrow> ('c, 'd) store_state \<Rightarrow> bool" where
  quiet: "store_effect st c (st\<lparr>disk := d\<rparr>)"
| opened: "c = DocOpen p \<or> c = SqlOpen p \<Longrightarrow>
    h = \<lparr>dh_id = reg_next_id (registry st), write_tx = length (writers st), read_tx = length (readers st)\<rparr> \<Longrightarrow>
    store_effect st c
      (st\<lparr>disk := d, registry := snd (reg_add h (registry st)), writers := writers st @ [Some w], readers := readers st @ [Some r]\<rparr>)"
| skipped: "c = DocOpen p \<or> c = SqlOpen p \<Longrightarrow>
    store_effect st c (st\<lparr>registry := (registry st)\<lparr>reg_next_id := reg_next_id (registry st) + 1\<rparr>, disk := d\<rparr>)"
| closed: "reg_handles (registry st) i = Some h \<Longrightarrow>
    store_effect st (DbClose i)
      (st\<lparr>registry := reg_remove i (registry st), disk := d,
         writers := (writers st)[write_tx h := None], readers := (readers st)[read_tx h := None]\<rparr>)"

lemma send_exec_quiet: "\<exists>d. snd (send_exec_writer sq tx sql ps st) = st\<lparr>disk := d\<rparr>"
proof (cases "task_at (writers st) tx")
  case None
  then show ?thesis
    by (intro exI [of _ "disk st"]) (simp add: send_exec_writer_def)
next
  case (Some w)
  then show ?thesis
    using task_at_update [OF Some] by (auto simp: send_exec_writer_def case_prod_unfold Let_def)
qed

lemma send_query_quiet: "\<exists>d. snd (send_query_reader sq tx sql ps st) = st\<lparr>disk := d\<rparr>"
proof (cases "task_at (readers st) tx")
  case None
  then show ?thesis
    by (intro exI [of _ "disk st"]) (simp add: send_query_reader_def)
qed (auto simp: send_query_reader_def case_prod_unfold Let_def)

lemma with_db_quiet:
  "(\<And>h. get_handle st i = Inr h \<Longrightarrow> \<exists>d. snd (f h) = st\<lparr>disk := d\<rparr>) \<Longrightarrow> \<exists>d. snd (with_db st i f) = st\<lparr>disk := d\<rparr>"
  by (cases "get_handle st i") (auto simp: with_db_def intro: exI [of _ "disk st"])

lemma quiet_effect: "\<exists>d. snd r = st\<lparr>disk := d\<rparr> \<Longrightarrow> store_effect st c (snd r)"
  by (auto intro: store_effect.quiet)

lemma send_row_quiet: "\<exists>d. snd (send_row_reader sq tx sql ps st) = st\<lparr>disk := d\<rparr>"
  using send_query_quiet [of sq tx sql ps st] by (simp add: send_row_reader_def case_prod_unfold Let_def)

lemmas quiet_sends = send_exec_quiet send_query_quiet send_row_quiet

lemma handle_calls_quiet:
  "\<exists>d. snd (doc_set lib sq i k v st) = st\<lparr>disk := d\<rparr>"
  "\<exists>d. snd (doc_get lib sq i k st) = st\<lparr>disk := d\<rparr>"
  "\<exists>d. snd (doc_delete sq i k st) = st\<lparr>disk := d\<rparr>"
  "\<exists>d. snd (kv_query lib sq i q ps st) = st\<lparr>disk := d\<rparr>"
  "\<exists>d. snd (doc_count sq i st) = st\<lparr>disk := d\<rparr>"
  "\<exists>d. snd (sql_exec lib sq i q v st) = st\<lparr>disk := d\<rparr>"
  "\<exists>d. snd (sql_query lib sq i q v st) = st\<lparr>disk := d\<rparr>"
  "\<exists>d. snd (sql_row lib sq i q v st) = st\<lparr>disk := d\<rparr>"
  unfolding doc_set_def doc_get_def doc_delete_def kv_query_def doc_count_def sql_exec_def sql_query_def
    sql_row_def discard_error_def snd_conv
  by (rule with_db_quiet,
      auto simp: case_prod_unfold Let_def quiet_sends intro: exI [of _ "disk st"] split: sum.split)+

lemma open_effect:
  assumes "in_runtime sq" and "\<not> poisoned st" and "reg_inv (registry st)" and "c = DocOpen p \<or> c = SqlOpen p"
  shows "store_effect st c (snd (db_open sq init p st))"
proof -
  have none: "reg_handles (registry st) (reg_next_id (registry st)) = None"
    using assms(3) by (force simp: reg_inv_def)
  show ?thesis
    using assms none store_effect.opened [OF assms(4) refl, of st] store_effect.skipped [OF assms(4)]
    by (auto simp: db_open_def registry_open_def registry_get_def Let_def split: prod.splits sum.splits)
qed

lemma close_effect: "store_effect st (DbClose i) (snd (db_close sq i st))"
proof (cases "get_handle st i")
  case (Inl e)
  then show ?thesis
    using store_effect.quiet [of st "DbClose i" "disk st"] by (simp add: db_close_def)
next
  case (Inr h)
  then have h: "\<not> poisoned st" "reg_handles (registry st) i = Some h"
    by (auto simp: get_handle_def registry_get_def split: if_splits option.splits)
  obtain d where "snd (send_close_writer sq (write_tx h) st) = st\<lparr>disk := d, writers := (writers st)[write_tx h := None]\<rparr>"
  proof (cases "task_at (writers st) (write_tx h)")
    case None
    then have "(writers st)[write_tx h := None] = writers st"
      by (auto simp: task_at_def list_update_beyond split: if_splits) (metis list_update_id)
    then show ?thesis
      using that [of "disk st"] None by (simp add: send_close_writer_def)
  qed (auto simp: send_close_writer_def)
  then show ?thesis
    using Inr h store_effect.closed [OF h(2)]
    by (simp add: db_close_def registry_remove_def drop_handle_def case_prod_unfold)
qed

lemma store_call_effect:
  assumes "in_runtime sq" and "\<not> poisoned st" and "reg_inv (registry st)"
  shows "store_effect st c (snd (store_call lib sq c st))"
  by (cases c)
    (simp_all add: doc_open_def sql_open_def doc_find_def doc_all_def open_effect [OF assms] close_effect
      handle_calls_quiet [THEN quiet_effect])

text \<open>Every handle has tasks of its own.\<close>

definition store_inv :: "('c, 'd) store_state \<Rightarrow> bool" where
  "store_inv st \<longleftrightarrow> \<not> poisoned st \<and> reg_inv (registry st) \<and> length (readers st) = length (writers st) \<and>
     (\<forall>i h. reg_handles (registry st) i = Some h \<longrightarrow> write_tx h < length (writers st) \<and> read_tx h = write_tx h) \<and>
     (\<forall>i j h h'. reg_handles (registry st) i = Some h \<longrightarrow> reg_handles (registry st) j = Some h' \<longrightarrow>
       write_tx h = write_tx h' \<longrightarrow> i = j)"

lemma registry_store_new [simp]: "registry (store_new d) = registry_new"
  by (simp add: store_new_def)

lemma store_new_inv: "store_inv (store_new d)"
  by (simp add: store_inv_def store_new_def registry_new_def reg_inv_def)

lemma effect_registry:
  assumes "store_inv st" and "store_effect st c st'"
  shows "\<exists>ops hs. table_run reg_add reg_remove ops (registry st) = (hs, registry st') \<and> adds ops \<le> 1"
  using assms(2)
proof cases
  case (skipped p d)
  have "reg_handles (registry st) (reg_next_id (registry st)) = None"
    using assms(1) by (force simp: store_inv_def reg_inv_def)
  then have "registry st' = reg_remove (reg_next_id (registry st)) (snd (reg_add undefined (registry st)))"
    by (simp add: skipped reg_add_def reg_remove_def fun_upd_idem)
  then show ?thesis
    by (intro exI [of _ "[Add undefined, Drop (reg_next_id (registry st))]"]) (simp add: case_prod_unfold Let_def)
next
  case (quiet d)
  then show ?thesis
    by (intro exI [of _ "[]"]) simp
next
  case (opened p h w r d)
  then show ?thesis
    by (intro exI [of _ "[Add h]"]) (simp add: case_prod_unfold Let_def)
next
  case (closed i h d)
  then show ?thesis
    by (intro exI [of _ "[Drop i]"]) simp
qed

lemma effect_inv:
  assumes "store_inv st" and "0 < reg_room (registry st)" and "store_effect st c st'"
  shows "store_inv st'"
proof -
  obtain ops hs where "table_run reg_add reg_remove ops (registry st) = (hs, registry st')" and "adds ops \<le> 1"
    using effect_registry [OF assms(1,3)] by blast
  then have inv: "reg_inv (registry st')"
    using db_handles.run_inv [of "registry st" ops] assms(1,2) by (auto simp: store_inv_def)
  have "write_tx h < length (writers st)" if "reg_handles (registry st) i = Some h" for i h
    using assms(1) that by (simp add: store_inv_def)
  note own = this less_SucI [OF this] less_not_refl2 [OF this]
  from assms(3) show ?thesis
    by cases (use inv assms(1) in \<open>auto simp: store_inv_def split: if_splits dest: own\<close>)
qed

lemma effect_room:
  assumes "store_inv st" and "0 < reg_room (registry st)" and "store_effect st c st'"
  shows "reg_room (registry st) \<le> Suc (reg_room (registry st'))"
proof -
  obtain ops hs where "table_run reg_add reg_remove ops (registry st) = (hs, registry st')" and "adds ops \<le> 1"
    using effect_registry [OF assms(1,3)] by blast
  then show ?thesis
    using db_handles.run_room [of "registry st" ops] assms(1,2) by (auto simp: store_inv_def)
qed

lemma effect_absent:
  assumes "store_inv st" and "0 < reg_room (registry st)" and "store_effect st c st'"
    and "reg_handles (registry st) i = None" and "i < reg_next_id (registry st)"
  shows "reg_handles (registry st') i = None \<and> i < reg_next_id (registry st')"
proof -
  obtain ops hs where run: "table_run reg_add reg_remove ops (registry st) = (hs, registry st')" and "adds ops \<le> 1"
    using effect_registry [OF assms(1,3)] by blast
  then have le: "adds ops \<le> reg_room (registry st)" and inv: "reg_inv (registry st)"
    using assms(1,2) by (auto simp: store_inv_def)
  show ?thesis
    using db_handles.run_absent [OF inv le run assms(4)] db_handles.run_inv [OF inv le run] assms(5) by auto
qed

lemma effect_open:
  assumes "store_inv st" and "store_effect st c st'" and "db_is_open st i w r" and "c \<noteq> DbClose i"
  shows "db_is_open st' i w r"
  using assms(2)
proof cases
  case (opened p h w' r' d)
  have "i \<noteq> reg_next_id (registry st)"
    using assms(1,3) by (force simp: store_inv_def reg_inv_def db_is_open_def)
  with assms(3) show ?thesis
    by (auto simp: opened db_is_open_def task_at_def nth_append split: if_splits)
next
  case (closed j h d)
  obtain h' where h': "reg_handles (registry st) i = Some h'"
    using assms(3) by (auto simp: db_is_open_def)
  have "i \<noteq> j"
    using assms(4) closed by simp
  then have "write_tx h' \<noteq> write_tx h" "read_tx h' \<noteq> read_tx h"
    using assms(1) h' closed by (auto simp: store_inv_def)
  with assms(3) \<open>i \<noteq> j\<close> h' show ?thesis
    by (auto simp: closed db_is_open_def task_at_def split: if_splits)
qed (use assms(3) in \<open>auto simp: db_is_open_def\<close>)

text \<open>The invariant and the handles along a sequence of calls.\<close>

lemma calls_keep:
  assumes "in_runtime sq"
  shows "store_inv st \<Longrightarrow> length cs \<le> reg_room (registry st) \<Longrightarrow> store_calls lib sq cs st = (rs, st') \<Longrightarrow>
    store_inv st' \<and> reg_room (registry st) \<le> reg_room (registry st') + length cs \<and>
    (db_is_open st i w r \<and> DbClose i \<notin> set cs \<longrightarrow> db_is_open st' i w r) \<and>
    (reg_handles (registry st) i = None \<and> i < reg_next_id (registry st) \<longrightarrow>
      reg_handles (registry st') i = None \<and> i < reg_next_id (registry st'))"
proof (induction cs arbitrary: st rs)
  case (Cons c cs)
  obtain x st1 where c: "store_call lib sq c st = (x, st1)"
    by fastforce
  then obtain rs1 where rest: "store_calls lib sq cs st1 = (rs1, st')"
    using Cons.prems(3) by (auto split: prod.splits)
  have room: "0 < reg_room (registry st)"
    using Cons.prems(2) by simp
  have eff: "store_effect st c st1"
    using store_call_effect [OF assms, of st c lib] Cons.prems(1) c by (auto simp: store_inv_def)
  note step = effect_inv [OF Cons.prems(1) room eff] effect_room [OF Cons.prems(1) room eff]
    effect_absent [OF Cons.prems(1) room eff, of i] effect_open [OF Cons.prems(1) eff, of i w r]
  then show ?case
    using Cons.IH [OF step(1) _ rest] Cons.prems(2) by auto
qed simp

lemma calls_inv:
  assumes "in_runtime sq" and "store_inv st" and "length cs \<le> reg_room (registry st)"
    and "snd (store_calls lib sq cs st) = st'"
  shows "store_inv st'" and "reg_room (registry st) \<le> reg_room (registry st') + length cs"
    and "db_is_open st i w r \<Longrightarrow> DbClose i \<notin> set cs \<Longrightarrow> db_is_open st' i w r"
    and "reg_handles (registry st) i = None \<Longrightarrow> i < reg_next_id (registry st) \<Longrightarrow>
      reg_handles (registry st') i = None \<and> i < reg_next_id (registry st')"
proof -
  have "store_calls lib sq cs st = (fst (store_calls lib sq cs st), st')"
    using assms(4) by (simp add: prod_eq_iff)
  note keeps = calls_keep [OF assms(1-3) this]
  show "store_inv st'" and "reg_room (registry st) \<le> reg_room (registry st') + length cs"
    using keeps by blast+
  show "db_is_open st i w r \<Longrightarrow> DbClose i \<notin> set cs \<Longrightarrow> db_is_open st' i w r"
    using keeps by blast
  show "reg_handles (registry st) i = None \<Longrightarrow> i < reg_next_id (registry st) \<Longrightarrow>
      reg_handles (registry st') i = None \<and> i < reg_next_id (registry st')"
    using keeps by blast
qed

lemma task_at_last [simp]: "length ts = n \<Longrightarrow> task_at (ts @ [x]) n = x"
  by (auto simp: task_at_def)

lemma opened_db:
  assumes "in_runtime sq" and "store_inv st" and "doc_open sq path st = (Inr (LInt i), st1)"
  shows "i = reg_next_id (registry st) \<and> (\<exists>w r. db_is_open st1 i w r)"
proof -
  have none: "reg_handles (registry st) (reg_next_id (registry st)) = None"
    using assms(2) by (force simp: store_inv_def reg_inv_def)
  obtain w r d where "open_connections sq path (Some create_docs) (disk st) = (Inr (w, r), d)"
    using assms
    by (auto simp: doc_open_def db_open_def registry_open_def Let_def store_inv_def split: prod.splits sum.splits)
  then show ?thesis
    using assms none
    by (auto simp: doc_open_def db_open_def registry_open_def registry_get_def db_is_open_def store_inv_def Let_def)
qed

lemma closed_db:
  assumes "db_is_open st i w r"
  shows "reg_handles (registry (snd (db_close sq i st))) i = None"
  using assms
  by (auto simp: db_close_def db_is_open_def get_handle_def registry_get_def registry_remove_def drop_handle_def
      send_close_writer_def case_prod_unfold Let_def split: option.splits)

lemma closed_handle_calls:
  assumes "get_handle st i = Inl e"
  shows "doc_get lib sq i k st = (Inl e, st)" and "doc_set lib sq i k v st = (Inr LNil, st)"
    and "sql_exec lib sq i q v st = (Inl e, st)"
  using assms by (simp_all add: doc_get_def doc_set_def sql_exec_def with_db_def discard_error_def)

lemma closed_next_id [simp]: "reg_next_id (registry (snd (db_close sq i st))) = reg_next_id (registry st)"
  by (simp add: db_close_def registry_remove_def drop_handle_def send_close_writer_def case_prod_unfold Let_def
      split: sum.split option.split)

text \<open>
  C34: A handle returned by \<open>doc.open\<close> stays open with its own two connections through any calls
  on this and other handles until it is closed. From then on it is invalid for good, whatever
  is opened later: reads and \<open>sql.exec\<close> raise the error and touch nothing, no later \<open>doc.open\<close>
  returns the handle again, and \<open>doc.set\<close> returns normally although nothing is stored. The bound
  on the number of calls keeps the 64-bit counter from wrapping.
\<close>

theorem store_handle_lifetime:
  assumes "in_runtime sq" and "snd (store_calls lib sq before (store_new d)) = st0"
    and "doc_open sq path st0 = (Inr (LInt i), st1)"
    and "snd (store_calls lib sq during st1) = st2" and "DbClose i \<notin> set during"
    and "snd (store_calls lib sq after (snd (db_close sq i st2))) = st3"
    and "length before + length during + length after + 4 < 2 ^ 64"
  shows "(\<exists>w r. db_is_open st1 i w r \<and> db_is_open st2 i w r) \<and>
    get_handle st3 i = Inl ''invalid database handle'' \<and>
    doc_get lib sq i k st3 = (Inl ''invalid database handle'', st3) \<and>
    sql_exec lib sq i q v st3 = (Inl ''invalid database handle'', st3) \<and>
    fst (doc_open sq path' st3) \<noteq> Inr (LInt i) \<and>
    doc_set lib sq i k v st3 = (Inr LNil, st3)"
proof -
  note keep = calls_inv [OF assms(1)]
  let ?st2 = "snd (db_close sq i st2)"
  have start: "reg_room registry_new = 2 ^ 64 - 2"
    by (simp add: registry_new_def reg_room_def)
  have fits: "length before \<le> reg_room (registry (store_new d))"
    using assms(7) start by simp
  note inv0 = keep(1,2) [OF store_new_inv fits assms(2), unfolded registry_store_new]
  have opened: "snd (store_calls lib sq [DocOpen path] st0) = st1" and "length [DocOpen path] \<le> reg_room (registry st0)"
    using assms(3,7) inv0(2) start by simp_all
  note inv1 = keep(1,2) [OF inv0(1) this(2,1)]
  obtain w r where open1: "db_is_open st1 i w r"
    using opened_db [OF assms(1) inv0(1) assms(3)] by blast
  have "length during \<le> reg_room (registry st1)"
    using assms(7) inv0(2) inv1(2) start by simp
  note inv2 = keep(1,2) [OF inv1(1) this assms(4)] and open2 = keep(3) [OF inv1(1) this assms(4) open1 assms(5)]
  have closing: "snd (store_calls lib sq [DbClose i] st2) = ?st2" and "length [DbClose i] \<le> reg_room (registry st2)"
    using assms(7) inv0(2) inv1(2) inv2(2) start by (simp_all add: case_prod_unfold Let_def)
  note inv3 = keep(1,2) [OF inv2(1) this(2,1)]
  have "length after \<le> reg_room (registry ?st2)"
    using assms(7) inv0(2) inv1(2) inv2(2) inv3(2) start by simp
  moreover have "i < reg_next_id (registry ?st2)"
    using inv2(1) open2 by (auto simp: store_inv_def reg_inv_def db_is_open_def)
  ultimately have after: "store_inv st3" "reg_handles (registry st3) i = None" "i < reg_next_id (registry st3)"
    using keep(1,4) [OF inv3(1) _ assms(6)] closed_db [OF open2] by auto
  then have "get_handle st3 i = Inl ''invalid database handle''"
    by (simp add: get_handle_def store_inv_def registry_get_def)
  moreover have "fst (doc_open sq path' st3) \<noteq> Inr (LInt i)"
    using opened_db [OF assms(1) after(1), of path' i "snd (doc_open sq path' st3)"] after(3)
    by (metis less_irrefl prod.collapse)
  ultimately show ?thesis
    using open1 open2 closed_handle_calls by blast
qed

theorem store_handle_lifetime_witness:
  "get_handle (snd (store_calls demo_lib demo_sqlite [DocOpen ''b''] (snd (db_close demo_sqlite 1 demo_store)))) 1 =
    Inl ''invalid database handle''"
proof -
  have "doc_open demo_sqlite ''db'' (store_new Map.empty) = (Inr (LInt 1), demo_store)"
    by (simp add: demo_store_def) (simp add: demo_open_simps)
  then show ?thesis
    using store_handle_lifetime [of demo_sqlite demo_lib "[]" Map.empty "store_new Map.empty" "''db''" 1 demo_store
        "[]" demo_store "[DocOpen ''b'']"]
    by (simp add: demo_sqlite_def del: store_calls.simps(2))
qed

end
