(* ===== verification/Json_Module.thy ===== *)
theory Json_Module
  imports Json_Roundtrip
begin

text \<open>
  Two additions to the serialisation functions. \<open>src/src/json.rs\<close>, the older module for JSON alone
  that is no longer compiled, with its own conversions and texts of errors, and its agreement with
  \<open>src/src/serialize.rs\<close>, which has replaced it. And the types that the conversions of
  \<open>serialize.rs\<close> keep: a JSON value made from any Lua value is one that serde_json can hold, and a
  Lua value made from any JSON value is one that the virtual machine can hold.
\<close>

subsection \<open>The older module\<close>

fun old_object_key :: "ser_lib \<Rightarrow> lua_value \<Rightarrow> string + string" where
  "old_object_key lib (LStr s) = lua_utf8 lib s"
| "old_object_key lib (LInt i) = Inr (show_i64 i)"
| "old_object_key lib (LNum f) = Inr (sl_show_f64 lib f)"
| "old_object_key lib k = Inl ''JSON object keys must be strings or numbers''"

function old_lua_to_json :: "ser_lib \<Rightarrow> lua_value \<Rightarrow> string + json" where
  "old_lua_to_json lib LNil = Inr JNull"
| "old_lua_to_json lib (LBool b) = Inr (JBool b)"
| "old_lua_to_json lib (LInt i) = Inr (JNumber (number_from_i64 i))"
| "old_lua_to_json lib (LNum f) =
     (if \<not> is_finite f then Inl ''cannot encode non-finite number'' else Inr (JNumber (JFloat f)))"
| "old_lua_to_json lib (LStr s) = map_sum id JString (lua_utf8 lib s)"
| "old_lua_to_json lib (LTable t) =
     (let len = (if sl_border lib t < 2 ^ 63 then sl_border lib t else 0) in
      if 0 < len then
        map_sum id JArray (collect_results (map (\<lambda>i. old_lua_to_json lib (tget t (lua_index i))) [1..<len + 1]))
      else
        build_object
          (map (\<lambda>(k, v). map_sum id (\<lambda>key. (key, old_lua_to_json lib v)) (old_object_key lib k)) (pairs_of lib t)) [])"
| "old_lua_to_json lib LOther = Inl ''cannot encode this Lua type to JSON''"
  by pat_completeness auto

termination
  by (relation "measure (\<lambda>(lib, v). size v)") (auto intro: element_size pair_size)

declare old_lua_to_json.simps [simp del]

fun old_json_to_lua :: "ser_lib \<Rightarrow> json \<Rightarrow> lua_value" where
  "old_json_to_lua lib JNull = LNil"
| "old_json_to_lua lib (JBool b) = LBool b"
| "old_json_to_lua lib (JNumber n) = (case as_i64 n of Some i \<Rightarrow> LInt i | None \<Rightarrow> LNum (as_f64 lib n))"
| "old_json_to_lua lib (JString s) = lua_string s"
| "old_json_to_lua lib (JArray arr) = LTable (set_elements lib 0 (map (old_json_to_lua lib) arr) [])"
| "old_json_to_lua lib (JObject m) = LTable (set_fields lib (map (\<lambda>(k, v). (k, old_json_to_lua lib v)) m) [])"

definition old_encode :: "ser_lib \<Rightarrow> lua_value \<Rightarrow> string + string" where
  "old_encode lib v = bind_result (old_lua_to_json lib v) (sl_json_print lib)"

definition old_encode_pretty :: "ser_lib \<Rightarrow> lua_value \<Rightarrow> string + string" where
  "old_encode_pretty lib v = bind_result (old_lua_to_json lib v) (sl_json_pretty lib)"

definition old_decode :: "ser_lib \<Rightarrow> string \<Rightarrow> string + lua_value" where
  "old_decode lib text =
     map_sum id (old_json_to_lua lib) (with_prefix ''JSON decode error: '' (sl_json_parse lib text))"

text \<open>The texts of errors that differ: the new one and the old one.\<close>

definition reworded :: "string \<Rightarrow> string \<Rightarrow> bool" where
  "reworded e e' \<longleftrightarrow>
     e' = e \<or>
     e = ''object keys must be strings or numbers'' \<and> e' = ''JSON object keys must be strings or numbers'' \<or>
     e = ''cannot encode this Lua type'' \<and> e' = ''cannot encode this Lua type to JSON''"

lemma reworded_refl [simp]: "reworded e e"
  by (simp add: reworded_def)

lemma reworded_sum_refl [simp]: "rel_sum reworded (=) r r"
  by (cases r) simp_all

lemma object_key_reworded: "rel_sum reworded (=) (object_key lib k) (old_object_key lib k)"
  by (cases k) (simp_all add: reworded_def)

lemma collect_results_reworded:
  "list_all2 (rel_sum reworded (=)) rs rs' \<Longrightarrow> rel_sum reworded (=) (collect_results rs) (collect_results rs')"
proof (induction rule: list_all2_induct)
  case (Cons r rs r' rs')
  then show ?case
    by (cases r; cases r') (auto elim!: rel_sum.cases)
qed simp

lemma build_object_reworded:
  "list_all2 (rel_sum reworded (rel_prod (=) (rel_sum reworded (=)))) ps ps' \<Longrightarrow>
    rel_sum reworded (=) (build_object ps m) (build_object ps' m)"
proof (induction arbitrary: m rule: list_all2_induct)
  case (Cons p ps p' ps')
  from Cons.hyps(1) show ?case
  proof (cases rule: rel_sum.cases)
    case (2 x y)
    obtain k v k' v' where "x = (k, v)" "y = (k', v')"
      by fastforce
    with 2 Cons.IH show ?thesis
      by (auto elim!: rel_sum.cases)
  qed auto
qed simp

lemma rel_map_sum: "rel_sum R S r r' \<Longrightarrow> (\<And>x y. S x y \<Longrightarrow> T (f x) (g y)) \<Longrightarrow> rel_sum R T (map_sum id f r) (map_sum id g r')"
  by (auto elim!: rel_sum.cases)

lemma lua_to_json_reworded: "rel_sum reworded (=) (lua_to_json lib v) (old_lua_to_json lib v)"
proof (induction lib v rule: lua_to_json.induct)
  case (6 lib t)
  show ?case
  proof (cases "0 < sl_border lib t \<and> sl_border lib t < 2 ^ 63")
    case True
    let ?is = "[1..<sl_border lib t + 1]"
    have "list_all2 (rel_sum reworded (=)) (map (\<lambda>i. lua_to_json lib (tget t (lua_index i))) ?is)
        (map (\<lambda>i. old_lua_to_json lib (tget t (lua_index i))) ?is)"
      using 6(1) [OF refl True] by (auto simp: list_all2_conv_all_nth simp del: upt_Suc)
    then show ?thesis
      using True by (auto simp: lua_to_json.simps(6) old_lua_to_json.simps(6) Let_def simp del: upt_Suc
          intro!: rel_map_sum [where S = "(=)"] collect_results_reworded)
  next
    case False
    have "rel_sum reworded (rel_prod (=) (rel_sum reworded (=)))
        (map_sum id (\<lambda>key. (key, lua_to_json lib v)) (object_key lib k))
        (map_sum id (\<lambda>key. (key, old_lua_to_json lib v)) (old_object_key lib k))"
      if "(k, v) \<in> set (pairs_of lib t)" for k v
      using object_key_reworded [of lib k] 6(2) [OF refl False that refl] by (auto elim!: rel_sum.cases)
    then show ?thesis
      using False by (auto simp: lua_to_json.simps(6) old_lua_to_json.simps(6) Let_def list.rel_map
          intro!: build_object_reworded list.rel_refl_strong)
  qed
next
  case (7 lib)
  then show ?case by (simp add: old_lua_to_json.simps reworded_def)
qed (simp_all add: old_lua_to_json.simps)

lemma json_to_lua_same: "old_json_to_lua lib = json_to_lua lib"
proof
  show "old_json_to_lua lib j = json_to_lua lib j" for j
  proof (induction lib j rule: json_to_lua.induct)
    case (5 lib arr)
    then have "map (old_json_to_lua lib) arr = map (json_to_lua lib) arr"
      by simp
    then show ?case
      by (simp only: old_json_to_lua.simps json_to_lua.simps)
  next
    case (6 lib m)
    then have "map (\<lambda>(k, v). (k, old_json_to_lua lib v)) m = map (\<lambda>(k, v). (k, json_to_lua lib v)) m"
      by (auto simp: map_eq_conv)
    then show ?case
      by (simp only: old_json_to_lua.simps json_to_lua.simps)
  qed (simp_all add: number_to_lua_def)
qed

lemma bind_reworded: "rel_sum reworded (=) r r' \<Longrightarrow> rel_sum reworded (=) (bind_result r f) (bind_result r' f)"
  by (auto simp: bind_result_def elim!: rel_sum.cases)

text \<open>
  C37: The module that replaced \<open>json.rs\<close> does the same. For every Lua value the encoders of both give
  the same text or both fail, with the same message up to the two texts that were reworded;
  decoding gives the same value for every text, and fails for the same texts with the same reason
  behind another prefix.
\<close>

theorem json_module_agrees:
  "rel_sum reworded (=) (json_encode lib v) (old_encode lib v) \<and>
   rel_sum reworded (=) (json_encode_pretty lib v) (old_encode_pretty lib v) \<and>
   rel_sum (\<lambda>e e'. \<exists>reason. e = ''JSON error: '' @ reason \<and> e' = ''JSON decode error: '' @ reason) (=)
     (json_decode lib text) (old_decode lib text)"
  by (cases "sl_json_parse lib text") (simp_all add: bind_reworded lua_to_json_reworded json_encode_def old_encode_def json_encode_pretty_def
      old_encode_pretty_def json_decode_def old_decode_def with_prefix_def json_to_lua_same)

subsection \<open>Types\<close>

text \<open>
  What \<open>serde_json::Value\<close> can hold: strings are UTF-8, numbers are in their range and finite, the
  keys of an object are in order and occur once.
\<close>

fun number_ok :: "json_number \<Rightarrow> bool" where
  "number_ok (PosInt k) = True"
| "number_ok (NegInt k) = (sint k < 0)"
| "number_ok (JFloat f) = is_finite f"

fun json_ok :: "json \<Rightarrow> bool" where
  "json_ok JNull = True"
| "json_ok (JBool b) = True"
| "json_ok (JNumber n) = number_ok n"
| "json_ok (JString s) = utf8_ok (as_bytes s)"
| "json_ok (JArray arr) = (\<forall>v \<in> set arr. json_ok v)"
| "json_ok (JObject m) =
     (sorted_wrt (<) (map fst m) \<and> (\<forall>p \<in> set m. utf8_ok (as_bytes (fst p)) \<and> json_ok (snd p)))"

text \<open>What the Lua machine can hold: tables without nil and without two entries for a key, at every depth.\<close>

fun lua_ok :: "lua_value \<Rightarrow> bool" where
  "lua_ok (LTable t) = (table_ok t \<and> (\<forall>p \<in> set t. lua_ok (fst p) \<and> lua_ok (snd p)))"
| "lua_ok v = True"

text \<open>Documented behaviour: the text of a float is UTF-8, and storing a value keeps it a value.\<close>

definition vm_types :: "ser_lib \<Rightarrow> bool" where
  "vm_types lib \<longleftrightarrow> (\<forall>f. utf8_ok (as_bytes (sl_show_f64 lib f))) \<and> (\<forall>v. lua_ok v \<longrightarrow> lua_ok (sl_push lib v))"

lemma ascii_byte: "(of_char c :: nat) < 128 \<Longrightarrow> byte_of_char c < 0x80"
  by (simp add: byte_of_char_def word_less_nat_alt unat_of_nat)

lemma show_nat_ascii: "\<forall>b \<in> set (as_bytes (show_nat n)). b < 0x80"
proof -
  have "(of_char c :: nat) < 128" if "c \<in> set (show_base 10 n)" for c
    using show_base_digits [OF that] by (simp add: is_ascii_digit_def)
  then show ?thesis
    by (auto simp: show_nat_def as_bytes_def intro!: ascii_byte)
qed

lemma show_i64_utf8: "utf8_ok (as_bytes (show_i64 i))"
  using show_nat_ascii by (intro utf8_ok_ascii) (auto simp: show_i64_def as_bytes_def ascii_byte)

lemma lua_utf8_ok: "lua_utf8 lib s = Inr x \<Longrightarrow> utf8_ok (as_bytes x)"
  by (auto simp: lua_utf8_def split: if_splits)

lemma object_key_ok: "vm_types lib \<Longrightarrow> object_key lib k = Inr x \<Longrightarrow> utf8_ok (as_bytes x)"
  by (cases k) (auto simp: vm_types_def show_i64_utf8 lua_utf8_ok)

lemma number_from_i64_ok: "number_ok (number_from_i64 i)"
  by (simp add: number_from_i64_def)

lemma map_sum_Inr:
  "map_sum id f r = Inr y \<longleftrightarrow> (\<exists>x. r = Inr x \<and> y = f x)"
  "Inr y = map_sum id f r \<longleftrightarrow> (\<exists>x. r = Inr x \<and> y = f x)"
  by (cases r; auto)+

lemma collect_results_set: "collect_results rs = Inr xs \<Longrightarrow> set rs = Inr ` set xs"
  by (induction rs arbitrary: xs rule: collect_results.induct) (auto split: sum.splits)

lemma bt_insert_set: "set (bt_insert k v m) \<subseteq> insert (k, v) (set m)"
  by (induction k v m rule: bt_insert.induct) auto

lemma build_object_ok:
  assumes "build_object ps m = Inr j" and "json_ok (JObject m)"
    and "\<And>k v. Inr (k, Inr v) \<in> set ps \<Longrightarrow> utf8_ok (as_bytes k) \<and> json_ok v"
  shows "json_ok j"
  using assms
proof (induction ps m rule: build_object.induct)
  case (4 k v ps m)
  have "json_ok (JObject (bt_insert k v m))"
    using 4(3) 4(4) [of k v] sorted_bt_insert [of m k v] bt_insert_set [of k v m] by auto
  then show ?case
    using 4 by auto
qed auto

lemma lua_to_json_ok: "vm_types lib \<Longrightarrow> lua_to_json lib v = Inr j \<Longrightarrow> json_ok j"
proof (induction lib v arbitrary: j rule: lua_to_json.induct)
  case (6 lib t)
  show ?case
  proof (cases "0 < sl_border lib t \<and> sl_border lib t < 2 ^ 63")
    case True
    then obtain xs where "collect_results (map (\<lambda>i. lua_to_json lib (tget t (lua_index i))) [1..<sl_border lib t + 1]) = Inr xs" "j = JArray xs"
      using 6(4) by (auto simp: lua_to_json.simps(6) Let_def map_sum_Inr simp del: upt_Suc)
    then have "\<forall>x \<in> set xs. \<exists>i \<in> set [1..<sl_border lib t + 1]. lua_to_json lib (tget t (lua_index i)) = Inr x"
      using collect_results_set by (metis (no_types, lifting) image_eqI image_iff list.set_map)
    then show ?thesis
      using 6(1) [OF refl True _ 6(3)] \<open>j = JArray xs\<close> by auto
  next
    case False
    have "build_object (map (\<lambda>(k, v). map_sum id (\<lambda>key. (key, lua_to_json lib v)) (object_key lib k)) (pairs_of lib t)) [] = Inr j"
      using 6(4) False by (auto simp: lua_to_json.simps(6) Let_def)
    then show ?thesis
    proof (rule build_object_ok)
      show "utf8_ok (as_bytes k) \<and> json_ok v"
        if "Inr (k, Inr v) \<in> set (map (\<lambda>(k, v). map_sum id (\<lambda>key. (key, lua_to_json lib v)) (object_key lib k)) (pairs_of lib t))" for k v
      proof -
        from that obtain key val where p: "(key, val) \<in> set (pairs_of lib t)" "object_key lib key = Inr k" "lua_to_json lib val = Inr v"
          by (auto simp: map_sum_Inr)
        then show ?thesis
          using 6(2) [OF refl False p(1) refl _ 6(3) p(3)] object_key_ok [OF 6(3) p(2)] by auto
      qed
    qed simp
  qed
qed (auto simp: number_from_i64_ok lua_utf8_ok map_sum_Inr split: if_splits)

lemma lua_ok_keys [simp]: "lua_ok (lua_index n)" "lua_ok (lua_string s)"
  by (simp_all add: lua_index_def lua_string_def)

lemma lua_ok_push: "vm_types lib \<Longrightarrow> lua_ok v \<Longrightarrow> lua_ok (sl_push lib v)"
  by (simp add: vm_types_def)

declare lua_ok.simps(1) [simp del]

lemma lua_ok_empty [simp]: "lua_ok (LTable [])"
  by (simp add: lua_ok.simps)

lemma lua_ok_tset: "lua_ok (LTable t) \<Longrightarrow> lua_ok k \<Longrightarrow> k \<noteq> LNil \<Longrightarrow> lua_ok v \<Longrightarrow> lua_ok (LTable (tset k v t))"
  using table_ok_tset [of t k v] set_hm_insert [of k v t] by (auto simp: tset_def lua_ok.simps(1))

lemma lua_ok_set_elements:
  "vm_types lib \<Longrightarrow> lua_ok (LTable t) \<Longrightarrow> \<forall>v \<in> set vs. lua_ok v \<Longrightarrow> lua_ok (LTable (set_elements lib i vs t))"
  by (induction vs arbitrary: i t) (simp_all add: lua_ok_tset lua_ok_push)

lemma lua_ok_set_fields:
  "vm_types lib \<Longrightarrow> lua_ok (LTable t) \<Longrightarrow> \<forall>p \<in> set kvs. lua_ok (snd p) \<Longrightarrow> lua_ok (LTable (set_fields lib kvs t))"
  by (induction lib kvs t rule: set_fields.induct) (simp_all add: lua_ok_tset lua_ok_push)

lemma json_to_lua_ok: "vm_types lib \<Longrightarrow> lua_ok (json_to_lua lib j)"
proof (induction lib j rule: json_to_lua.induct)
  case (5 lib arr)
  then show ?case
    by (simp add: lua_ok_set_elements)
next
  case (6 lib m)
  then have "\<forall>p \<in> set (map (\<lambda>(k, v). (k, json_to_lua lib v)) m). lua_ok (snd p)"
    by auto
  with 6(2) show ?case
    by (simp add: lua_ok_set_fields)
qed (simp_all add: number_to_lua_def split: option.split)



subsection \<open>jq\<close>

text \<open>
  \<open>json_jq\<close>. The engine (the crate jaq) is a parameter: compiling a filter gives the reports of its
  errors or a filter, running a filter on a text gives its results in order (an input that does not
  parse is an error among them), and a result is printed as JSON, which serde_json parses again.
\<close>

record ('f, 'v) jq_engine =
  jq_compile :: "string \<Rightarrow> string list + 'f"
  jq_run :: "'f \<Rightarrow> string \<Rightarrow> (string + 'v) list"
  jq_write :: "'v \<Rightarrow> string + string"

definition jq_result :: "ser_lib \<Rightarrow> ('f, 'v) jq_engine \<Rightarrow> string + 'v \<Rightarrow> string + json" where
  "jq_result lib jq val_result =
     bind_result val_result (\<lambda>val. bind_result (jq_write jq val) (\<lambda>buf. sl_json_parse lib buf))"

definition json_jq :: "ser_lib \<Rightarrow> ('f, 'v) jq_engine \<Rightarrow> string \<Rightarrow> string \<Rightarrow> string + lua_value" where
  "json_jq lib jq text filter_str =
     (case jq_compile jq filter_str of
        Inl reports \<Rightarrow> Inl (''jq filter error: '' @ concat reports)
      | Inr f \<Rightarrow>
          bind_result (collect_results (map (jq_result lib jq) (jq_run jq f text))) (\<lambda>results.
            if results = [] then Inr LNil
            else if length results = 1 then Inr (json_to_lua lib (results ! 0))
            else Inr (json_to_lua lib (JArray results))))"

text \<open>The identity filter on a text with one document is \<open>json_decode\<close>, up to the texts of errors.\<close>

lemma json_jq_single:
  assumes "jq_compile jq f = Inr g" and "jq_run jq g text = [Inr v]" and "jq_write jq v = Inr out"
    and "sl_json_parse lib out = sl_json_parse lib text" and "sl_json_parse lib text = Inr j"
  shows "json_jq lib jq text f = json_decode lib text"
  using assms by (simp add: json_jq_def jq_result_def bind_result_def json_decode_def with_prefix_def)

lemma json_jq_ok: "vm_types lib \<Longrightarrow> json_jq lib jq text f = Inr x \<Longrightarrow> lua_ok x"
  by (auto simp: json_jq_def bind_result_def json_to_lua_ok simp del: json_to_lua.simps split: sum.splits if_splits)

end
