(* ===== verification/Script_Libs.thy ===== *)
theory Script_Libs
  imports Ninep_Session Json_Module Script_Setup
begin

text \<open>
  The library functions that a script can call, as \<open>setup_runtime_apis\<close> of \<open>src/src/handler.rs\<close>
  binds them: serialisation, the 9P client, \<open>oauth\<close> stubs and \<open>fs.cwd\<close>; with \<open>src/src/env.rs\<close>,
  \<open>src/src/fs.rs\<close> and \<open>src/src/req.rs\<close>.

  The operating system is the parameter \<open>os\<close>, the HTTP client (libcurl) the parameter
  \<open>http_lib\<close>. A function returns a Lua value, raises a Lua error or panics. The
  standard error stream is the list of its lines.
\<close>

subsection \<open>Serialisation\<close>

datatype ser_op =
    JsonEnc lua_value | JsonEncPretty lua_value | JsonDec string | JsonQ string string | JsonFromYaml string
  | YamlEnc lua_value | YamlDec string | YamlQ string string | YamlFromJson string
  | TomlEnc lua_value | TomlDec string | TomlQ string string
  | CsvEnc lua_value | CsvDec string | CsvQ string string

fun ser_call :: "ser_lib \<Rightarrow> ser_op \<Rightarrow> lua_value" where
  "ser_call lib (JsonEnc v) = to_lua_str_result (json_encode lib v)"
| "ser_call lib (JsonEncPretty v) = to_lua_str_result (json_encode_pretty lib v)"
| "ser_call lib (JsonDec s) = to_lua_result (json_decode lib s)"
| "ser_call lib (JsonQ s p) = to_lua_result (json_query lib s p)"
| "ser_call lib (JsonFromYaml s) = to_lua_str_result (json_from_yaml lib s)"
| "ser_call lib (YamlEnc v) = to_lua_str_result (yaml_encode lib v)"
| "ser_call lib (YamlDec s) = to_lua_result (yaml_decode lib s)"
| "ser_call lib (YamlQ s p) = to_lua_result (yaml_query lib s p)"
| "ser_call lib (YamlFromJson s) = to_lua_str_result (yaml_from_json lib s)"
| "ser_call lib (TomlEnc v) = to_lua_str_result (toml_encode lib v)"
| "ser_call lib (TomlDec s) = to_lua_result (toml_decode lib s)"
| "ser_call lib (TomlQ s p) = to_lua_result (toml_query lib s p)"
| "ser_call lib (CsvEnc v) = to_lua_str_result (csv_encode lib v)"
| "ser_call lib (CsvDec s) = to_lua_result (csv_decode lib s)"
| "ser_call lib (CsvQ s f) = to_lua_result (csv_query lib s f)"

definition jq_call :: "ser_lib \<Rightarrow> ('f, 'v) jq_engine \<Rightarrow> string \<Rightarrow> string \<Rightarrow> lua_value" where
  "jq_call lib jq text filter_str = to_lua_result (json_jq lib jq text filter_str)"

subsection \<open>Log output\<close>

datatype log_op = LogPrint string | LogDebug string

fun log_call :: "log_op \<Rightarrow> string list \<Rightarrow> string list" where
  "log_call (LogPrint msg) out = out @ [''[log.print] '' @ msg]"
| "log_call (LogDebug msg) out = out @ [''[log.debug] '' @ msg]"

subsection \<open>The 9P client\<close>

text \<open>
  Connect and perform one operation; \<open>None\<close>: the operation has not finished within its fuel. A
  panic of the client is not caught.
\<close>

definition ninep_call ::
    "'c transport \<Rightarrow> (conn_kind \<Rightarrow> string \<Rightarrow> string + 'c) \<Rightarrow> string \<Rightarrow> string \<Rightarrow>
      ('c client \<Rightarrow> (string outcome \<times> 'c client) option) \<Rightarrow> lua_value outcome option" where
  "ninep_call tr dial address what act =
     (case client_connect tr dial address of
        Failed e \<Rightarrow> Some (Done (to_lua_str_result (Inl (''9p connect: '' @ e))))
      | Panicked \<Rightarrow> Some Panicked
      | Done client \<Rightarrow>
          map_option (\<lambda>(r, _).
            case r of
              Done s \<Rightarrow> Done (to_lua_str_result (Inr s))
            | Failed e \<Rightarrow> Done (to_lua_str_result (Inl (''9p '' @ what @ '': '' @ e)))
            | Panicked \<Rightarrow> Panicked) (act client))"

datatype ninep_op =
    NRead string | NWrite string string | NStat string | NLs string | NLsl string
  | NMkdir string | NCreate string | NRemove string

fun ninep_client ::
    "nat \<Rightarrow> 'c transport \<Rightarrow> (conn_kind \<Rightarrow> string \<Rightarrow> string + 'c) \<Rightarrow> string \<Rightarrow> ninep_op \<Rightarrow> lua_value outcome option"
  where
  "ninep_client fuel tr dial a (NRead path) = ninep_call tr dial a ''read'' (read_file fuel tr path)"
| "ninep_client fuel tr dial a (NWrite path data) = ninep_call tr dial a ''write'' (write_file fuel tr path data)"
| "ninep_client fuel tr dial a (NStat path) = ninep_call tr dial a ''stat'' (\<lambda>cl. Some (client_stat tr path cl))"
| "ninep_client fuel tr dial a (NLs path) = ninep_call tr dial a ''ls'' (client_ls fuel tr path False)"
| "ninep_client fuel tr dial a (NLsl path) = ninep_call tr dial a ''ls -l'' (client_ls fuel tr path True)"
| "ninep_client fuel tr dial a (NMkdir path) = ninep_call tr dial a ''mkdir'' (\<lambda>cl. Some (client_mkdir tr path cl))"
| "ninep_client fuel tr dial a (NCreate path) = ninep_call tr dial a ''create'' (\<lambda>cl. Some (create_file tr path cl))"
| "ninep_client fuel tr dial a (NRemove path) = ninep_call tr dial a ''remove'' (\<lambda>cl. Some (client_remove tr path cl))"

subsection \<open>OAuth stubs\<close>

datatype oauth_op = DeviceFlowStart | DevicePoll | AuthCodeUrl | ExchangeCode | AttachTo

fun oauth_client :: "oauth_op \<Rightarrow> lua_value" where
  "oauth_client DeviceFlowStart = lua_string ''Simulated device_flow_start. Requires real OAuth provider.''"
| "oauth_client DevicePoll = lua_string ''Simulated device_poll. Requires real OAuth provider.''"
| "oauth_client AuthCodeUrl = lua_string ''https://example.com/oauth/authorize?client_id=YOUR_CLIENT_ID&scope=...''"
| "oauth_client ExchangeCode = lua_string ''Simulated exchange_code. Requires real OAuth provider.''"
| "oauth_client AttachTo = LBool True"

subsection \<open>Environment variables\<close>

text \<open>
  The environment of the process. \<open>std::env::var\<close> fails for a variable that is absent or not
  UTF-8; \<open>set_var\<close> and \<open>remove_var\<close> panic for a name that is empty or contains an equals sign
  or a zero byte (and for such a value); a name of this kind is never present.
\<close>

type_synonym environment = "(string \<times> bytes) list"

definition name_ok :: "string \<Rightarrow> bool" where
  "name_ok key = (key \<noteq> [] \<and> CHR ''='' \<notin> set key \<and> CHR 0x00 \<notin> set key)"

definition env_var :: "string \<Rightarrow> environment \<Rightarrow> string option" where
  "env_var key env =
     (if name_ok key then
        (case map_of env key of Some b \<Rightarrow> if utf8_ok b then Some (str_of_bytes b) else None | None \<Rightarrow> None)
      else None)"

definition env_get :: "string \<Rightarrow> environment \<Rightarrow> lua_value" where
  "env_get key env = (case env_var key env of Some s \<Rightarrow> lua_string s | None \<Rightarrow> LNil)"

definition env_set :: "string \<Rightarrow> string \<Rightarrow> environment \<Rightarrow> unit outcome \<times> environment" where
  "env_set key val env =
     (if name_ok key \<and> CHR 0x00 \<notin> set val then (Done (), hm_insert key (as_bytes val) env) else (Panicked, env))"

definition env_unset :: "string \<Rightarrow> environment \<Rightarrow> unit outcome \<times> environment" where
  "env_unset key env =
     (if name_ok key then (Done (), filter (\<lambda>(k, _). k \<noteq> key) env) else (Panicked, env))"

text \<open>Access by index: the names of the three functions shadow variables of these names.\<close>

definition env_index :: "string \<Rightarrow> environment \<Rightarrow> lua_value" where
  "env_index key env = (if key \<in> {''get'', ''set'', ''unset''} then LOther else env_get key env)"

text \<open>The table that \<open>pairs(env)\<close> walks; \<open>std::env::vars\<close> panics at a variable that is not UTF-8.\<close>

definition env_pairs :: "environment \<Rightarrow> lua_table outcome" where
  "env_pairs env =
     (if \<forall>(k, b) \<in> set env. utf8_ok (as_bytes k) \<and> utf8_ok b
      then Done (fold (\<lambda>(k, b) t. tset (lua_string k) (LStr b) t) env [])
      else Panicked)"

subsection \<open>Files\<close>

record os_meta =
  md_len :: u64
  md_is_dir :: bool
  md_is_file :: bool
  md_is_symlink :: bool
  md_mode :: u32
  md_uid :: u32
  md_gid :: u32
  md_mtime :: "u64 option"

text \<open>What \<open>std::fs\<close> and libc do to the state \<open>'o\<close> of the file system; \<open>True\<close> is success.\<close>

record 'o os =
  os_read_to_string :: "string \<Rightarrow> 'o \<Rightarrow> string option"
  os_read_dir :: "string \<Rightarrow> 'o \<Rightarrow> (bytes \<times> os_meta option) option list option"
  os_metadata :: "string \<Rightarrow> 'o \<Rightarrow> os_meta option"
  os_exists :: "string \<Rightarrow> 'o \<Rightarrow> bool"
  os_is_dir :: "string \<Rightarrow> 'o \<Rightarrow> bool"
  os_is_file :: "string \<Rightarrow> 'o \<Rightarrow> bool"
  os_write :: "string \<Rightarrow> string \<Rightarrow> 'o \<Rightarrow> bool \<times> 'o"
  os_remove_file :: "string \<Rightarrow> 'o \<Rightarrow> bool \<times> 'o"
  os_remove_dir :: "string \<Rightarrow> 'o \<Rightarrow> bool \<times> 'o"
  os_remove_dir_all :: "string \<Rightarrow> 'o \<Rightarrow> bool \<times> 'o"
  os_rename :: "string \<Rightarrow> string \<Rightarrow> 'o \<Rightarrow> bool \<times> 'o"
  os_copy :: "string \<Rightarrow> string \<Rightarrow> 'o \<Rightarrow> bool \<times> 'o"
  os_create_dir :: "string \<Rightarrow> 'o \<Rightarrow> bool \<times> 'o"
  os_create_dir_all :: "string \<Rightarrow> 'o \<Rightarrow> bool \<times> 'o"
  os_set_permissions :: "string \<Rightarrow> u32 \<Rightarrow> 'o \<Rightarrow> bool \<times> 'o"
  os_chown :: "string \<Rightarrow> u32 \<Rightarrow> u32 \<Rightarrow> 'o \<Rightarrow> bool \<times> 'o"
  os_utimens :: "string \<Rightarrow> i64 \<Rightarrow> i64 \<Rightarrow> 'o \<Rightarrow> bool \<times> 'o"

definition fs_read :: "'o os \<Rightarrow> string \<Rightarrow> 'o \<Rightarrow> lua_value" where
  "fs_read os path o1 = (case os_read_to_string os path o1 of Some s \<Rightarrow> lua_string s | None \<Rightarrow> LNil)"

definition dir_entry :: "ser_lib \<Rightarrow> bytes \<times> os_meta option \<Rightarrow> lua_value" where
  "dir_entry lib e =
     LTable (set_fields lib
       ((''name'', lua_string (from_utf8_lossy (fst e))) #
        (case snd e of
           Some m \<Rightarrow> [(''is_dir'', LBool (md_is_dir m)), (''is_file'', LBool (md_is_file m)), (''size'', LInt (md_len m))]
         | None \<Rightarrow> [])) [])"

text \<open>Entries that cannot be read are left out.\<close>

definition fs_readdir :: "ser_lib \<Rightarrow> 'o os \<Rightarrow> string \<Rightarrow> 'o \<Rightarrow> lua_value" where
  "fs_readdir lib os path o1 =
     (case os_read_dir os path o1 of
        None \<Rightarrow> LNil
      | Some es \<Rightarrow> LTable (set_elements lib 0 (map (dir_entry lib) (List.map_filter (\<lambda>e. e) es)) []))"

definition fs_ls :: "ser_lib \<Rightarrow> 'o os \<Rightarrow> string \<Rightarrow> 'o \<Rightarrow> lua_value" where
  "fs_ls lib os path o1 =
     (case os_read_dir os path o1 of
        None \<Rightarrow> LNil
      | Some es \<Rightarrow>
          LTable (set_elements lib 0 (map (\<lambda>e. lua_string (from_utf8_lossy (fst e))) (List.map_filter (\<lambda>e. e) es)) []))"

definition fs_stat :: "ser_lib \<Rightarrow> 'o os \<Rightarrow> string \<Rightarrow> 'o \<Rightarrow> lua_value" where
  "fs_stat lib os path o1 =
     (case os_metadata os path o1 of
        None \<Rightarrow> LNil
      | Some m \<Rightarrow>
          LTable (set_fields lib
            [(''size'', LInt (md_len m)), (''is_dir'', LBool (md_is_dir m)), (''is_file'', LBool (md_is_file m)),
             (''is_symlink'', LBool (md_is_symlink m)), (''mode'', LInt (ucast (md_mode m))),
             (''uid'', LInt (ucast (md_uid m))), (''gid'', LInt (ucast (md_gid m))),
             (''mtime'', LInt (case md_mtime m of Some s \<Rightarrow> s | None \<Rightarrow> 0))] []))"

definition fs_exists :: "'o os \<Rightarrow> string \<Rightarrow> 'o \<Rightarrow> lua_value" where
  "fs_exists os path o1 = LBool (os_exists os path o1)"

definition fs_is_dir :: "'o os \<Rightarrow> string \<Rightarrow> 'o \<Rightarrow> lua_value" where
  "fs_is_dir os path o1 = LBool (os_is_dir os path o1)"

definition fs_is_file :: "'o os \<Rightarrow> string \<Rightarrow> 'o \<Rightarrow> lua_value" where
  "fs_is_file os path o1 = LBool (os_is_file os path o1)"

definition done_or_nil :: "bool \<times> 'o \<Rightarrow> lua_value \<times> 'o" where
  "done_or_nil r = (if fst r then LBool True else LNil, snd r)"

definition fs_write :: "'o os \<Rightarrow> string \<Rightarrow> string \<Rightarrow> 'o \<Rightarrow> lua_value \<times> 'o" where
  "fs_write os path content o1 = done_or_nil (os_write os path content o1)"

definition fs_remove :: "'o os \<Rightarrow> string \<Rightarrow> 'o \<Rightarrow> lua_value \<times> 'o" where
  "fs_remove os path o1 =
     (case os_remove_file os path o1 of
        (True, o2) \<Rightarrow> (LBool True, o2)
      | (False, o2) \<Rightarrow> done_or_nil (os_remove_dir os path o2))"

definition fs_remove_all :: "'o os \<Rightarrow> string \<Rightarrow> 'o \<Rightarrow> lua_value \<times> 'o" where
  "fs_remove_all os path o1 = done_or_nil (os_remove_dir_all os path o1)"

definition fs_rename :: "'o os \<Rightarrow> string \<Rightarrow> string \<Rightarrow> 'o \<Rightarrow> lua_value \<times> 'o" where
  "fs_rename os old new o1 = done_or_nil (os_rename os old new o1)"

definition fs_copy :: "'o os \<Rightarrow> string \<Rightarrow> string \<Rightarrow> 'o \<Rightarrow> lua_value \<times> 'o" where
  "fs_copy os src dst o1 = done_or_nil (os_copy os src dst o1)"

definition fs_mkdir :: "'o os \<Rightarrow> string \<Rightarrow> 'o \<Rightarrow> lua_value \<times> 'o" where
  "fs_mkdir os path o1 = done_or_nil (os_create_dir os path o1)"

definition fs_mkdir_all :: "'o os \<Rightarrow> string \<Rightarrow> 'o \<Rightarrow> lua_value \<times> 'o" where
  "fs_mkdir_all os path o1 = done_or_nil (os_create_dir_all os path o1)"

definition fs_chmod :: "'o os \<Rightarrow> string \<Rightarrow> u32 \<Rightarrow> 'o \<Rightarrow> lua_value \<times> 'o" where
  "fs_chmod os path mode o1 = done_or_nil (os_set_permissions os path mode o1)"

text \<open>A path with a zero byte is no C string.\<close>

definition fs_chown :: "'o os \<Rightarrow> string \<Rightarrow> u32 \<Rightarrow> u32 \<Rightarrow> 'o \<Rightarrow> lua_value \<times> 'o" where
  "fs_chown os path uid gid o1 =
     (if CHR 0x00 \<in> set path then (LNil, o1) else done_or_nil (os_chown os path uid gid o1))"

definition fs_utimens :: "'o os \<Rightarrow> string \<Rightarrow> i64 \<Rightarrow> i64 \<Rightarrow> 'o \<Rightarrow> lua_value \<times> 'o" where
  "fs_utimens os path atime mtime o1 =
     (if CHR 0x00 \<in> set path then (LNil, o1) else done_or_nil (os_utimens os path atime mtime o1))"

definition mode_char :: "u32 \<Rightarrow> u32 \<Rightarrow> char \<Rightarrow> char" where
  "mode_char mode bits c = (if mode AND bits \<noteq> 0 then c else CHR ''-'')"

definition mode_string :: "u32 \<Rightarrow> string" where
  "mode_string mode =
     [mode_char mode 256 (CHR ''r''), mode_char mode 128 (CHR ''w''), mode_char mode 64 (CHR ''x''),
      mode_char mode 32 (CHR ''r''), mode_char mode 16 (CHR ''w''), mode_char mode 8 (CHR ''x''),
      mode_char mode 4 (CHR ''r''), mode_char mode 2 (CHR ''w''), mode_char mode 1 (CHR ''x'')]"

subsection \<open>The directory of the script\<close>

text \<open>The Lua globals \<open>__pinhead_cwd\<close>, \<open>__pinhead_orig_path\<close> and \<open>package.path\<close>.\<close>

record cwd_state =
  lua_cwd :: string
  orig_path :: string
  package_path :: string

definition search_path :: "string \<Rightarrow> string \<Rightarrow> string" where
  "search_path dir orig = dir @ ''/?.lua;'' @ dir @ ''/?/init.lua;'' @ orig"

definition setup_cwd :: "string \<Rightarrow> string \<Rightarrow> cwd_state" where
  "setup_cwd cwd orig = \<lparr>lua_cwd = cwd, orig_path = orig, package_path = search_path cwd orig\<rparr>"

text \<open>The path that the wrapped \<open>dofile\<close> and \<open>loadfile\<close> open.\<close>

definition resolve_path :: "cwd_state \<Rightarrow> string \<Rightarrow> string" where
  "resolve_path st path = (if take 1 path \<noteq> ''/'' then lua_cwd st @ ''/'' @ path else path)"

definition fs_cwd :: "'o os \<Rightarrow> string option \<Rightarrow> 'o \<Rightarrow> cwd_state \<Rightarrow> lua_value \<times> cwd_state" where
  "fs_cwd os path o1 st =
     (case path of
        None \<Rightarrow> (to_lua_str_result (Inr (lua_cwd st)), st)
      | Some p \<Rightarrow>
          (let resolved = (if starts_with ''/'' p then p else lua_cwd st @ ''/'' @ p) in
           if \<not> os_is_dir os resolved o1 then (to_lua_str_result (Inl (''not a directory: '' @ resolved)), st)
           else (to_lua_str_result (Inr resolved),
                 st\<lparr>lua_cwd := resolved, package_path := search_path resolved (orig_path st)\<rparr>)))"

subsection \<open>HTTP requests\<close>

record http_request =
  hq_method :: string
  hq_url :: string
  hq_headers :: "string list"
  hq_body :: "string option"

record http_response =
  hp_status :: u32
  hp_body :: bytes
  hp_headers :: bytes

text \<open>
  libcurl performs a request or fails with an error text. Lua turns numbers into strings where
  a string is expected; any other value is a conversion error.
\<close>

record http_lib =
  hl_perform :: "http_request \<Rightarrow> string + http_response"
  hl_number :: "lua_value \<Rightarrow> bytes"
  hl_conversion_error :: "lua_value \<Rightarrow> lua_value \<Rightarrow> string"

definition lua_to_bytes :: "http_lib \<Rightarrow> lua_value \<Rightarrow> bytes option" where
  "lua_to_bytes hl v =
     (case v of LStr s \<Rightarrow> Some s | LInt i \<Rightarrow> Some (hl_number hl v) | LNum f \<Rightarrow> Some (hl_number hl v) | _ \<Rightarrow> None)"

definition lua_to_string :: "http_lib \<Rightarrow> lua_value \<Rightarrow> string option" where
  "lua_to_string hl v =
     (case lua_to_bytes hl v of Some b \<Rightarrow> if utf8_ok b then Some (str_of_bytes b) else None | None \<Rightarrow> None)"

fun header_lines :: "http_lib \<Rightarrow> lua_table \<Rightarrow> string list outcome" where
  "header_lines hl [] = Done []"
| "header_lines hl ((k, v) # hdrs) =
     (case (lua_to_bytes hl k, lua_to_bytes hl v) of
        (Some kb, Some vb) \<Rightarrow>
          if utf8_ok kb \<and> utf8_ok vb then
            (case header_lines hl hdrs of
               Done hs \<Rightarrow> Done ((str_of_bytes kb @ '': '' @ str_of_bytes vb) # hs)
             | r \<Rightarrow> r)
          else Panicked
      | _ \<Rightarrow> Failed (''header: '' @ hl_conversion_error hl k v))"

definition request_headers :: "ser_lib \<Rightarrow> http_lib \<Rightarrow> lua_table option \<Rightarrow> string list outcome" where
  "request_headers lib hl opts =
     (case opts of
        None \<Rightarrow> Done []
      | Some t \<Rightarrow>
          (case tget t (lua_string ''headers'') of LTable hdrs \<Rightarrow> header_lines hl (pairs_of lib hdrs) | _ \<Rightarrow> Done []))"

definition string_option :: "http_lib \<Rightarrow> lua_table option \<Rightarrow> string \<Rightarrow> string option" where
  "string_option hl opts key = Option.bind opts (\<lambda>t. lua_to_string hl (tget t (lua_string key)))"

definition header_field :: "string \<Rightarrow> (string \<times> string) option" where
  "header_field line =
     (case split_once (CHR '':'') line of
        None \<Rightarrow> None
      | Some (n, v) \<Rightarrow> if trim n = [] then None else Some (trim n, trim v))"

definition header_table :: "ser_lib \<Rightarrow> bytes \<Rightarrow> lua_table" where
  "header_table lib raw =
     set_fields lib (map (\<lambda>(n, v). (n, lua_string v)) (List.map_filter header_field (str_lines (from_utf8_lossy raw)))) []"

definition decode_body :: "ser_lib \<Rightarrow> string option \<Rightarrow> string \<Rightarrow> string + lua_value" where
  "decode_body lib fmt body_str =
     (case fmt of
        None \<Rightarrow> Inr (lua_string body_str)
      | Some f \<Rightarrow>
          if f = ''json'' then json_decode lib body_str
          else if f = ''yaml'' then yaml_decode lib body_str
          else if f = ''toml'' then toml_decode lib body_str
          else if f = ''csv'' then csv_decode lib body_str
          else Inl (''unknown decode: '' @ f))"

definition response_value :: "ser_lib \<Rightarrow> string \<Rightarrow> bool \<Rightarrow> string option \<Rightarrow> http_response \<Rightarrow> string + lua_value" where
  "response_value lib http_method plain fmt resp =
     (let body_str = from_utf8_lossy (hp_body resp); status = hp_status resp in
      if http_method = ''GET'' \<and> plain then Inr (lua_string body_str)
      else
        bind_result (decode_body lib fmt body_str) (\<lambda>v.
          Inr (LTable (set_fields lib
            [(''status'', LInt (ucast status)), (''ok'', LBool (200 \<le> status \<and> status < 300)), (''body'', v),
             (''headers'', LTable (header_table lib (hp_headers resp)))] []))))"

definition do_request ::
    "ser_lib \<Rightarrow> http_lib \<Rightarrow> string \<Rightarrow> string \<Rightarrow> lua_table option \<Rightarrow> lua_value outcome" where
  "do_request lib hl http_method url opts =
     (case request_headers lib hl opts of
        Panicked \<Rightarrow> Panicked
      | Failed e \<Rightarrow> Failed e
      | Done hs \<Rightarrow>
          (case hl_perform hl \<lparr>hq_method = http_method, hq_url = url, hq_headers = hs, hq_body = string_option hl opts ''body''\<rparr> of
             Inl e \<Rightarrow> Failed e
           | Inr resp \<Rightarrow>
               (case response_value lib http_method (opts = None) (string_option hl opts ''decode'') resp of
                  Inl e \<Rightarrow> Failed e
                | Inr v \<Rightarrow> Done v)))"

text \<open>\<open>req.get\<close> and the others: an error becomes a table with the key \<open>error\<close>.\<close>

definition req_call :: "ser_lib \<Rightarrow> http_lib \<Rightarrow> string \<Rightarrow> string \<Rightarrow> lua_table option \<Rightarrow> lua_value outcome" where
  "req_call lib hl http_method url opts =
     (case do_request lib hl http_method url opts of
        Done v \<Rightarrow> Done (to_lua_result (Inr v))
      | Failed e \<Rightarrow> Done (to_lua_result (Inl e))
      | Panicked \<Rightarrow> Panicked)"

subsection \<open>Properties\<close>

text \<open>Variables, permission strings and the script directory.\<close>

lemma env_get_set:
  assumes "env_set key val env = (Done (), env')" and "utf8_ok (as_bytes val)"
  shows "env_get key env' = lua_string val" and "k \<noteq> key \<Longrightarrow> env_get k env' = env_get k env"
  using assms by (auto simp: env_set_def env_get_def env_var_def split: if_splits)

lemma env_get_unset: "env_unset key env = (Done (), env') \<Longrightarrow> env_get key env' = LNil"
proof -
  assume "env_unset key env = (Done (), env')"
  then have env': "env' = filter (\<lambda>(k, _). k \<noteq> key) env"
    by (auto simp: env_unset_def split: if_splits)
  have "map_of (filter (\<lambda>(k, _). k \<noteq> key) env) key = None"
    by (induction env) auto
  then show ?thesis
    by (simp add: env' env_get_def env_var_def)
qed

lemma mode_char_bit: "c \<noteq> CHR ''-'' \<Longrightarrow> mode_char m (2 ^ k) c = mode_char n (2 ^ k) c \<longleftrightarrow> bit m k = bit n k"
  by (simp add: mode_char_def and_exp_eq_0_iff_not_bit)

lemma mode_string_inject: "mode_string m = mode_string n \<longleftrightarrow> take_bit 9 m = take_bit 9 n"
proof -
  have "mode_string m = mode_string n \<longleftrightarrow> (\<forall>k < 9. bit m k = bit n k)"
    using mode_char_bit [of "CHR ''r''" m 8 n] mode_char_bit [of "CHR ''w''" m 7 n] mode_char_bit [of "CHR ''x''" m 6 n]
      mode_char_bit [of "CHR ''r''" m 5 n] mode_char_bit [of "CHR ''w''" m 4 n] mode_char_bit [of "CHR ''x''" m 3 n]
      mode_char_bit [of "CHR ''r''" m 2 n] mode_char_bit [of "CHR ''w''" m 1 n] mode_char_bit [of "CHR ''x''" m 0 n]
    by (simp add: mode_string_def All_less_Suc2 numeral_eq_Suc) blast
  also have "\<dots> \<longleftrightarrow> take_bit 9 m = take_bit 9 n"
  proof
    assume "\<forall>k < 9. bit m k = bit n k"
    then show "take_bit 9 m = take_bit 9 n"
      by (auto simp: bit_eq_iff bit_take_bit_iff)
  next
    assume eq: "take_bit 9 m = take_bit 9 n"
    show "\<forall>k < 9. bit m k = bit n k"
      using arg_cong [OF eq, of "\<lambda>x. bit x k" for k] by (auto simp: bit_take_bit_iff)
  qed
  finally show ?thesis .
qed

lemma cwd_search_path:
  assumes "package_path st = search_path (lua_cwd st) (orig_path st)"
  shows "package_path (snd (fs_cwd os path o1 st)) =
    search_path (lua_cwd (snd (fs_cwd os path o1 st))) (orig_path (snd (fs_cwd os path o1 st)))"
  using assms by (auto simp: fs_cwd_def Let_def split: option.splits)



end
