(* ===== verification/Pipeline.thy ===== *)
theory Pipeline
  imports Fair_Runs Lua_Values "HOL-Library.Sublist"
begin

text \<open>
  The tasks that communicate by channels only: \<open>src/src/task.rs\<close> (the trait, the signal and \<open>spawn\<close>),
  \<open>source.rs\<close>, \<open>processor.rs\<close> and \<open>sink.rs\<close>. They are an earlier core of the program and not compiled
  any more. The three tasks are connected in the way their types ask for: the output of the source
  is the input of the processor, the output of the processor the input of the sink.

  A channel is a queue with a capacity. It is closed for its receiver when the sending task has
  ended and the queue is empty, and closed for its sender when the receiving task has ended. What a
  task reads from its control channel is nothing (\<open>Quiet\<close>), a shutdown signal, or the end of the
  channel after its sender is gone (\<open>CtrlGone\<close>). The tick of the source and the texts that are
  printed are left out, except for what the sink reports.
\<close>

datatype ctrl = Quiet | Shutdown | CtrlGone

text \<open>\<open>self.start ..= self.start + self.count as i64 - 1\<close>, on 64 bits.\<close>

definition source_values :: "i64 \<Rightarrow> 64 word \<Rightarrow> i64 list" where
  "source_values start cnt = map word_of_int [sint start .. sint (start + cnt - 1)]"

text \<open>Where the loop of a task is; a processor may be waiting to send the result of a value.\<close>

datatype source_state = Emitting "i64 list" | SourceEnd

datatype processor_state = Receiving | Sending i64 | ProcessorEnd

datatype sink_state = Collecting "i64 list" | SinkEnd "i64 list"

record pipeline =
  pl_source :: source_state
  pl_chan1 :: "i64 list"
  pl_processor :: processor_state
  pl_chan2 :: "i64 list"
  pl_sink :: sink_state
  pl_ctrl :: "ctrl \<times> ctrl \<times> ctrl"

definition pipeline_new :: "i64 \<Rightarrow> 64 word \<Rightarrow> pipeline" where
  "pipeline_new start cnt =
     \<lparr>pl_source = Emitting (source_values start cnt), pl_chan1 = [], pl_processor = Receiving, pl_chan2 = [],
      pl_sink = Collecting [], pl_ctrl = (Quiet, Quiet, Quiet)\<rparr>"

datatype pipe_task = SourceTask | ProcessorTask | SinkTask | Controller

text \<open>
  One step of a task. In every \<open>select!\<close> the control channel comes first (\<open>biased\<close>): its end counts as
  a message that is not a shutdown, so the source goes on to the next value without sending this
  one, and the loops of the others go round without receiving.
\<close>

definition source_select :: "nat \<Rightarrow> i64 \<Rightarrow> i64 list \<Rightarrow> pipeline \<Rightarrow> pipeline option" where
  "source_select cap value rest s =
     (case fst (pl_ctrl s) of
        Shutdown \<Rightarrow> Some (s\<lparr>pl_source := SourceEnd\<rparr>)
      | CtrlGone \<Rightarrow> Some (s\<lparr>pl_source := Emitting rest\<rparr>)
      | Quiet \<Rightarrow>
          if pl_processor s = ProcessorEnd then Some (s\<lparr>pl_source := SourceEnd\<rparr>)
          else if length (pl_chan1 s) < cap
          then Some (s\<lparr>pl_source := Emitting rest, pl_chan1 := pl_chan1 s @ [value]\<rparr>)
          else None)"

definition source_run :: "nat \<Rightarrow> pipeline \<Rightarrow> pipeline option" where
  "source_run cap s =
     (case pl_source s of
        Emitting (value # rest) \<Rightarrow> source_select cap value rest s
      | Emitting [] \<Rightarrow> Some (s\<lparr>pl_source := SourceEnd\<rparr>)
      | SourceEnd \<Rightarrow> None)"

definition processor_run :: "nat \<Rightarrow> (i64 \<Rightarrow> i64) \<Rightarrow> pipeline \<Rightarrow> pipeline option" where
  "processor_run cap transform s =
     (case pl_processor s of
        Receiving \<Rightarrow>
          (case fst (snd (pl_ctrl s)) of
             Shutdown \<Rightarrow> Some (s\<lparr>pl_processor := ProcessorEnd\<rparr>)
           | CtrlGone \<Rightarrow> Some s
           | Quiet \<Rightarrow>
               (case pl_chan1 s of
                  v # vs \<Rightarrow> Some (s\<lparr>pl_chan1 := vs, pl_processor := Sending (transform v)\<rparr>)
                | [] \<Rightarrow> if pl_source s = SourceEnd then Some (s\<lparr>pl_processor := ProcessorEnd\<rparr>) else None))
      | Sending result \<Rightarrow>
          (case pl_sink s of
             SinkEnd _ \<Rightarrow> Some (s\<lparr>pl_processor := ProcessorEnd\<rparr>)
           | Collecting _ \<Rightarrow>
               if length (pl_chan2 s) < cap
               then Some (s\<lparr>pl_chan2 := pl_chan2 s @ [result], pl_processor := Receiving\<rparr>)
               else None)
      | ProcessorEnd \<Rightarrow> None)"

definition sink_run :: "pipeline \<Rightarrow> pipeline option" where
  "sink_run s =
     (case pl_sink s of
        Collecting values \<Rightarrow>
          (case snd (snd (pl_ctrl s)) of
             Shutdown \<Rightarrow> Some (s\<lparr>pl_sink := SinkEnd values\<rparr>)
           | CtrlGone \<Rightarrow> Some s
           | Quiet \<Rightarrow>
               (case pl_chan2 s of
                  v # vs \<Rightarrow> Some (s\<lparr>pl_chan2 := vs, pl_sink := Collecting (values @ [v])\<rparr>)
                | [] \<Rightarrow> if pl_processor s = ProcessorEnd then Some (s\<lparr>pl_sink := SinkEnd values\<rparr>) else None))
      | SinkEnd _ \<Rightarrow> None)"

text \<open>What the sink reports at its end: nothing received, or the number of values and their sum on 64 bits.\<close>

definition sink_report :: "i64 list \<Rightarrow> (nat \<times> i64) option" where
  "sink_report values = (if values = [] then None else Some (length values, sum_list values))"

text \<open>The holders of the control channels send a shutdown or drop their end, at any time.\<close>

inductive pipe_step :: "nat \<Rightarrow> nat \<Rightarrow> (i64 \<Rightarrow> i64) \<Rightarrow> pipe_task \<Rightarrow> pipeline \<Rightarrow> pipeline \<Rightarrow> bool"
  for cap1 cap2 transform where
  source: "source_run cap1 s = Some s' \<Longrightarrow> pipe_step cap1 cap2 transform SourceTask s s'"
| processor: "processor_run cap2 transform s = Some s' \<Longrightarrow> pipe_step cap1 cap2 transform ProcessorTask s s'"
| sink: "sink_run s = Some s' \<Longrightarrow> pipe_step cap1 cap2 transform SinkTask s s'"
| control: "pipe_step cap1 cap2 transform Controller s (s\<lparr>pl_ctrl := c\<rparr>)"

text \<open>The steps of a pipeline whose control channels stay open and silent.\<close>

definition quiet_step :: "nat \<Rightarrow> nat \<Rightarrow> (i64 \<Rightarrow> i64) \<Rightarrow> pipe_task \<Rightarrow> pipeline \<Rightarrow> pipeline \<Rightarrow> bool" where
  "quiet_step cap1 cap2 transform a s s' \<longleftrightarrow> a \<noteq> Controller \<and> pipe_step cap1 cap2 transform a s s'"

inductive_simps pipe_step_simps:
  "pipe_step cap1 cap2 transform SourceTask s s'"
  "pipe_step cap1 cap2 transform ProcessorTask s s'"
  "pipe_step cap1 cap2 transform SinkTask s s'"
  "pipe_step cap1 cap2 transform Controller s s'"

lemmas task_runs = source_run_def source_select_def processor_run_def sink_run_def

subsection \<open>Order\<close>

fun sink_values :: "sink_state \<Rightarrow> i64 list" where
  "sink_values (Collecting vs) = vs"
| "sink_values (SinkEnd vs) = vs"

fun to_emit :: "source_state \<Rightarrow> i64 list" where
  "to_emit (Emitting vs) = vs"
| "to_emit SourceEnd = []"

fun held :: "processor_state \<Rightarrow> i64 list" where
  "held (Sending w) = [w]"
| "held p = []"

text \<open>What has arrived, is on the way and is still to be sent, as the sink would see it.\<close>

definition all_values :: "(i64 \<Rightarrow> i64) \<Rightarrow> pipeline \<Rightarrow> i64 list" where
  "all_values transform s =
     sink_values (pl_sink s) @ pl_chan2 s @ held (pl_processor s) @ map transform (pl_chan1 s) @
     map transform (to_emit (pl_source s))"

lemma source_run_values: "source_run cap s = Some s' \<Longrightarrow> subseq (all_values f s') (all_values f s)"
  by (auto simp: source_run_def source_select_def all_values_def subseq_append'
      split: source_state.splits list.splits ctrl.splits if_splits)

lemma processor_run_values: "processor_run cap f s = Some s' \<Longrightarrow> subseq (all_values f s') (all_values f s)"
  by (auto simp: processor_run_def all_values_def subseq_append'
      split: processor_state.splits list.splits ctrl.splits if_splits sink_state.splits)

lemma sink_run_values: "sink_run s = Some s' \<Longrightarrow> all_values f s' = all_values f s"
  by (auto simp: sink_run_def all_values_def split: sink_state.splits list.splits ctrl.splits if_splits)


interpretation pipe: invariant_system "\<lambda>s. s = pipeline_new start cnt" "pipe_step cap1 cap2 f"
    "\<lambda>s. subseq (all_values f s) (map f (source_values start cnt))"
  for start cnt cap1 cap2 f
proof
  show "subseq (all_values f s) (map f (source_values start cnt))" if "s = pipeline_new start cnt" for s
    using that by (simp add: pipeline_new_def all_values_def)
  show "subseq (all_values f s') (map f (source_values start cnt))"
    if "subseq (all_values f s) (map f (source_values start cnt))" "pipe_step cap1 cap2 f a s s'" for s a s'
  proof -
    have "subseq (all_values f s') (all_values f s)"
      using that(2) by (cases rule: pipe_step.cases)
        (auto simp: source_run_values processor_run_values sink_run_values, simp add: all_values_def)
    then show ?thesis
      using that(1) by (rule subseq_order.order_trans)
  qed
qed

text \<open>
  Whatever is sent on the control channels and whenever they are closed, the values that the sink
  has collected are results of values of the source in their order, each at most once.
\<close>

lemma pipeline_keeps_order:
  assumes "reach (\<lambda>s. s = pipeline_new start cnt) (pipe_step cap1 cap2 f) s"
  shows "subseq (sink_values (pl_sink s)) (map f (source_values start cnt))"
proof -
  have "prefix (sink_values (pl_sink s)) (all_values f s)"
    by (simp add: all_values_def)
  then have "subseq (sink_values (pl_sink s)) (all_values f s)"
    by (rule prefix_imp_subseq)
  then show ?thesis
    using pipe.reach_inv [OF assms] by (rule subseq_order.order_trans)
qed

subsection \<open>Completeness\<close>

definition quiet_ok :: "(i64 \<Rightarrow> i64) \<Rightarrow> i64 list \<Rightarrow> pipeline \<Rightarrow> bool" where
  "quiet_ok f vs s \<longleftrightarrow>
     all_values f s = map f vs \<and> pl_ctrl s = (Quiet, Quiet, Quiet) \<and>
     (pl_processor s = ProcessorEnd \<longrightarrow> pl_source s = SourceEnd \<and> pl_chan1 s = []) \<and>
     (\<forall>xs. pl_sink s = SinkEnd xs \<longrightarrow> pl_processor s = ProcessorEnd \<and> pl_chan2 s = [])"

lemma quiet_ok_step: "quiet_ok f vs s \<Longrightarrow> quiet_step cap1 cap2 f a s s' \<Longrightarrow> quiet_ok f vs s'"
  by (cases a) (auto simp: quiet_ok_def quiet_step_def pipe_step_simps task_runs all_values_def
      split: source_state.splits processor_state.splits sink_state.splits list.splits if_splits)

interpretation quiet: invariant_system "\<lambda>s. s = pipeline_new start cnt" "quiet_step cap1 cap2 f"
    "quiet_ok f (source_values start cnt)"
  for start cnt cap1 cap2 f
  by unfold_locales (simp_all add: quiet_ok_step, simp add: quiet_ok_def pipeline_new_def all_values_def)

text \<open>The work that is left: every step takes a value one station on or ends a task.\<close>

definition work_left :: "pipeline \<Rightarrow> nat" where
  "work_left s =
     4 * length (to_emit (pl_source s)) + 3 * length (pl_chan1 s) + 2 * length (held (pl_processor s)) + length (pl_chan2 s) +
     (if pl_source s = SourceEnd then 0 else 1) + (if pl_processor s = ProcessorEnd then 0 else 1) +
     (case pl_sink s of SinkEnd _ \<Rightarrow> 0 | _ \<Rightarrow> 1)"

lemma quiet_step_works: "quiet_ok f vs s \<Longrightarrow> quiet_step cap1 cap2 f a s s' \<Longrightarrow> work_left s' < work_left s"
  by (cases a) (auto simp: quiet_ok_def quiet_step_def pipe_step_simps task_runs work_left_def
      split: source_state.splits processor_state.splits sink_state.splits list.splits if_splits)

lemma processor_ready:
  assumes "quiet_ok f vs s" and "pl_sink s = Collecting xs" and "pl_chan2 s = []" and "0 < cap2"
    and "pl_processor s \<noteq> ProcessorEnd" and "pl_chan1 s \<noteq> [] \<or> pl_source s = SourceEnd"
  shows "processor_run cap2 f s \<noteq> None"
  using assms by (cases "pl_chan1 s"; cases "pl_processor s") (auto simp: quiet_ok_def processor_run_def)

lemma quiet_ready:
  assumes ok: "quiet_ok f vs s" and "\<not> (\<exists>xs. pl_sink s = SinkEnd xs)" and "0 < cap1" and "0 < cap2"
  shows "\<exists>a \<in> {SourceTask, ProcessorTask, SinkTask}. enabled (quiet_step cap1 cap2 f) a s"
proof -
  obtain xs where sink: "pl_sink s = Collecting xs"
    using assms(2) by (cases "pl_sink s") auto
  have "source_run cap1 s \<noteq> None \<or> processor_run cap2 f s \<noteq> None \<or> sink_run s \<noteq> None"
  proof (cases "pl_chan2 s \<noteq> [] \<or> pl_processor s = ProcessorEnd")
    case True
    then have "sink_run s \<noteq> None"
      using ok sink by (cases "pl_chan2 s") (auto simp: quiet_ok_def sink_run_def)
    then show ?thesis by simp
  next
    case False
    show ?thesis
    proof (cases "pl_chan1 s \<noteq> [] \<or> pl_source s = SourceEnd")
      case True
      then show ?thesis
        using processor_ready [OF ok sink _ assms(4)] False by blast
    next
      case running: False
      then have "source_run cap1 s \<noteq> None"
        using ok False assms(3) by (cases "pl_source s") (auto simp: quiet_ok_def source_run_def source_select_def split: list.splits)
      then show ?thesis by simp
    qed
  qed
  then show ?thesis
    by (auto simp: enabled_def quiet_step_def pipe_step_simps)
qed

lemma source_values_nth:
  assumes "- (2 ^ 63) < sint start + int (unat cnt)" and "sint start + int (unat cnt) \<le> 2 ^ 63"
  shows "length (source_values start cnt) = unat cnt"
    and "i < unat cnt \<Longrightarrow> sint (source_values start cnt ! i) = sint start + int i"
proof -
  have fits: "sint (word_of_int k :: i64) = k" if "- (2 ^ 63) \<le> k" "k < 2 ^ 63" for k
    using that by (simp add: sint_sbintrunc' signed_take_bit_int_eq_self)
  have "word_of_int (sint start + int (unat cnt) - 1) = start + cnt - 1"
    by simp
  then have last: "sint (start + cnt - 1) = sint start + int (unat cnt) - 1"
    using fits [of "sint start + int (unat cnt) - 1"] assms by (simp del: of_int_diff of_int_add)
  then show "length (source_values start cnt) = unat cnt"
    by (simp add: source_values_def)
  show "sint (source_values start cnt ! i) = sint start + int i" if "i < unat cnt"
  proof -
    have i: "int i < int (unat cnt)"
      using that by (simp only: of_nat_less_iff)
    have "sint (word_of_int (sint start + int i) :: i64) = sint start + int i"
      using i assms sint_ge [of start] by (intro fits) simp_all
    moreover have "source_values start cnt ! i = word_of_int (sint start + int i)"
      using i last that by (simp add: source_values_def nth_upto)
    ultimately show ?thesis
      by simp
  qed
qed


text \<open>
  The end of the control channel is taken for a message: a source whose control channel is closed
  when it starts sends none of its values, and the sink ends with nothing received.
\<close>

definition cut_off :: "pipeline \<Rightarrow> bool" where
  "cut_off s \<longleftrightarrow>
     fst (pl_ctrl s) = CtrlGone \<and> pl_chan1 s = [] \<and> held (pl_processor s) = [] \<and> pl_chan2 s = [] \<and>
     sink_values (pl_sink s) = []"

interpretation cut: invariant_system "\<lambda>s. s = (pipeline_new start cnt)\<lparr>pl_ctrl := (CtrlGone, Quiet, Quiet)\<rparr>"
    "quiet_step cap1 cap2 f" cut_off
  for start cnt cap1 cap2 f
proof
  show "cut_off s" if "s = (pipeline_new start cnt)\<lparr>pl_ctrl := (CtrlGone, Quiet, Quiet)\<rparr>" for s
    using that by (simp add: cut_off_def pipeline_new_def)
  show "cut_off s'" if "cut_off s" "quiet_step cap1 cap2 f a s s'" for s a s'
    using that by (cases a) (auto simp: cut_off_def quiet_step_def pipe_step_simps task_runs
        split: source_state.splits processor_state.splits sink_state.splits list.splits if_splits ctrl.splits)
qed

lemma closed_control_drops_values:
  assumes "reach (\<lambda>s. s = (pipeline_new start cnt)\<lparr>pl_ctrl := (CtrlGone, Quiet, Quiet)\<rparr>) (quiet_step cap1 cap2 f) s"
  shows "sink_values (pl_sink s) = []"
  using cut.reach_inv [OF assms] by (simp add: cut_off_def)

text \<open>A run for one value and a processor that doubles.\<close>

definition pipe_at :: "source_state \<Rightarrow> i64 list \<Rightarrow> processor_state \<Rightarrow> i64 list \<Rightarrow> sink_state \<Rightarrow> pipeline" where
  "pipe_at so c1 p c2 si =
     \<lparr>pl_source = so, pl_chan1 = c1, pl_processor = p, pl_chan2 = c2, pl_sink = si, pl_ctrl = (Quiet, Quiet, Quiet)\<rparr>"

definition demo_pipe :: "(pipe_task \<times> pipeline) list" where
  "demo_pipe =
     [(SourceTask, pipe_at (Emitting []) [5] Receiving [] (Collecting [])),
      (ProcessorTask, pipe_at (Emitting []) [] (Sending 10) [] (Collecting [])),
      (SourceTask, pipe_at SourceEnd [] (Sending 10) [] (Collecting [])),
      (ProcessorTask, pipe_at SourceEnd [] Receiving [10] (Collecting [])),
      (SinkTask, pipe_at SourceEnd [] Receiving [] (Collecting [10])),
      (ProcessorTask, pipe_at SourceEnd [] ProcessorEnd [] (Collecting [10])),
      (SinkTask, pipe_at SourceEnd [] ProcessorEnd [] (SinkEnd [10]))]"

lemma demo_pipe_start: "pipeline_new 5 1 = pipe_at (Emitting [5]) [] Receiving [] (Collecting [])"
  by (simp add: pipeline_new_def pipe_at_def source_values_def)

lemma demo_pipe_fair:
  "fair_run {SourceTask, ProcessorTask, SinkTask} (\<lambda>s. s = pipeline_new 5 1) (quiet_step 1 1 (\<lambda>x. 2 * x))
     (fst (finite_run demo_pipe (pipeline_new 5 1))) (snd (finite_run demo_pipe (pipeline_new 5 1)))"
proof (rule finite_run_fair)
  show "follows (quiet_step 1 1 (\<lambda>x. 2 * x)) (pipeline_new 5 1) demo_pipe"
    by (simp add: demo_pipe_def demo_pipe_start quiet_step_def pipe_step_simps) (simp add: pipe_at_def task_runs)
  show "\<not> enabled (quiet_step 1 1 (\<lambda>x. 2 * x)) a (last (pipeline_new 5 1 # map snd demo_pipe))"
    if "a \<in> {SourceTask, ProcessorTask, SinkTask}" for a
    using that by (auto simp: demo_pipe_def enabled_def quiet_step_def pipe_step_simps pipe_at_def task_runs)
qed simp


end
