(* ===== verification/Spec2Isabelle.thy ===== *)
theory Spec2Isabelle
  imports Lifecycle Self_Call Shutdown Same_File Write_Offsets Sftp_Session Fuse_Readdir Serialize_Queries Store_Session Script_Libs Json_Module Pipeline
begin

text \<open>
  Verification of pinhead, a virtual filesystem whose operations are functions of a Lua script.

  \<^bold>\<open>The program.\<close> A script registers functions for path patterns and operations and names the
  addresses to serve on (\<open>src/src/handler.rs\<close>). \<open>main\<close> compiles the script, merges the
  registrations into a route table and starts three kinds of tasks (\<open>src/src/main.rs\<close>):
  the router, which matches the path of a request and selects the handler (\<open>router.rs\<close>); the
  worker pool, whose workers run the Lua functions (\<open>worker.rs\<close>); and the frontends, which
  translate a protocol into requests: FUSE (\<open>frontend/fuse.rs\<close>), 9P over Unix sockets,
  TCP, TLS and UDP (\<open>frontend/ninep.rs\<close>) and SFTP over SSH (\<open>frontend/sshfs.rs\<close>). A
  request travels frontend, router, dispatcher, worker, and its reply goes back through a
  one-shot channel. Lua functions can call libraries: a 9P client (\<open>frontend/ninep_client.rs\<close>),
  serialisation (\<open>serialize.rs\<close>) and databases (\<open>store.rs\<close>).

  \<^bold>\<open>Shared theories.\<close>
  \<^item> \<open>Prelude\<close>: machine integers, wire codecs, slices, hash maps as association lists.
  \<^item> \<open>Rust_Strings\<close>: the string functions of the standard library that the code uses, byte by
    byte, with UTF-8 validity and lossy decoding.
  \<^item> \<open>Lua_Values\<close>: the values that cross between Rust and Lua.
  \<^item> \<open>Async\<close>: handlers as resumptions whose constructors are the awaits of the source; \<open>run\<close>
    executes one task, \<open>pool_step\<close> interleaves any number; the locale \<open>rely_guarantee\<close> lifts an
    invariant of the critical sections to all interleavings.
  \<^item> \<open>Framing\<close>: the locale \<open>framing\<close>, length-prefixed messages on a byte stream, interpreted for
    9P messages, multiplexer frames and SFTP packets.
  \<^item> \<open>Handle_Table\<close>: the locale \<open>handle_table\<close>, tables that hand out identifiers, interpreted for
    SFTP handles, FUSE inodes and database handles.
  \<^item> \<open>Fair_Runs\<close>: the locale \<open>invariant_system\<close>, labelled steps, reachable states and fair runs, with
    rules for invariants, for progress, for termination and for the refinement of fair runs;
    interpreted for the tasks behind the
    frontends and their end, a handler that calls its own program, the TCP accept loop and the
    channel tasks.

  \<^bold>\<open>Components and what is shown.\<close>
  \<^item> \<open>Router\<close> (\<open>fsop.rs\<close>, \<open>router.rs\<close>, step 3 of \<open>main\<close>): the route table gives each operation to the
    last registration that claims it; which requests are forwarded, with what, how often, and
    how they are answered, on every branch of \<open>dispatch\<close>.
  \<^item> \<open>Ninep_Server\<close> (\<open>ninep.rs\<close>): every message handler over the shared record; \<open>Ninep_Invariant\<close>:
    the qid and fid tables keep their invariant under every interleaving; \<open>Ninep_Replies\<close>: one
    reply per request with its tag, and the exact inputs on which a handler panics.
  \<^item> \<open>Ninep_Client\<close> (\<open>ninep_client.rs\<close>) and \<open>Ninep_Session\<close>: the client against the server: connect,
    read and write a file end to end, errors of the server reach the caller.
  \<^item> \<open>Ninep_Listeners\<close> (\<open>ninep.rs\<close>): the multiplexer delivers to each stream its own bytes, a stream
    reads as one byte sequence, and how datagrams are answered.
  \<^item> \<open>Sftp_Server\<close>, \<open>Ssh_Auth\<close>, \<open>Sftp_Session\<close> (\<open>sshfs.rs\<close>): the packet loop refines a list of
    requests with one response each; a handle means its path until it is closed; reads return
    the slices of the content; path normalisation; base64; who is let in.
  \<^item> \<open>Fuse_Frontend\<close>, \<open>Fuse_Inodes\<close>, \<open>Fuse_Session\<close>, \<open>Fuse_Readdir\<close> (\<open>fuse.rs\<close>): inode numbers keep
    their paths; attributes are reported as printed; reads tile the content; a listing read
    in pages is complete; behaviour on unknown inodes, of renames and of the size cache.
  \<^item> \<open>Script_Setup\<close> (\<open>handler.rs\<close>): the tables a script calls, \<open>compile\<close>, \<open>from_bytecodes\<close> and
    \<open>call_lua\<close>: the function that answers a request is the one the last matching registration
    passed; the configuration is what the calls, read in order, promise.
  \<^item> \<open>Worker_Pool\<close> (\<open>worker.rs\<close>): under every interleaving of dispatcher and workers a request is in
    one open channel or settled once; the size of the pool; round robin; dead workers.
  \<^item> \<open>Request_Flow\<close> (\<open>run_router\<close>, \<open>dispatcher_loop\<close>, \<open>worker_fn\<close> and their channels): the tasks behind the
    frontends as they run concurrently. Every request is answered in every fair run; the replies
    are those of the sequential router; the pool of workers never grows. \<open>Self_Call\<close>: a handler
    that sends a request to its own program stops it. \<open>Shutdown\<close>: after the frontends are gone
    every request is answered and all tasks end.
  \<^item> \<open>Accept_Loops\<close> (\<open>ninep.rs\<close>): the TCP listener serves one connection at a time; the start of the
    TLS listener, the life of the socket file and the writers of the streams.
  \<^item> \<open>Serialize\<close>, \<open>Json_Roundtrip\<close>, \<open>Serialize_Queries\<close> (\<open>serialize.rs\<close>): JSON to Lua and back is the
    identity on plain documents; path queries find what they address; CSV queries.
  \<^item> \<open>Json_Module\<close> (\<open>json.rs\<close>, which is not compiled, and \<open>json_jq\<close> of \<open>serialize.rs\<close>): the two JSON modules
    agree; the conversions yield values that serde_json and the Lua machine can hold.
  \<^item> \<open>Pipeline\<close> (\<open>task.rs\<close>, \<open>source.rs\<close>, \<open>processor.rs\<close>, \<open>sink.rs\<close>, which are not compiled): the pipeline
    delivers the transformed values in order and ends, unless a control channel is closed.
  \<^item> \<open>Store\<close>, \<open>Store_Session\<close> (\<open>store.rs\<close>): the document functions refine a map; handles are valid
    exactly from their opening to their closing.
  \<^item> \<open>Script_Libs\<close> (\<open>setup_runtime_apis\<close> of \<open>handler.rs\<close>, \<open>env.rs\<close>, \<open>fs.rs\<close>, \<open>req.rs\<close>): the functions that a
    script finds in its library tables; a script reads a file of another 9P server; environment
    variables, permission strings and the script directory.
  \<^item> \<open>Program\<close> (\<open>main.rs\<close>): the script that is loaded, the frontends that are started, and the whole
    path of a request: a file that a script serves is read over 9P with the content that the
    script's function returns, through server, router, dispatcher and worker.
  \<^item> \<open>Same_File\<close>: the same file over SFTP and FUSE, through the locale \<open>file_service\<close> that says what a
    frontend needs of the program behind it. \<open>Write_Offsets\<close>: what handlers learn of writes.
  \<^item> \<open>Lifecycle\<close> (\<open>main.rs\<close>, \<open>PathRouterBuilder\<close> of \<open>router.rs\<close>): when the program starts and when it
    panics over its routes; that every worker of a running program has its runtime; the socket
    files after an interrupt.

  \<^bold>\<open>Fuel and bounds.\<close> The loops of the 9P client that run until the server ends them take
  fuel; \<open>Ninep_Session\<close> shows that two rounds suffice to read a file and one round per chunk
  and one more to write it. The other loops terminate by a measure: the length of the input,
  the number of components, the size of a value. Counters are words of 64 bits, and
  theorems about fresh identifiers bound the number of allocations so that they do not wrap.

  \<^bold>\<open>Parameters.\<close> Code outside the repository is an argument of the definitions that use it: the
  path trie (\<open>matchit\<close>), the Lua virtual machine (\<open>mlua\<close>), the SSH and SFTP libraries, the FUSE
  reply buffer, the serialisers, SQLite, libcurl, the operating system, sockets and clocks, the iteration order of hash maps.
  What a theorem needs of them is a named hypothesis, and its witness instantiates it.

  \<^bold>\<open>Fairness.\<close> Liveness is shown for runs in which a task that stays ready is taken sooner or later
  (weak fairness), as the scheduler of tokio does; frontends, timers and signals need not act.

  \<^bold>\<open>Not modelled.\<close> Log output, the delivery of signals and the time that passes (a timer may fire at
  any moment); the conversion of the arguments of library functions from Lua values, which mlua
  does; what the operating system, the FUSE and the SSH library do with a socket or a session; the
  code that only registers functions under their names in the Lua machine.
\<close>

end
